(* ===== verification/Prelude.thy ===== *)
theory Prelude
  imports Main "HOL-Library.Word" "HOL-Library.Char_ord" "HOL-Library.List_Lexorder"
    "HOL-Library.Product_Lexorder" "HOL-Library.Multiset"
begin

text \<open>
  The part of Go and its standard library that several adapters share: strings and byte
  slices, decimal formatting and parsing, times and durations, error values with
  wrapping, panics as values, and contexts. Every component theory imports this one.

  Conventions. A Go \<^verbatim>\<open>string\<close> and a \<^verbatim>\<open>[]byte\<close> are both a list of 8-bit characters, so
  \<open>length\<close> is Go's \<^verbatim>\<open>len\<close> and the order of \<open>List_Lexorder\<close> is Go's string order. A
  \<^verbatim>\<open>(T, error)\<close> result is \<open>goerr + 'a\<close> and a lone \<^verbatim>\<open>error\<close> result is \<open>goerr option\<close>
  with \<open>None\<close> for nil. A call that may panic returns an \<open>outcome\<close>.
\<close>

named_theorems go_simps \<open>unfolding rules for the Go runtime model\<close>
named_theorems store_defs \<open>definitions of store operations\<close>

section \<open>Strings\<close>

type_synonym bytes = string

definition digit_char :: "nat \<Rightarrow> char" where
  "digit_char d = (char_of (48 + d) :: char)"

definition is_digit :: "char \<Rightarrow> bool" where
  "is_digit c \<longleftrightarrow> 48 \<le> (of_char c :: nat) \<and> (of_char c :: nat) \<le> 57"

definition digit_val :: "char \<Rightarrow> nat" where
  "digit_val c = (of_char c :: nat) - 48"

text \<open>\<open>strconv.FormatUint(n, 10)\<close>, also \<open>strconv.Itoa\<close> and \<open>%d\<close> on a length.\<close>

fun decimal :: "nat \<Rightarrow> string" where
  "decimal n = (if n < 10 then [digit_char n] else decimal (n div 10) @ [digit_char (n mod 10)])"

declare decimal.simps [simp del]

text \<open>\<open>strconv.FormatInt(n, 10)\<close>.\<close>

definition format_int :: "int \<Rightarrow> string" where
  "format_int n = (if n < 0 then CHR ''-'' # decimal (nat (- n)) else decimal (nat n))"

definition digits_val :: "string \<Rightarrow> nat" where
  "digits_val s = foldl (\<lambda>acc c. 10 * acc + digit_val c) 0 s"

text \<open>
  \<open>strconv.ParseInt(s, 10, 64)\<close>: an optional sign, then at least one decimal digit and
  nothing else (an underscore is accepted in base 0 only), within the range of int64;
  \<open>None\<close> is the error return.
\<close>

definition parse_magnitude :: "string \<Rightarrow> nat option" where
  "parse_magnitude s = (if s \<noteq> [] \<and> list_all is_digit s then Some (digits_val s) else None)"

definition parse_int64 :: "string \<Rightarrow> int option" where
  "parse_int64 s =
     (case s of
        [] \<Rightarrow> None
      | c # cs \<Rightarrow>
          if c = CHR ''-'' then
            (case parse_magnitude cs of None \<Rightarrow> None
             | Some n \<Rightarrow> if n \<le> 2 ^ 63 then Some (- int n) else None)
          else
            (case parse_magnitude (if c = CHR ''+'' then cs else s) of None \<Rightarrow> None
             | Some n \<Rightarrow> if n < 2 ^ 63 then Some (int n) else None))"

text \<open>\<open>strings.LastIndex(s, ":")\<close> and the two halves around that position.\<close>

fun last_index :: "char \<Rightarrow> string \<Rightarrow> nat option" where
  "last_index c [] = None"
| "last_index c (x # xs) =
     (case last_index c xs of
        Some i \<Rightarrow> Some (Suc i)
      | None \<Rightarrow> if x = c then Some 0 else None)"

text \<open>\<open>strings.Contains(s, sub)\<close> and \<open>strings.HasPrefix\<close>.\<close>

fun has_prefix :: "string \<Rightarrow> string \<Rightarrow> bool" where
  "has_prefix s [] = True"
| "has_prefix [] (p # ps) = False"
| "has_prefix (c # cs) (p # ps) = (c = p \<and> has_prefix cs ps)"

fun str_contains :: "string \<Rightarrow> string \<Rightarrow> bool" where
  "str_contains [] sub = (sub = [])"
| "str_contains (c # cs) sub = (has_prefix (c # cs) sub \<or> str_contains cs sub)"

text \<open>
  \<^verbatim>\<open>strings.TrimSpace(s) == ""\<close>: the string is made of Unicode white space only, here in UTF-8: the
  ASCII ones, U+0085, U+00A0, and those of three bytes.
\<close>

definition ascii_space :: "char \<Rightarrow> bool" where
  "ascii_space c \<longleftrightarrow> (of_char c :: nat) \<in> {9, 10, 11, 12, 13, 32}"

definition space_2 :: "char \<Rightarrow> char \<Rightarrow> bool" where
  "space_2 c d \<longleftrightarrow> (of_char c :: nat) = 194 \<and> (of_char d :: nat) \<in> {133, 160}"

definition space_3 :: "char \<Rightarrow> char \<Rightarrow> char \<Rightarrow> bool" where
  "space_3 c d e \<longleftrightarrow>
     (let x = (of_char c :: nat); y = (of_char d :: nat); z = (of_char e :: nat)
      in x = 225 \<and> y = 154 \<and> z = 128 \<or>
         x = 226 \<and> y = 128 \<and> (128 \<le> z \<and> z \<le> 138 \<or> z \<in> {168, 169, 175}) \<or>
         x = 226 \<and> y = 129 \<and> z = 159 \<or> x = 227 \<and> y = 128 \<and> z = 128)"

fun blank :: "string \<Rightarrow> bool" where
  "blank [] = True"
| "blank (c # cs) =
     (if ascii_space c then blank cs
      else case cs of
             [] \<Rightarrow> False
           | d # ds \<Rightarrow>
               if space_2 c d then blank ds
               else (case ds of [] \<Rightarrow> False | e # es \<Rightarrow> space_3 c d e \<and> blank es))"

lemma of_char_digit_char: "d < 10 \<Longrightarrow> (of_char (digit_char d) :: nat) = 48 + d"
  by (simp add: digit_char_def)

lemma digit_val_digit_char [simp]: "d < 10 \<Longrightarrow> digit_val (digit_char d) = d"
  by (simp add: digit_val_def of_char_digit_char)

lemma is_digit_digit_char [simp]: "d < 10 \<Longrightarrow> is_digit (digit_char d)"
  by (simp add: is_digit_def of_char_digit_char)

lemma digit_char_simps [simp]:
  "digit_char 0 = CHR ''0''" "digit_char (Suc 0) = CHR ''1''" "digit_char 1 = CHR ''1''"
  "digit_char 2 = CHR ''2''" "digit_char 3 = CHR ''3''" "digit_char 4 = CHR ''4''"
  "digit_char 5 = CHR ''5''" "digit_char 6 = CHR ''6''" "digit_char 7 = CHR ''7''"
  "digit_char 8 = CHR ''8''" "digit_char 9 = CHR ''9''"
  by code_simp+

lemma decimal_digits: "list_all is_digit (decimal n)"
proof (induction n rule: decimal.induct)
  case (1 n)
  then show ?case by (subst decimal.simps) (simp add: list_all_append)
qed

lemma decimal_nonempty [simp]: "decimal n \<noteq> []"
  by (subst decimal.simps) simp

lemma digits_val_snoc: "digits_val (s @ [c]) = 10 * digits_val s + digit_val c"
  by (simp add: digits_val_def)

lemma digits_val_decimal [simp]: "digits_val (decimal n) = n"
proof (induction n rule: decimal.induct)
  case (1 n)
  show ?case
  proof (cases "n < 10")
    case True
    then show ?thesis by (subst decimal.simps) (simp add: digits_val_def)
  next
    case False
    with 1 show ?thesis by (subst decimal.simps) (simp add: digits_val_snoc)
  qed
qed

lemma decimal_inj [simp]: "decimal m = decimal n \<longleftrightarrow> m = n"
  by (metis digits_val_decimal)

lemma not_digit_notin_decimal: "\<not> is_digit c \<Longrightarrow> c \<notin> set (decimal n)"
  using decimal_digits [of n] by (auto simp: list_all_iff)

lemma colon_notin_decimal [simp]: "CHR '':'' \<notin> set (decimal n)"
  by (rule not_digit_notin_decimal) (simp add: is_digit_def)

lemma parse_magnitude_decimal [simp]: "parse_magnitude (decimal n) = Some n"
  by (simp add: parse_magnitude_def decimal_digits)

lemma hd_decimal_is_digit: "decimal n = c # cs \<Longrightarrow> is_digit c"
  using decimal_digits [of n] by simp

text \<open>Parsing inverts formatting on the whole range of int64.\<close>

lemma parse_int64_format_int:
  assumes "- (2 ^ 63) \<le> n" and "n < 2 ^ 63"
  shows "parse_int64 (format_int n) = Some n"
proof (cases "n < 0")
  case True
  with assms have "nat (- n) \<le> 2 ^ 63" by simp
  with True show ?thesis by (simp add: format_int_def parse_int64_def)
next
  case False
  then have eq: "format_int n = decimal (nat n)" by (simp add: format_int_def)
  obtain c cs where cs: "decimal (nat n) = c # cs" by (cases "decimal (nat n)") auto
  then have "is_digit c" by (rule hd_decimal_is_digit)
  then have "c \<noteq> CHR ''-''" "c \<noteq> CHR ''+''" by (auto simp: is_digit_def)
  moreover have "nat n < 2 ^ 63" using False assms(2) by simp
  ultimately show ?thesis
    using False cs parse_magnitude_decimal [of "nat n"] by (simp add: eq parse_int64_def)
qed

lemma colon_notin_format_int [simp]: "CHR '':'' \<notin> set (format_int n)"
  by (simp add: format_int_def)

lemma format_int_nonempty [simp]: "format_int n \<noteq> []"
  by (simp add: format_int_def)

text \<open>The first separator fixes where a separated string splits.\<close>

lemma sep_append_inj:
  assumes "c \<notin> set a" and "c \<notin> set b"
  shows "a @ c # x = b @ c # y \<longleftrightarrow> a = b \<and> x = y"
  using assms
proof (induction a arbitrary: b)
  case Nil
  then show ?case by (cases b) auto
next
  case (Cons z zs)
  then show ?case by (cases b) auto
qed

lemma last_index_notin: "c \<notin> set s \<Longrightarrow> last_index c s = None"
  by (induction s) auto

lemma last_index_append_sep:
  "c \<notin> set t \<Longrightarrow> last_index c (s @ c # t) = Some (length s)"
  by (induction s) (auto simp: last_index_notin)

lemma last_index_SomeD:
  "last_index c s = Some i \<Longrightarrow> i < length s \<and> s ! i = c \<and> c \<notin> set (drop (Suc i) s)"
proof (induction s arbitrary: i)
  case (Cons x xs)
  show ?case
  proof (cases "last_index c xs")
    case None
    have "c \<notin> set xs"
      using None
    proof (induction xs)
      case (Cons y ys)
      then show ?case by (auto split: option.splits if_splits)
    qed simp
    with None Cons.prems show ?thesis by (auto split: if_splits)
  next
    case (Some j)
    with Cons show ?thesis by auto
  qed
qed simp

lemma last_index_split:
  assumes "last_index c s = Some i"
  shows "s = take i s @ c # drop (Suc i) s"
proof -
  from last_index_SomeD [OF assms] have "i < length s" and "s ! i = c" by auto
  then show ?thesis by (metis id_take_nth_drop)
qed

lemma has_prefix_iff: "has_prefix s p \<longleftrightarrow> (\<exists>t. s = p @ t)"
  by (induction s p rule: has_prefix.induct) auto

lemma str_contains_iff: "str_contains s sub \<longleftrightarrow> (\<exists>a b. s = a @ sub @ b)"
proof (induction s sub rule: str_contains.induct)
  case (2 c cs sub)
  show ?case
  proof
    assume "str_contains (c # cs) sub"
    then consider "has_prefix (c # cs) sub" | "str_contains cs sub" by auto
    then show "\<exists>a b. c # cs = a @ sub @ b"
    proof cases
      case 1
      then obtain t where "c # cs = [] @ sub @ t" by (auto simp: has_prefix_iff)
      then show ?thesis by blast
    next
      case 2
      with "2.IH" obtain a b where "c # cs = (c # a) @ sub @ b" by auto
      then show ?thesis by blast
    qed
  next
    assume "\<exists>a b. c # cs = a @ sub @ b"
    then obtain a b where eq: "c # cs = a @ sub @ b" by blast
    show "str_contains (c # cs) sub"
    proof (cases a)
      case Nil
      with eq have "has_prefix (c # cs) sub" by (auto simp: has_prefix_iff)
      then show ?thesis by simp
    next
      case (Cons x xs)
      with eq "2.IH" show ?thesis by auto
    qed
  qed
qed auto

section \<open>Times and durations\<close>

text \<open>
  A \<^verbatim>\<open>time.Time\<close> is its instant in nanoseconds since the Unix epoch and a
  \<^verbatim>\<open>time.Duration\<close> a number of nanoseconds. \<^verbatim>\<open>Time.Sub\<close> saturates at the ends of int64.
\<close>

type_synonym time = int
type_synonym duration = int

text \<open>The attributes of a log line, rendered.\<close>

type_synonym log_fields = "(string \<times> string) list"

definition max_duration :: duration where "max_duration = 2 ^ 63 - 1"
definition min_duration :: duration where "min_duration = - (2 ^ 63)"

definition time_sub :: "time \<Rightarrow> time \<Rightarrow> duration" where
  "time_sub t u = max min_duration (min max_duration (t - u))"

definition millisecond :: duration where "millisecond = 1000000"
definition second :: duration where "second = 1000000000"
definition minute :: duration where "minute = 60 * second"
definition hour :: duration where "hour = 60 * minute"

text \<open>\<^verbatim>\<open>Duration.Milliseconds\<close> truncates towards zero; the zero \<^verbatim>\<open>time.Time\<close> is year 1.\<close>

definition milliseconds :: "duration \<Rightarrow> int" where
  "milliseconds d = (if d < 0 then - ((- d) div millisecond) else d div millisecond)"

definition zero_time :: time where
  "zero_time = - 62135596800 * second"

lemma milliseconds_pos: "millisecond \<le> d \<Longrightarrow> 1 \<le> milliseconds d"
  by (simp add: milliseconds_def millisecond_def)

lemma milliseconds_sub_ms: "0 \<le> d \<Longrightarrow> d < millisecond \<Longrightarrow> milliseconds d = 0"
  by (simp add: milliseconds_def millisecond_def)

section \<open>Errors and panics\<close>

text \<open>
  An error value records how it was made. \<open>ErrNew\<close> is \<^verbatim>\<open>errors.New\<close>; package-level
  sentinels have distinct texts, so equality of values is Go's identity of sentinels.
  \<open>Errorf\<close> is \<^verbatim>\<open>fmt.Errorf\<close> with its text and the causes wrapped by \<^verbatim>\<open>%w\<close>, \<open>ErrJoin\<close>
  is \<^verbatim>\<open>errors.Join\<close>. \<open>ErrxNew\<close> and \<open>ErrxWrap\<close> record a call to the core library's
  \<^verbatim>\<open>errorsx.New\<close> and \<^verbatim>\<open>errorsx.Wrap\<close> with the code, the message and the wrapped cause.
  \<open>Foreign\<close> is an error a third-party package returns: whether it is a \<^verbatim>\<open>net.Error\<close>,
  its text, and the errors it wraps. Numbers, lists and quotation marks that a format puts into a
  text for the reader alone (key sizes, curve names, \<^verbatim>\<open>%q\<close>) are left out of it.
\<close>

datatype errcode = CodeUnknown | CodeInvalidArgument | CodeUnauthorized | CodeConflict
  | CodeAlreadyExists | CodeRateLimited | CodeUnavailable | CodeInternal

datatype goerr =
    ErrNew string
  | Errorf string "goerr list"
  | ErrJoin "goerr list"
  | ErrxNew errcode string
  | ErrxWrap errcode string goerr
  | CtxCanceled
  | CtxDeadlineExceeded
  | Foreign bool string "goerr list"

datatype 'a outcome = Ret 'a | Panic string

fun err_causes :: "goerr \<Rightarrow> goerr list" where
  "err_causes (Errorf _ es) = es"
| "err_causes (ErrJoin es) = es"
| "err_causes (ErrxWrap _ _ e) = [e]"
| "err_causes (Foreign _ _ es) = es"
| "err_causes _ = []"

lemma err_causes_size: "e \<in> set (err_causes x) \<Longrightarrow> size e < size x"
  by (cases x) (auto dest: size_list_estimation' [where f = size, OF _ order_refl])

text \<open>\<^verbatim>\<open>errors.Is\<close> on sentinels: the target occurs in the tree of wrapped errors.\<close>

function errors_is :: "goerr \<Rightarrow> goerr \<Rightarrow> bool" where
  "errors_is e target \<longleftrightarrow> e = target \<or> list_ex (\<lambda>c. errors_is c target) (err_causes e)"
  by pat_completeness auto
termination
  by (relation "measure (\<lambda>(e, t). size e)") (auto dest: err_causes_size)

declare errors_is.simps [simp del]

text \<open>
  \<^verbatim>\<open>errors.As\<close> with a \<^verbatim>\<open>*errorsx.Error\<close> target: the code of the first such error in
  depth-first order; and with a \<^verbatim>\<open>net.Error\<close> target: whether there is one.
\<close>

fun own_code :: "goerr \<Rightarrow> errcode option" where
  "own_code (ErrxNew c _) = Some c"
| "own_code (ErrxWrap c _ _) = Some c"
| "own_code _ = None"

fun first_some :: "('a \<Rightarrow> 'b option) \<Rightarrow> 'a list \<Rightarrow> 'b option" where
  "first_some f [] = None"
| "first_some f (x # xs) = (case f x of Some y \<Rightarrow> Some y | None \<Rightarrow> first_some f xs)"

lemma first_some_cong [fundef_cong]:
  "xs = ys \<Longrightarrow> (\<And>x. x \<in> set ys \<Longrightarrow> f x = g x) \<Longrightarrow> first_some f xs = first_some g ys"
  by (induction ys arbitrary: xs) (auto split: option.splits)

function as_coded :: "goerr \<Rightarrow> errcode option" where
  "as_coded e = (case own_code e of Some c \<Rightarrow> Some c | None \<Rightarrow> first_some as_coded (err_causes e))"
  by pat_completeness auto
termination
  by (relation "measure size") (auto dest: err_causes_size)

declare as_coded.simps [simp del]

function as_net_error :: "goerr \<Rightarrow> bool" where
  "as_net_error e \<longleftrightarrow>
     (case e of Foreign b _ _ \<Rightarrow> b | CtxDeadlineExceeded \<Rightarrow> True | _ \<Rightarrow> False)
     \<or> list_ex as_net_error (err_causes e)"
  by pat_completeness auto
termination
  by (relation "measure size") (auto dest: err_causes_size)

declare as_net_error.simps [simp del]

definition is_ctx_err :: "goerr \<Rightarrow> bool" where
  "is_ctx_err e \<longleftrightarrow> errors_is e CtxCanceled \<or> errors_is e CtxDeadlineExceeded"

lemma errors_is_refl [simp]: "errors_is e e"
  by (subst errors_is.simps) simp

lemma errors_is_Errorf [simp]:
  "errors_is (Errorf m es) t \<longleftrightarrow> Errorf m es = t \<or> (\<exists>c \<in> set es. errors_is c t)"
  by (subst errors_is.simps) (auto simp: list_ex_iff)

lemma errors_is_ErrxWrap [simp]:
  "errors_is (ErrxWrap c m e) t \<longleftrightarrow> ErrxWrap c m e = t \<or> errors_is e t"
  by (subst errors_is.simps) auto

lemma errors_is_leaf [simp]:
  "errors_is (ErrNew m) t \<longleftrightarrow> ErrNew m = t" "errors_is (ErrxNew c m) t \<longleftrightarrow> ErrxNew c m = t"
  "errors_is CtxCanceled t \<longleftrightarrow> CtxCanceled = t"
  "errors_is CtxDeadlineExceeded t \<longleftrightarrow> CtxDeadlineExceeded = t"
  "errors_is (Foreign b m []) t \<longleftrightarrow> Foreign b m [] = t"
  by (subst errors_is.simps, simp)+

lemma as_coded_leaf [simp]:
  "as_coded (ErrNew m) = None" "as_coded CtxCanceled = None" "as_coded CtxDeadlineExceeded = None"
  "as_coded (Foreign b m []) = None"
  by (subst as_coded.simps, simp)+

lemma as_coded_ErrxNew [simp]: "as_coded (ErrxNew c m) = Some c"
  by (subst as_coded.simps) simp

lemma as_coded_ErrxWrap [simp]: "as_coded (ErrxWrap c m e) = Some c"
  by (subst as_coded.simps) simp

lemma as_coded_Errorf [simp]: "as_coded (Errorf m es) = first_some as_coded es"
  by (subst as_coded.simps) simp

section \<open>Contexts\<close>

text \<open>
  A \<^verbatim>\<open>context.Context\<close>: the error \<^verbatim>\<open>ctx.Err()\<close> reports now, and its values. The keys are
  the package-private key types of the adapters, so a key of one package never meets a
  key of another; a value carries its dynamic type.
\<close>

datatype ctx_key = KeyTraceID | KeyCausationID | KeyCorrelationID | TxKey | OtherKey string

datatype ctx_val = StrVal string | TxVal nat | OtherVal string

record gctx =
  ctx_err :: "goerr option"
  ctx_values :: "ctx_key \<Rightarrow> ctx_val option"

definition background :: gctx where
  "background = \<lparr>ctx_err = None, ctx_values = (\<lambda>_. None)\<rparr>"

definition with_value :: "gctx \<Rightarrow> ctx_key \<Rightarrow> ctx_val \<Rightarrow> gctx" where
  "with_value c k v = c\<lparr>ctx_values := (ctx_values c)(k := Some v)\<rparr>"

text \<open>\<^verbatim>\<open>context.WithoutCancel\<close>: same values, never cancelled.\<close>

definition without_cancel :: "gctx \<Rightarrow> gctx" where
  "without_cancel c = c\<lparr>ctx_err := None\<rparr>"

lemma with_value_simps [simp]:
  "ctx_err (with_value c k v) = ctx_err c"
  "ctx_values (with_value c k v) k' = (if k' = k then Some v else ctx_values c k')"
  by (simp_all add: with_value_def)

text \<open>
  A call to a server: it works, it fails before it had an effect, or it takes effect and the
  reply is lost.
\<close>

datatype fault = NoFault | FailBefore goerr | FailAfter goerr

section \<open>Lists and options\<close>

text \<open>Mapping a fallible function over a list, stopping at the first error.\<close>

fun map_result :: "('a \<Rightarrow> 'e + 'b) \<Rightarrow> 'a list \<Rightarrow> 'e + 'b list" where
  "map_result f [] = Inr []"
| "map_result f (x # xs) =
     (case f x of
        Inl e \<Rightarrow> Inl e
      | Inr y \<Rightarrow> (case map_result f xs of Inl e \<Rightarrow> Inl e | Inr ys \<Rightarrow> Inr (y # ys)))"

lemma map_result_Inr_length: "map_result f xs = Inr ys \<Longrightarrow> length ys = length xs"
  by (induction xs arbitrary: ys) (auto split: sum.splits)

lemma map_result_Inr_nth:
  "map_result f xs = Inr ys \<Longrightarrow> i < length xs \<Longrightarrow> f (xs ! i) = Inr (ys ! i)"
proof (induction xs arbitrary: ys i)
  case (Cons x xs)
  then show ?case by (cases i) (auto split: sum.splits)
qed simp

lemma map_result_Inl_iff:
  "(\<exists>e. map_result f xs = Inl e) \<longleftrightarrow> (\<exists>x \<in> set xs. \<exists>e. f x = Inl e)"
  by (induction xs) (auto split: sum.splits)

text \<open>Removing the first element that satisfies a predicate, as the loops over
  \<^verbatim>\<open>m.records\<close> that stop at the first match do.\<close>

fun remove_first :: "('a \<Rightarrow> bool) \<Rightarrow> 'a list \<Rightarrow> 'a list" where
  "remove_first p [] = []"
| "remove_first p (x # xs) = (if p x then xs else x # remove_first p xs)"

fun update_first :: "('a \<Rightarrow> bool) \<Rightarrow> ('a \<Rightarrow> 'a) \<Rightarrow> 'a list \<Rightarrow> 'a list" where
  "update_first p f [] = []"
| "update_first p f (x # xs) = (if p x then f x # xs else x # update_first p f xs)"

lemma remove_first_notin: "\<not> list_ex p xs \<Longrightarrow> remove_first p xs = xs"
  by (induction xs) auto

lemma set_remove_first: "set (remove_first p xs) \<subseteq> set xs"
  by (induction xs) auto

lemma length_remove_first: "length (remove_first p xs) \<le> length xs"
  by (induction xs) auto

lemma distinct_map_remove_first:
  "distinct (map f xs) \<Longrightarrow> distinct (map f (remove_first p xs))"
  by (induction xs) (use set_remove_first in fastforce)+

lemma length_update_first [simp]: "length (update_first p f xs) = length xs"
  by (induction xs) auto

lemma map_update_first: "(\<And>x. g (f x) = g x) \<Longrightarrow> map g (update_first p f xs) = map g xs"
  by (induction xs) auto

lemma mset_remove_first_find:
  "find p xs = Some x \<Longrightarrow> mset xs = add_mset x (mset (remove_first p xs))"
  by (induction xs) (auto split: if_splits)

lemma find_Some_in: "find p xs = Some x \<Longrightarrow> x \<in> set xs \<and> p x"
  by (induction xs) (auto split: if_splits)

lemma find_key_distinct:
  "distinct (map k xs) \<Longrightarrow> x \<in> set xs \<Longrightarrow> find (\<lambda>y. k y = k x) xs = Some x"
  by (induction xs) (auto dest: image_eqI [OF refl, of _ _ k] simp: image_iff)

lemma find_key_None_iff: "find (\<lambda>y. k y = i) xs = None \<longleftrightarrow> i \<notin> k ` set xs"
  by (induction xs) auto

end
