(* ===== verification/Eventbus.thy ===== *)
theory Eventbus
  imports Prelude
begin

text \<open>
  The data that flows through the event bus: domain events, broker messages, outbox
  records and the codec interface. The core library declares these types; the fields
  below are the ones the adapters read and write (\<^verbatim>\<open>eventbus/outbox/memory.go\<close>,
  \<^verbatim>\<open>eventbus/kafka/codec.go\<close>), under the same names with a prefix per type.
\<close>

type_synonym headers = "string \<rightharpoonup> string"

text \<open>A \<^verbatim>\<open>domain.DomainEvent\<close>: its interface methods and the body the codec serialises.\<close>

record 'b devent =
  ev_EventID :: string
  ev_EventName :: string
  ev_AggregateID :: string
  ev_AggregateType :: string
  ev_OccurredAt :: time
  ev_Version :: int
  ev_Body :: 'b

text \<open>A watermill message; \<^verbatim>\<open>Metadata.Get\<close> yields the empty string for a missing key.\<close>

record wm_msg =
  msg_UUID :: string
  msg_Payload :: bytes
  msg_Metadata :: headers

definition new_message :: "string \<Rightarrow> bytes \<Rightarrow> wm_msg" where
  "new_message u p = \<lparr>msg_UUID = u, msg_Payload = p, msg_Metadata = Map.empty\<rparr>"

definition meta_set :: "string \<Rightarrow> string \<Rightarrow> wm_msg \<Rightarrow> wm_msg" where
  "meta_set k v m = m\<lparr>msg_Metadata := (msg_Metadata m)(k \<mapsto> v)\<rparr>"

definition map_get :: "headers \<Rightarrow> string \<Rightarrow> string" where
  "map_get h k = (case h k of Some v \<Rightarrow> v | None \<Rightarrow> [])"

definition meta_get :: "wm_msg \<Rightarrow> string \<Rightarrow> string" where
  "meta_get m k = map_get (msg_Metadata m) k"

lemma meta_set_simps [simp]:
  "msg_UUID (meta_set k v m) = msg_UUID m"
  "msg_Payload (meta_set k v m) = msg_Payload m"
  "msg_Metadata (meta_set k v m) = (msg_Metadata m)(k \<mapsto> v)"
  by (simp_all add: meta_set_def)

lemma new_message_simps [simp]:
  "msg_UUID (new_message u p) = u"
  "msg_Payload (new_message u p) = p"
  "msg_Metadata (new_message u p) = Map.empty"
  by (simp_all add: new_message_def)

text \<open>
  The codec port. \<^verbatim>\<open>Unmarshal\<close> runs caller-supplied factories and decoders, so it may
  panic; the relay guards against that.
\<close>

record 'b codec =
  cd_Marshal :: "gctx \<Rightarrow> 'b devent \<Rightarrow> goerr + wm_msg"
  cd_Unmarshal :: "gctx \<Rightarrow> wm_msg \<Rightarrow> (goerr + 'b devent \<times> string) outcome"

text \<open>The core's \<^verbatim>\<open>eventbus.OutboxRecord\<close>.\<close>

record orec =
  rec_ID :: string
  rec_EventID :: string
  rec_Topic :: string
  rec_EventName :: string
  rec_AggregateID :: string
  rec_AggregateType :: string
  rec_Payload :: bytes
  rec_Headers :: headers
  rec_CreatedAt :: time
  rec_AvailableAt :: time
  rec_Attempts :: int

text \<open>What a delivery attempt may change of a record: nothing but its schedule.\<close>

definition same_event :: "orec \<Rightarrow> orec \<Rightarrow> bool" where
  "same_event a b \<longleftrightarrow>
     rec_EventID a = rec_EventID b \<and> rec_Topic a = rec_Topic b \<and>
     rec_EventName a = rec_EventName b \<and> rec_AggregateID a = rec_AggregateID b \<and>
     rec_AggregateType a = rec_AggregateType b \<and> rec_Payload a = rec_Payload b \<and>
     rec_Headers a = rec_Headers b \<and> rec_CreatedAt a = rec_CreatedAt b"

lemma same_event_refl [simp]: "same_event a a"
  by (simp add: same_event_def)


text \<open>A small codec and events for concrete evaluations: the payload is the event id, the
  decoded event is looked up by its header.\<close>

definition example_event :: "string \<Rightarrow> unit devent" where
  "example_event i = \<lparr>ev_EventID = i, ev_EventName = ''order.placed'', ev_AggregateID = ''o1'',
     ev_AggregateType = ''Order'', ev_OccurredAt = 0, ev_Version = 1, ev_Body = ()\<rparr>"

definition example_codec :: "unit codec" where
  "example_codec = \<lparr>cd_Marshal = (\<lambda>ctx ev. if ev_EventID ev = [] then Inl (ErrNew ''bad event'')
                                    else Inr (new_message (ev_EventID ev) (ev_EventID ev))),
     cd_Unmarshal = (\<lambda>ctx msg. if msg_Payload msg = ''boom'' then Panic ''boom''
                       else if msg_Payload msg = [] then Ret (Inl (ErrNew ''empty''))
                       else Ret (Inr (example_event (msg_UUID msg), ''order.placed'')))\<rparr>"

end
