(* ===== verification/Outbox_Store.thy ===== *)
theory Outbox_Store
  imports Eventbus
begin

text \<open>
  The contract between the relay and a store: core's \<^verbatim>\<open>eventbus.OutboxStore\<close> (Fetch,
  MarkSent, MarkFailed) with the \<^verbatim>\<open>DeadLetterRecorder\<close> extension (Terminate) of
  \<^verbatim>\<open>eventbus/outbox/memory.go\<close>. The relay is verified against this contract once; the
  in-process store and the Postgres store each prove that they meet it.

  A store is seen as a map from row keys to records and a map from row keys to dead
  letters. A record id names a row (\<open>key\<close>); it \<open>owns\<close> the row when a write under that id
  takes effect; \<open>stamp\<close> is the resolution at which the store keeps times. A write may report an error, in which case it has either happened or not.
\<close>

text \<open>\<^verbatim>\<open>DeadLetterRecord\<close>.\<close>

record dead_letter =
  dl_Record :: orec
  dl_Reason :: string
  dl_FailedAt :: time
  dl_Attempts :: int

text \<open>A claim may change the id of a record, never its event, attempts or schedule.\<close>

definition same_delivery :: "orec \<Rightarrow> orec \<Rightarrow> bool" where
  "same_delivery a b \<longleftrightarrow>
     same_event a b \<and> rec_Attempts a = rec_Attempts b \<and> rec_AvailableAt a = rec_AvailableAt b"

lemma same_delivery_refl [simp]: "same_delivery a a"
  by (simp add: same_delivery_def)

lemma same_event_trans: "same_event a b \<Longrightarrow> same_event b c \<Longrightarrow> same_event a c"
  by (simp add: same_event_def)

lemma same_event_sym: "same_event a b \<Longrightarrow> same_event b a"
  by (simp add: same_event_def)

text \<open>The effects a successful write has on the row it owns.\<close>

definition deferred_row :: "orec \<Rightarrow> time \<Rightarrow> orec \<Rightarrow> bool" where
  "deferred_row r t r' \<longleftrightarrow>
     same_event r r' \<and> rec_Attempts r' = rec_Attempts r + 1 \<and> rec_AvailableAt r' = t"

definition dead_row :: "orec \<Rightarrow> string \<Rightarrow> dead_letter \<Rightarrow> bool" where
  "dead_row r reason d \<longleftrightarrow>
     same_event r (dl_Record d) \<and> dl_Reason d = reason \<and> dl_Attempts d = rec_Attempts r + 1"

locale outbox_store =
  fixes fetch :: "gctx \<Rightarrow> int \<Rightarrow> 's \<Rightarrow> (goerr + orec list) \<times> 's"
    and mark_sent :: "gctx \<Rightarrow> string \<Rightarrow> 's \<Rightarrow> goerr option \<times> 's"
    and mark_failed :: "gctx \<Rightarrow> string \<Rightarrow> string \<Rightarrow> time \<Rightarrow> 's \<Rightarrow> goerr option \<times> 's"
    and terminate :: "gctx \<Rightarrow> string \<Rightarrow> string \<Rightarrow> 's \<Rightarrow> goerr option \<times> 's"
    and key :: "string \<Rightarrow> 'k"
    and rows :: "'s \<Rightarrow> 'k \<Rightarrow> orec option"
    and dead :: "'s \<Rightarrow> 'k \<Rightarrow> dead_letter option"
    and owns :: "'s \<Rightarrow> string \<Rightarrow> bool"
    and inv :: "'s \<Rightarrow> bool"
    and stamp :: "time \<Rightarrow> time"
  assumes fetch_frame: "inv s \<Longrightarrow> fetch c n s = (res, s') \<Longrightarrow>
      inv s' \<and> dead s' = dead s \<and> (\<forall>k. rel_option same_delivery (rows s k) (rows s' k))"
    and fetch_owned: "inv s \<Longrightarrow> fetch c n s = (Inr rs, s') \<Longrightarrow>
      distinct (map (key \<circ> rec_ID) rs) \<and>
      (\<forall>r \<in> set rs. owns s' (rec_ID r) \<and> rows s' (key (rec_ID r)) = Some r)"
    and sent_frame: "inv s \<Longrightarrow> mark_sent c i s = (e, s') \<Longrightarrow>
      inv s' \<and> dead s' = dead s \<and> (\<forall>j. key j \<noteq> key i \<longrightarrow> owns s' j = owns s j) \<and>
      (rows s' = rows s \<or> owns s i \<and> rows s' = (rows s)(key i := None))"
    and sent_owned: "inv s \<Longrightarrow> owns s i \<Longrightarrow> mark_sent c i s = (None, s') \<Longrightarrow>
      rows s' = (rows s)(key i := None)"
    and failed_frame: "inv s \<Longrightarrow> mark_failed c i reason t s = (e, s') \<Longrightarrow>
      inv s' \<and> dead s' = dead s \<and> (\<forall>j. key j \<noteq> key i \<longrightarrow> owns s' j = owns s j) \<and>
      (rows s' = rows s \<or>
       owns s i \<and> (\<exists>r r'. rows s (key i) = Some r \<and> deferred_row r (stamp t) r' \<and>
                      rows s' = (rows s)(key i := Some r')))"
    and failed_owned: "inv s \<Longrightarrow> owns s i \<Longrightarrow> mark_failed c i reason t s = (None, s') \<Longrightarrow>
      (\<exists>r r'. rows s (key i) = Some r \<and> deferred_row r (stamp t) r' \<and>
              rows s' = (rows s)(key i := Some r'))"
    and term_frame: "inv s \<Longrightarrow> terminate c i reason s = (e, s') \<Longrightarrow>
      inv s' \<and> (\<forall>j. key j \<noteq> key i \<longrightarrow> owns s' j = owns s j) \<and>
      (rows s' = rows s \<and> dead s' = dead s \<or>
       owns s i \<and> (\<exists>r d. rows s (key i) = Some r \<and> dead_row r reason d \<and>
                      rows s' = (rows s)(key i := None) \<and>
                      dead s' = (dead s)(key i := Some d)))"
    and term_owned: "inv s \<Longrightarrow> owns s i \<Longrightarrow> terminate c i reason s = (None, s') \<Longrightarrow>
      (\<exists>r d. rows s (key i) = Some r \<and> dead_row r reason d \<and>
             rows s' = (rows s)(key i := None) \<and> dead s' = (dead s)(key i := Some d))"

end
