(* ===== verification/Memory_Outbox.thy ===== *)
theory Memory_Outbox
  imports Outbox_Store
begin

text \<open>
  The in-process outbox of \<^verbatim>\<open>eventbus/outbox/memory.go\<close>: the active list, the dead-letter
  map, and the operations Stage, Fetch, MarkSent, MarkFailed, Terminate, DeadLettered and
  Size. Each operation holds the mutex for its whole effect on the store, so an operation
  is one step. The clock and the id generator are the functions the struct holds; such a
  function of no arguments is the sequence of its results with the number of calls made.
\<close>

section \<open>State and construction\<close>

record 'b memory =
  mem_records :: "orec list"
  mem_dlq :: "string \<rightharpoonup> dead_letter"
  mem_codec :: "'b codec"
  mem_now :: "nat \<Rightarrow> time"
  mem_ticks :: nat
  mem_idGen :: "(nat \<Rightarrow> string) option"
  mem_ids :: nat
  mem_maxSize :: int

type_synonym 'b memory_option = "'b memory \<Rightarrow> 'b memory"

definition ErrOutboxFull :: goerr where
  "ErrOutboxFull = ErrNew ''outbox: memory store at WithMaxSize limit''"

definition mem_WithClock :: "(nat \<Rightarrow> time) \<Rightarrow> 'b memory_option" where
  "mem_WithClock now m = m\<lparr>mem_now := now\<rparr>"

definition mem_WithIDGenerator :: "(nat \<Rightarrow> string) option \<Rightarrow> 'b memory_option" where
  "mem_WithIDGenerator gen m = m\<lparr>mem_idGen := gen\<rparr>"

definition mem_WithMaxSize :: "int \<Rightarrow> 'b memory_option" where
  "mem_WithMaxSize limit m = m\<lparr>mem_maxSize := limit\<rparr>"

text \<open>The default generator counts in an \<^verbatim>\<open>atomic.Uint64\<close>, which wraps around.\<close>

definition default_idGen :: "nat \<Rightarrow> string" where
  "default_idGen n = ''mem-outbox-'' @ decimal (unat (of_nat (Suc n) :: 64 word))"

definition NewMemory ::
  "(nat \<Rightarrow> time) \<Rightarrow> 'b codec option \<Rightarrow> 'b memory_option list \<Rightarrow> goerr + 'b memory" where
  "NewMemory time_Now cfg_Codec opts =
     (case cfg_Codec of
        None \<Rightarrow> Inl (ErrNew ''outbox memory: Codec is required'')
      | Some c \<Rightarrow>
          let m = \<lparr>mem_records = [], mem_dlq = Map.empty, mem_codec = c, mem_now = time_Now,
                   mem_ticks = 0, mem_idGen = None, mem_ids = 0, mem_maxSize = 0\<rparr>;
              m' = fold (\<lambda>opt. opt) opts m
          in Inr (case mem_idGen m' of
                    None \<Rightarrow> m'\<lparr>mem_idGen := Some default_idGen\<rparr>
                  | Some _ \<Rightarrow> m'))"

text \<open>Calling \<^verbatim>\<open>m.now\<close> and \<^verbatim>\<open>m.idGen\<close>.\<close>

definition mem_call_now :: "'b memory \<Rightarrow> time \<times> 'b memory" where
  "mem_call_now m = (mem_now m (mem_ticks m), m\<lparr>mem_ticks := Suc (mem_ticks m)\<rparr>)"

definition mem_gen :: "'b memory \<Rightarrow> nat \<Rightarrow> string" where
  "mem_gen m = (case mem_idGen m of Some g \<Rightarrow> g | None \<Rightarrow> default_idGen)"

definition mem_call_idGen :: "'b memory \<Rightarrow> string \<times> 'b memory" where
  "mem_call_idGen m = (mem_gen m (mem_ids m), m\<lparr>mem_ids := Suc (mem_ids m)\<rparr>)"

section \<open>Operations\<close>

record staged =
  st_eventID :: string
  st_eventName :: string
  st_aggregateID :: string
  st_aggregateType :: string
  st_payload :: bytes
  st_headers :: headers

definition mem_stage_one :: "'b codec \<Rightarrow> gctx \<Rightarrow> 'b devent \<Rightarrow> goerr + staged" where
  "mem_stage_one cd ctx ev =
     (case cd_Marshal cd ctx ev of
        Inl err \<Rightarrow> Inl (Errorf (''outbox memory: marshal '' @ ev_EventID ev) [err])
      | Inr msg \<Rightarrow>
          Inr \<lparr>st_eventID = ev_EventID ev, st_eventName = ev_EventName ev,
               st_aggregateID = ev_AggregateID ev, st_aggregateType = ev_AggregateType ev,
               st_payload = msg_Payload msg, st_headers = msg_Metadata msg\<rparr>)"

definition mem_record_of :: "string \<Rightarrow> string \<Rightarrow> time \<Rightarrow> staged \<Rightarrow> orec" where
  "mem_record_of rid topic now p =
     \<lparr>rec_ID = rid, rec_EventID = st_eventID p, rec_Topic = topic,
      rec_EventName = st_eventName p, rec_AggregateID = st_aggregateID p,
      rec_AggregateType = st_aggregateType p, rec_Payload = st_payload p,
      rec_Headers = st_headers p, rec_CreatedAt = now, rec_AvailableAt = now,
      rec_Attempts = 0\<rparr>"

fun mem_append_staged :: "string \<Rightarrow> time \<Rightarrow> staged list \<Rightarrow> 'b memory \<Rightarrow> 'b memory" where
  "mem_append_staged topic now [] m = m"
| "mem_append_staged topic now (p # ps) m =
     (let (rid, m') = mem_call_idGen m
      in mem_append_staged topic now ps
           (m'\<lparr>mem_records := mem_records m' @ [mem_record_of rid topic now p]\<rparr>))"

definition mem_Stage ::
  "gctx \<Rightarrow> string \<Rightarrow> 'b devent list \<Rightarrow> 'b memory \<Rightarrow> goerr option \<times> 'b memory" where
  "mem_Stage ctx topic events m =
     (if events = [] then (None, m)
      else
        let (now, m1) = mem_call_now m
        in case map_result (mem_stage_one (mem_codec m1) ctx) events of
             Inl err \<Rightarrow> (Some err, m1)
           | Inr pending \<Rightarrow>
               if mem_maxSize m1 > 0 \<and>
                  int (length (mem_records m1)) + int (length pending) > mem_maxSize m1
               then (Some ErrOutboxFull, m1)
               else (None, mem_append_staged topic now pending m1))"

text \<open>
  \<^verbatim>\<open>cloneRecord\<close> copies the payload bytes and the header entries into fresh storage. On
  values a copy is the value itself; the entries are re-inserted one by one.
\<close>

definition cloneRecord :: "orec \<Rightarrow> orec" where
  "cloneRecord rec =
     rec\<lparr>rec_Payload := map (\<lambda>b. b) (rec_Payload rec),
         rec_Headers := (\<lambda>k. case rec_Headers rec k of Some v \<Rightarrow> Some v | None \<Rightarrow> None)\<rparr>"

text \<open>The comparator of \<^verbatim>\<open>sort.SliceStable\<close>: by AvailableAt, ties by ID.\<close>

definition due_key :: "orec \<Rightarrow> time \<times> string" where
  "due_key r = (rec_AvailableAt r, rec_ID r)"

definition mem_due :: "time \<Rightarrow> orec list \<Rightarrow> orec list" where
  "mem_due now rs = filter (\<lambda>r. \<not> rec_AvailableAt r > now) rs"

definition mem_Fetch ::
  "gctx \<Rightarrow> int \<Rightarrow> 'b memory \<Rightarrow> (goerr + orec list) \<times> 'b memory" where
  "mem_Fetch ctx limit m =
     (if limit \<le> 0 then (Inr [], m)
      else
        let (now, m1) = mem_call_now m;
            due = sort_key due_key (mem_due now (mem_records m1));
            due' = (if int (length due) > limit then take (nat limit) due else due)
        in (Inr (map cloneRecord due'), m1))"

definition mem_MarkSent ::
  "gctx \<Rightarrow> string \<Rightarrow> 'b memory \<Rightarrow> goerr option \<times> 'b memory" where
  "mem_MarkSent ctx rid m =
     (None, m\<lparr>mem_records := remove_first (\<lambda>r. rec_ID r = rid) (mem_records m)\<rparr>)"

definition mem_MarkFailed ::
  "gctx \<Rightarrow> string \<Rightarrow> string \<Rightarrow> time \<Rightarrow> 'b memory \<Rightarrow> goerr option \<times> 'b memory" where
  "mem_MarkFailed ctx rid reason nextAttemptAt m =
     (None, m\<lparr>mem_records :=
        update_first (\<lambda>r. rec_ID r = rid)
          (\<lambda>r. r\<lparr>rec_Attempts := rec_Attempts r + 1, rec_AvailableAt := nextAttemptAt\<rparr>)
          (mem_records m)\<rparr>)"

definition mem_Terminate ::
  "gctx \<Rightarrow> string \<Rightarrow> string \<Rightarrow> 'b memory \<Rightarrow> goerr option \<times> 'b memory" where
  "mem_Terminate ctx rid reason m =
     (case find (\<lambda>r. rec_ID r = rid) (mem_records m) of
        None \<Rightarrow> (None, m)
      | Some rec \<Rightarrow>
          let m1 = m\<lparr>mem_records := remove_first (\<lambda>r. rec_ID r = rid) (mem_records m)\<rparr>;
              (now, m2) = mem_call_now m1
          in (None, m2\<lparr>mem_dlq := (mem_dlq m2)(rid \<mapsto>
                \<lparr>dl_Record = cloneRecord rec, dl_Reason = reason, dl_FailedAt = now,
                 dl_Attempts = rec_Attempts rec + 1\<rparr>)\<rparr>))"

definition mem_DeadLettered :: "'b memory \<Rightarrow> (string \<rightharpoonup> dead_letter)" where
  "mem_DeadLettered m =
     (\<lambda>k. case mem_dlq m k of
            None \<Rightarrow> None
          | Some v \<Rightarrow> Some \<lparr>dl_Record = cloneRecord (dl_Record v), dl_Reason = dl_Reason v,
                           dl_FailedAt = dl_FailedAt v, dl_Attempts = dl_Attempts v\<rparr>)"

definition mem_Size :: "'b memory \<Rightarrow> nat" where
  "mem_Size m = length (mem_records m)"

lemma cloneRecord_id [simp]: "cloneRecord r = r"
proof -
  have "(\<lambda>k. case rec_Headers r k of Some v \<Rightarrow> Some v | None \<Rightarrow> None) = rec_Headers r"
    by (rule ext) (simp split: option.split)
  then show ?thesis by (simp add: cloneRecord_def)
qed

lemma map_cloneRecord [simp]: "map cloneRecord rs = rs"
  by (simp add: map_idI)

lemmas mem_op_defs [store_defs] =
  mem_Stage_def mem_Fetch_def mem_MarkSent_def mem_MarkFailed_def mem_Terminate_def
  mem_call_now_def Let_def

section \<open>Stage\<close>

text \<open>What the append loop leaves behind, in closed form.\<close>

lemma mem_append_staged_spec:
  "mem_append_staged topic now ps m =
     m\<lparr>mem_records := mem_records m @
          map2 (\<lambda>i p. mem_record_of (mem_gen m i) topic now p)
            [mem_ids m ..< mem_ids m + length ps] ps,
       mem_ids := mem_ids m + length ps\<rparr>"
proof (induction ps arbitrary: m)
  case Nil
  then show ?case by simp
next
  case (Cons p ps)
  have gen: "mem_gen (m\<lparr>mem_ids := i, mem_records := rs\<rparr>) = mem_gen m" for i rs
    by (simp add: mem_gen_def)
  show ?case
    by (simp add: mem_call_idGen_def gen Cons.IH upt_conv_Cons del: upt_Suc)
qed


lemma mem_stage_one_Inr:
  "mem_stage_one cd ctx ev = Inr p \<longleftrightarrow>
     (\<exists>msg. cd_Marshal cd ctx ev = Inr msg \<and>
        p = \<lparr>st_eventID = ev_EventID ev, st_eventName = ev_EventName ev,
             st_aggregateID = ev_AggregateID ev, st_aggregateType = ev_AggregateType ev,
             st_payload = msg_Payload msg, st_headers = msg_Metadata msg\<rparr>)"
  by (auto simp: mem_stage_one_def split: sum.splits)

lemma mem_stage_one_Inl_iff:
  "(\<exists>e. mem_stage_one cd ctx ev = Inl e) \<longleftrightarrow> (\<exists>e. cd_Marshal cd ctx ev = Inl e)"
  by (auto simp: mem_stage_one_def split: sum.splits)

text \<open>The record Stage stores for an event, from the event's own accessors.\<close>

definition staged_record :: "string \<Rightarrow> string \<Rightarrow> time \<Rightarrow> 'b devent \<Rightarrow> wm_msg \<Rightarrow> orec" where
  "staged_record rid topic now ev msg =
     \<lparr>rec_ID = rid, rec_EventID = ev_EventID ev, rec_Topic = topic,
      rec_EventName = ev_EventName ev, rec_AggregateID = ev_AggregateID ev,
      rec_AggregateType = ev_AggregateType ev, rec_Payload = msg_Payload msg,
      rec_Headers = msg_Metadata msg, rec_CreatedAt = now, rec_AvailableAt = now,
      rec_Attempts = 0\<rparr>"

lemma mem_Stage_cases:
  assumes "mem_Stage ctx topic events m = (res, m')"
  obtains (empty) "events = []" "res = None" "m' = m"
    | (marshal) err where "events \<noteq> []" "res = Some err"
        "map_result (mem_stage_one (mem_codec m) ctx) events = Inl err"
        "m' = m\<lparr>mem_ticks := Suc (mem_ticks m)\<rparr>"
    | (full) pending where "events \<noteq> []" "res = Some ErrOutboxFull"
        "map_result (mem_stage_one (mem_codec m) ctx) events = Inr pending"
        "mem_maxSize m > 0"
        "int (length (mem_records m)) + int (length events) > mem_maxSize m"
        "m' = m\<lparr>mem_ticks := Suc (mem_ticks m)\<rparr>"
    | (ok) pending where "events \<noteq> []" "res = None"
        "map_result (mem_stage_one (mem_codec m) ctx) events = Inr pending"
        "mem_maxSize m \<le> 0 \<or>
         int (length (mem_records m)) + int (length events) \<le> mem_maxSize m"
        "m' = m\<lparr>mem_ticks := Suc (mem_ticks m), mem_ids := mem_ids m + length events,
               mem_records := mem_records m @
                 map2 (\<lambda>i p. mem_record_of (mem_gen m i) topic (mem_now m (mem_ticks m)) p)
                   [mem_ids m ..< mem_ids m + length events] pending\<rparr>"
proof (cases "events = []")
  case True
  with assms show ?thesis by (intro empty) (auto simp: mem_Stage_def)
next
  case False
  have gen: "mem_gen (m\<lparr>mem_ticks := t\<rparr>) = mem_gen m" for t by (simp add: mem_gen_def)
  show ?thesis
  proof (cases "map_result (mem_stage_one (mem_codec m) ctx) events")
    case (Inl err)
    with False assms show ?thesis by (intro marshal) (auto simp: mem_Stage_def mem_call_now_def)
  next
    case (Inr pending)
    then have len: "length pending = length events" by (rule map_result_Inr_length)
    show ?thesis
    proof (cases "mem_maxSize m > 0 \<and>
        int (length (mem_records m)) + int (length pending) > mem_maxSize m")
      case True
      with False Inr len assms show ?thesis
        by (intro full) (auto simp: mem_Stage_def mem_call_now_def)
    next
      case notfull: False
      with \<open>events \<noteq> []\<close> Inr len assms show ?thesis
        by (intro ok) (auto simp: mem_Stage_def mem_call_now_def mem_append_staged_spec gen
              simp del: upt_Suc)
    qed
  qed
qed

text \<open>
  Stage is all-or-nothing. It fails exactly when some event does not marshal or the
  batch would pass the size limit, and then the active list is as before; otherwise it
  appends one record per event, in order, whose canonical columns come from the event
  itself, which is due at once and has no attempts.
\<close>

lemma mem_Stage_all_or_nothing:
  assumes "mem_Stage ctx topic events m = (res, m')"
  shows "(res = None \<longleftrightarrow>
           (\<forall>ev \<in> set events. \<exists>msg. cd_Marshal (mem_codec m) ctx ev = Inr msg) \<and>
           (events = [] \<or> mem_maxSize m \<le> 0 \<or>
            int (length (mem_records m)) + int (length events) \<le> mem_maxSize m)) \<and>
         (res \<noteq> None \<longrightarrow> mem_records m' = mem_records m) \<and>
         (res = None \<longrightarrow>
           (\<exists>new. mem_records m' = mem_records m @ new \<and> length new = length events \<and>
              (\<forall>i < length events. \<exists>msg. cd_Marshal (mem_codec m) ctx (events ! i) = Inr msg \<and>
                 new ! i = staged_record (mem_gen m (mem_ids m + i)) topic
                             (mem_now m (mem_ticks m)) (events ! i) msg))) \<and>
         mem_dlq m' = mem_dlq m"
  using assms
proof (cases rule: mem_Stage_cases)
  case empty
  then show ?thesis by simp
next
  case (marshal err)
  have "\<exists>ev \<in> set events. \<exists>e. cd_Marshal (mem_codec m) ctx ev = Inl e"
    using map_result_Inl_iff [of "mem_stage_one (mem_codec m) ctx" events] marshal(3)
      mem_stage_one_Inl_iff by blast
  with marshal show ?thesis by force
next
  case (full pending)
  then show ?thesis by auto
next
  case (ok pending)
  note len = map_result_Inr_length [OF ok(3)]
  have each: "\<exists>msg. cd_Marshal (mem_codec m) ctx (events ! i) = Inr msg \<and>
      mem_record_of (mem_gen m (mem_ids m + i)) topic (mem_now m (mem_ticks m)) (pending ! i)
        = staged_record (mem_gen m (mem_ids m + i)) topic (mem_now m (mem_ticks m)) (events ! i) msg"
    if "i < length events" for i
    using map_result_Inr_nth [OF ok(3) that]
    by (auto simp: mem_stage_one_Inr mem_record_of_def staged_record_def)
  have all: "\<forall>ev \<in> set events. \<exists>msg. cd_Marshal (mem_codec m) ctx ev = Inr msg"
    using each by (metis in_set_conv_nth)
  show ?thesis
    using ok all each len by (auto simp del: upt_Suc)
qed


text \<open>A store with room for three records, the clock counting up from 100.\<close>

definition example_memory :: "unit memory" where
  "example_memory =
     \<lparr>mem_records = [], mem_dlq = Map.empty, mem_codec = example_codec,
      mem_now = (\<lambda>n. 100 + int n), mem_ticks = 0, mem_idGen = Some default_idGen,
      mem_ids = 0, mem_maxSize = 3\<rparr>"

section \<open>Fetch\<close>

lemma mem_Fetch_records [simp]: "mem_records (snd (mem_Fetch ctx limit m)) = mem_records m"
  by (simp add: mem_Fetch_def mem_call_now_def Let_def)

lemma mem_Fetch_eq:
  "0 < limit \<Longrightarrow> mem_Fetch ctx limit m =
     (Inr (take (nat limit) (sort_key due_key (mem_due (mem_now m (mem_ticks m)) (mem_records m)))),
      m\<lparr>mem_ticks := Suc (mem_ticks m)\<rparr>)"
  by (auto simp: mem_Fetch_def mem_call_now_def Let_def)

lemma mem_Fetch_nonpos: "\<not> 0 < limit \<Longrightarrow> mem_Fetch ctx limit m = (Inr [], m)"
  by (simp add: mem_Fetch_def)

text \<open>
  Fetch with a positive limit returns the due records that come first in the order
  (AvailableAt, ID), as many as the limit allows: the result is sorted, is part of the due
  records, and every due record left out comes after all that are returned. The store is
  unchanged.
\<close>

lemma mem_Fetch_earliest_due:
  assumes "0 < limit" and "mem_Fetch ctx limit m = (res, m')"
  shows "\<exists>out. res = Inr out \<and>
           (let due = mem_due (mem_now m (mem_ticks m)) (mem_records m) in
              length out = min (nat limit) (length due) \<and>
              sorted (map due_key out) \<and>
              mset out \<subseteq># mset due \<and>
              (\<forall>r \<in># mset due - mset out. \<forall>x \<in> set out. due_key x \<le> due_key r)) \<and>
           mem_records m' = mem_records m \<and> mem_dlq m' = mem_dlq m"
proof -
  define due where "due = mem_due (mem_now m (mem_ticks m)) (mem_records m)"
  define srt where "srt = sort_key due_key due"
  define out where "out = take (nat limit) srt"
  have res: "res = Inr out" and m': "m' = m\<lparr>mem_ticks := Suc (mem_ticks m)\<rparr>"
    using assms by (auto simp: mem_Fetch_eq out_def srt_def due_def)
  have split: "srt = out @ drop (nat limit) srt" by (simp add: out_def)
  have "mset due = mset srt" by (simp add: srt_def)
  then have parts: "mset due = mset out + mset (drop (nat limit) srt)"
    by (metis mset_append split)
  have sorted: "sorted (map due_key srt)" by (simp add: srt_def)
  then have so: "sorted (map due_key out)"
    and late: "\<forall>x \<in> set out. \<forall>r \<in> set (drop (nat limit) srt). due_key x \<le> due_key r"
    by (subst (asm) split, simp add: sorted_append)+
  have len: "length out = min (nat limit) (length due)"
    by (simp add: out_def srt_def min.commute)
  have "mset due - mset out = mset (drop (nat limit) srt)" by (simp add: parts)
  with parts so late len res m' show ?thesis
    by (auto simp: due_def Let_def)
qed

lemma mem_Fetch_in_records:
  "mem_Fetch ctx limit m = (Inr out, m') \<Longrightarrow> set out \<subseteq> set (mem_records m)"
  by (cases "0 < limit") (auto simp: mem_Fetch_eq mem_Fetch_nonpos mem_due_def dest: in_set_takeD)

lemma mem_Fetch_distinct:
  assumes "distinct (map rec_ID (mem_records m))" and "mem_Fetch ctx limit m = (Inr out, m')"
  shows "distinct (map rec_ID out)"
proof (cases "0 < limit")
  case True
  have "distinct (map rec_ID (mem_due t (mem_records m)))" for t
    using assms(1) by (simp add: mem_due_def distinct_map_filter)
  then have "distinct (map rec_ID (sort_key due_key (mem_due t (mem_records m))))" for t
    by (metis mset_map mset_sort mset_eq_imp_distinct_iff)
  then show ?thesis
    using assms(2) True by (auto simp: mem_Fetch_eq simp flip: take_map)
next
  case False
  with assms(2) show ?thesis by (auto simp: mem_Fetch_def)
qed


definition example_backlog :: "unit memory" where
  "example_backlog = snd (mem_Stage background ''t''
     [example_event ''a'', example_event ''b'', example_event ''c''] example_memory)"

lemma example_backlog_records:
  "mem_records example_backlog =
     [staged_record ''mem-outbox-1'' ''t'' 100 (example_event ''a'') (new_message ''a'' ''a''),
      staged_record ''mem-outbox-2'' ''t'' 100 (example_event ''b'') (new_message ''b'' ''b''),
      staged_record ''mem-outbox-3'' ''t'' 100 (example_event ''c'') (new_message ''c'' ''c'')]"
  by (simp add: example_backlog_def example_memory_def mem_Stage_def mem_call_now_def
        mem_stage_one_def example_codec_def example_event_def mem_call_idGen_def mem_gen_def
        default_idGen_def mem_record_of_def staged_record_def decimal.simps)

section \<open>The invariant and its preservation\<close>

text \<open>
  Ids are unique, were all produced by the generator, and name either an active record or a
  dead letter but not both; the active list respects the limit; a dead letter is filed
  under its record's id and counts the attempt that killed it.
\<close>

definition mem_ids_used :: "'b memory \<Rightarrow> string set" where
  "mem_ids_used m = mem_gen m ` {..< mem_ids m}"

definition mem_inv :: "'b memory \<Rightarrow> bool" where
  "mem_inv m \<longleftrightarrow>
     distinct (map rec_ID (mem_records m)) \<and>
     (mem_maxSize m > 0 \<longrightarrow> int (length (mem_records m)) \<le> mem_maxSize m) \<and>
     rec_ID ` set (mem_records m) \<subseteq> mem_ids_used m \<and>
     dom (mem_dlq m) \<subseteq> mem_ids_used m \<and>
     rec_ID ` set (mem_records m) \<inter> dom (mem_dlq m) = {} \<and>
     (\<forall>k d. mem_dlq m k = Some d \<longrightarrow>
        rec_ID (dl_Record d) = k \<and> dl_Attempts d = rec_Attempts (dl_Record d) + 1)"

lemma mem_ids_used_simps [simp]:
  "mem_ids_used (m\<lparr>mem_records := rs\<rparr>) = mem_ids_used m"
  "mem_ids_used (m\<lparr>mem_ticks := t\<rparr>) = mem_ids_used m"
  "mem_ids_used (m\<lparr>mem_dlq := d\<rparr>) = mem_ids_used m"
  by (simp_all add: mem_ids_used_def mem_gen_def)

lemma mem_inv_ticks [simp]: "mem_inv (m\<lparr>mem_ticks := t\<rparr>) = mem_inv m"
  by (simp add: mem_inv_def)

lemma mem_inv_Fetch: "mem_inv m \<Longrightarrow> mem_inv (snd (mem_Fetch ctx limit m))"
  by (cases "0 < limit") (simp_all add: mem_Fetch_eq mem_Fetch_nonpos)

lemma mem_inv_MarkSent: "mem_inv m \<Longrightarrow> mem_inv (snd (mem_MarkSent ctx rid m))"
proof -
  assume inv: "mem_inv m"
  let ?rs = "remove_first (\<lambda>r. rec_ID r = rid) (mem_records m)"
  have "set ?rs \<subseteq> set (mem_records m)" by (rule set_remove_first)
  moreover have "int (length ?rs) \<le> int (length (mem_records m))"
    by (simp add: length_remove_first)
  ultimately show ?thesis
    using inv distinct_map_remove_first
    by (fastforce simp: mem_inv_def mem_MarkSent_def)
qed

lemma set_map_ID_update_first:
  "rec_ID ` set (update_first p (\<lambda>r. r\<lparr>rec_Attempts := a r, rec_AvailableAt := t\<rparr>) rs)
     = rec_ID ` set rs"
  by (metis (no_types, lifting) map_update_first list.set_map orec.select_convs(1)
      orec.surjective orec.update_convs(10) orec.update_convs(11))

lemma mem_inv_MarkFailed: "mem_inv m \<Longrightarrow> mem_inv (snd (mem_MarkFailed ctx rid reason t m))"
  by (simp add: mem_inv_def mem_MarkFailed_def map_update_first set_map_ID_update_first)

lemma remove_first_key_distinct:
  "distinct (map k xs) \<Longrightarrow> find (\<lambda>x. k x = i) xs = Some x \<Longrightarrow>
     k ` set (remove_first (\<lambda>x. k x = i) xs) = k ` set xs - {i}"
  by (induction xs) (auto split: if_splits)

lemma mem_Terminate_Some:
  assumes "find (\<lambda>r. rec_ID r = rid) (mem_records m) = Some rec"
  shows "mem_Terminate ctx rid reason m =
    (None, m\<lparr>mem_records := remove_first (\<lambda>r. rec_ID r = rid) (mem_records m),
             mem_ticks := Suc (mem_ticks m),
             mem_dlq := (mem_dlq m)(rid \<mapsto>
               \<lparr>dl_Record = rec, dl_Reason = reason, dl_FailedAt = mem_now m (mem_ticks m),
                dl_Attempts = rec_Attempts rec + 1\<rparr>)\<rparr>)"
  using assms by (simp add: mem_Terminate_def mem_call_now_def)

lemma mem_Terminate_None:
  "find (\<lambda>r. rec_ID r = rid) (mem_records m) = None \<Longrightarrow> mem_Terminate ctx rid reason m = (None, m)"
  by (simp add: mem_Terminate_def)

lemma mem_inv_Terminate:
  assumes inv: "mem_inv m"
  shows "mem_inv (snd (mem_Terminate ctx rid reason m))"
proof (cases "find (\<lambda>r. rec_ID r = rid) (mem_records m)")
  case None
  then show ?thesis using inv by (simp add: mem_Terminate_None)
next
  case (Some rec)
  let ?rs = "remove_first (\<lambda>r. rec_ID r = rid) (mem_records m)"
  have rec: "rec \<in> set (mem_records m)" "rec_ID rec = rid"
    using find_Some_in [OF Some] by auto
  have ids: "rec_ID ` set ?rs = rec_ID ` set (mem_records m) - {rid}"
    using inv Some by (intro remove_first_key_distinct) (auto simp: mem_inv_def)
  have len: "mem_maxSize m > 0 \<longrightarrow> int (length ?rs) \<le> mem_maxSize m"
    using inv length_remove_first [of "\<lambda>r. rec_ID r = rid" "mem_records m"]
    by (auto simp: mem_inv_def)
  have used: "rid \<in> mem_ids_used m" using inv rec by (auto simp: mem_inv_def)
  have dist: "distinct (map rec_ID ?rs)"
    using inv by (simp add: mem_inv_def distinct_map_remove_first)
  have "mem_inv (m\<lparr>mem_records := ?rs, mem_dlq := (mem_dlq m)(rid \<mapsto>
      \<lparr>dl_Record = rec, dl_Reason = reason, dl_FailedAt = t, dl_Attempts = rec_Attempts rec + 1\<rparr>)\<rparr>)"
    for t
    using inv ids len used dist rec(2) unfolding mem_inv_def by auto
  from this [of "mem_now m (mem_ticks m)"] show ?thesis
    unfolding mem_Terminate_Some [OF Some] by (simp add: mem_inv_def)
qed


lemma mem_inv_append:
  assumes "mem_inv m" and "mem_records m' = mem_records m @ new" and "mem_dlq m' = mem_dlq m"
    and "distinct (map rec_ID new)" and "rec_ID ` set new \<inter> mem_ids_used m = {}"
    and "mem_ids_used m' = mem_ids_used m \<union> rec_ID ` set new"
    and "mem_maxSize m' > 0 \<longrightarrow> int (length (mem_records m @ new)) \<le> mem_maxSize m'"
  shows "mem_inv m'"
proof -
  have inv: "distinct (map rec_ID (mem_records m))" "rec_ID ` set (mem_records m) \<subseteq> mem_ids_used m"
    "dom (mem_dlq m) \<subseteq> mem_ids_used m" "rec_ID ` set (mem_records m) \<inter> dom (mem_dlq m) = {}"
    "\<forall>k d. mem_dlq m k = Some d \<longrightarrow>
       rec_ID (dl_Record d) = k \<and> dl_Attempts d = rec_Attempts (dl_Record d) + 1"
    using assms(1) unfolding mem_inv_def by blast+
  have d1: "rec_ID ` set new \<inter> dom (mem_dlq m) = {}" using inv(3) assms(5) by blast
  have d2: "rec_ID ` set new \<inter> rec_ID ` set (mem_records m) = {}" using inv(2) assms(5) by blast
  have "distinct (map rec_ID (mem_records m @ new))" using inv(1) assms(4) d2 by auto
  moreover have "rec_ID ` set (mem_records m @ new) \<subseteq> mem_ids_used m'"
    using inv(2) assms(6) by auto
  moreover have "rec_ID ` set (mem_records m @ new) \<inter> dom (mem_dlq m') = {}"
    using inv(4) d1 assms(3) by (simp add: image_Un Int_Un_distrib2)
  moreover have "dom (mem_dlq m') \<subseteq> mem_ids_used m'" using inv(3) assms(3,6) by auto
  ultimately show ?thesis unfolding mem_inv_def using inv(5) assms(2,3,7) by simp
qed

lemma mem_inv_Stage:
  assumes inv: "mem_inv m" and st: "mem_Stage ctx topic events m = (res, m')"
    and inj: "inj_on (mem_gen m) {..< mem_ids m'}"
  shows "mem_inv m'"
  using st
proof (cases rule: mem_Stage_cases)
  case (ok pending)
  define n where "n = length events"
  define new where "new = map2 (\<lambda>i p. mem_record_of (mem_gen m i) topic (mem_now m (mem_ticks m)) p)
                [mem_ids m ..< mem_ids m + n] pending"
  have len: "length pending = n" using map_result_Inr_length [OF ok(3)] by (simp add: n_def)
  have m': "mem_records m' = mem_records m @ new" "mem_dlq m' = mem_dlq m"
    "mem_maxSize m' = mem_maxSize m" "mem_ids m' = mem_ids m + n" "mem_gen m' = mem_gen m"
    by (simp_all add: ok(5) new_def n_def mem_gen_def del: upt_Suc)
  have newids: "map rec_ID new = map (mem_gen m) [mem_ids m ..< mem_ids m + n]"
    unfolding new_def
    by (rule nth_equalityI) (simp_all add: len mem_record_of_def del: upt_Suc)
  then have setnew: "rec_ID ` set new = mem_gen m ` {mem_ids m ..< mem_ids m + n}"
    by (metis list.set_map set_upt)
  have inj': "inj_on (mem_gen m) {..< mem_ids m + n}" using inj m' by simp
  show ?thesis
  proof (rule mem_inv_append [OF inv m'(1,2)])
    show "distinct (map rec_ID new)"
      unfolding newids distinct_map using inj' by (auto intro: inj_on_subset)
    show "rec_ID ` set new \<inter> mem_ids_used m = {}"
      unfolding mem_ids_used_def setnew
      by (subst inj_on_image_Int [OF inj', symmetric]) auto
    have "{..< mem_ids m + n} = {..< mem_ids m} \<union> {mem_ids m ..< mem_ids m + n}" by auto
    then show "mem_ids_used m' = mem_ids_used m \<union> rec_ID ` set new"
      by (simp add: mem_ids_used_def image_Un setnew m')
    have "length new = n" by (simp add: new_def len)
    then show "mem_maxSize m' > 0 \<longrightarrow> int (length (mem_records m @ new)) \<le> mem_maxSize m'"
      using ok(4) by (auto simp: m' n_def)
  qed
qed (use inv in simp_all)

text \<open>The options the package offers, and the steps any client can make a store take.\<close>

definition mem_option :: "'b memory_option \<Rightarrow> bool" where
  "mem_option opt \<longleftrightarrow>
     (\<exists>now. opt = mem_WithClock now) \<or> (\<exists>gen. opt = mem_WithIDGenerator gen) \<or>
     (\<exists>n. opt = mem_WithMaxSize n)"

inductive mem_step :: "'b memory \<Rightarrow> 'b memory \<Rightarrow> bool" where
  step_stage: "mem_Stage ctx topic events m = (res, m') \<Longrightarrow> mem_step m m'"
| step_fetch: "mem_Fetch ctx limit m = (recs, m') \<Longrightarrow> mem_step m m'"
| step_sent: "mem_MarkSent ctx rid m = (res, m') \<Longrightarrow> mem_step m m'"
| step_failed: "mem_MarkFailed ctx rid reason t m = (res, m') \<Longrightarrow> mem_step m m'"
| step_terminate: "mem_Terminate ctx rid reason m = (res, m') \<Longrightarrow> mem_step m m'"

lemma NewMemory_initial:
  assumes "NewMemory now (Some cd) opts = Inr m" and "\<forall>opt \<in> set opts. mem_option opt"
  shows "mem_records m = [] \<and> mem_dlq m = Map.empty \<and> mem_ids m = 0 \<and> mem_codec m = cd"
proof -
  have opts: "mem_records (fold (\<lambda>opt. opt) opts m1) = mem_records m1 \<and>
      mem_dlq (fold (\<lambda>opt. opt) opts m1) = mem_dlq m1 \<and>
      mem_ids (fold (\<lambda>opt. opt) opts m1) = mem_ids m1 \<and>
      mem_codec (fold (\<lambda>opt. opt) opts m1) = mem_codec m1" for m1
    using assms(2)
    by (induction opts arbitrary: m1)
       (auto simp: mem_option_def mem_WithClock_def mem_WithIDGenerator_def mem_WithMaxSize_def)
  show ?thesis
    using assms(1) opts by (auto simp: NewMemory_def Let_def split: option.splits)
qed

lemma mem_step_gen: "mem_step m m' \<Longrightarrow> mem_gen m' = mem_gen m \<and> mem_ids m \<le> mem_ids m'"
proof (induction rule: mem_step.induct)
  case (step_stage ctx topic events m res m')
  then show ?case by (cases rule: mem_Stage_cases) (auto simp: mem_gen_def)
next
  case (step_fetch ctx limit m recs m')
  then show ?case by (cases "0 < limit") (auto simp: mem_Fetch_eq mem_Fetch_nonpos mem_gen_def)
next
  case (step_terminate ctx rid reason m res m')
  then show ?case
    by (auto simp: mem_Terminate_def mem_call_now_def mem_gen_def split: option.splits)
qed (auto simp: mem_MarkSent_def mem_MarkFailed_def mem_gen_def)

lemma mem_step_inv:
  assumes "mem_step m m'" and "mem_inv m" and "inj_on (mem_gen m) {..< mem_ids m'}"
  shows "mem_inv m'"
  using assms
proof (induction rule: mem_step.induct)
  case (step_stage ctx topic events m res m')
  then show ?case by (blast intro: mem_inv_Stage)
qed (metis snd_conv mem_inv_Fetch mem_inv_MarkSent mem_inv_MarkFailed mem_inv_Terminate)+

lemma mem_steps_inv:
  assumes "mem_step\<^sup>*\<^sup>* m0 m" and "mem_inv m0" and "inj_on (mem_gen m0) {..< mem_ids m}"
  shows "mem_inv m \<and> mem_gen m = mem_gen m0"
  using assms
proof (induction rule: rtranclp_induct)
  case base
  then show ?case by simp
next
  case (step m m')
  have le: "mem_gen m' = mem_gen m" "mem_ids m \<le> mem_ids m'"
    using mem_step_gen [OF step.hyps(2)] by auto
  have "inj_on (mem_gen m0) {..< mem_ids m}"
    using step.prems(2) le by (auto intro: inj_on_subset)
  with step show ?case using le mem_step_inv [OF step.hyps(2)] by auto
qed

lemma unat_of_nat_Suc_inj:
  assumes "i < 2 ^ 64" "j < 2 ^ 64"
    and "unat (of_nat (Suc i) :: 64 word) = unat (of_nat (Suc j) :: 64 word)"
  shows "i = j"
proof -
  have eq: "Suc i mod 2 ^ 64 = Suc j mod 2 ^ 64" using assms(3) unfolding unat_of_nat by simp
  have "Suc n mod 2 ^ 64 = (if Suc n = 2 ^ 64 then 0 else Suc n)" if "n < 2 ^ 64" for n :: nat
    using that by auto
  with eq assms(1,2) show ?thesis by (auto split: if_splits)
qed

lemma default_idGen_inj: "n \<le> 2 ^ 64 \<Longrightarrow> inj_on default_idGen {..< n}"
  by (rule inj_onI) (auto simp: default_idGen_def intro: unat_of_nat_Suc_inj)

text \<open>
  C27: Whatever sequence of Stage, Fetch, MarkSent, MarkFailed and Terminate calls a client
  makes on a store from NewMemory, as long as the id generator has not repeated itself: ids
  stay unique, no id is both active and dead-lettered, the configured limit is never
  exceeded, and every dead letter is filed under its own id with the failed attempt counted.
\<close>

theorem mem_reachable_inv:
  assumes "NewMemory now (Some cd) opts = Inr m0" and "\<forall>opt \<in> set opts. mem_option opt"
    and "mem_step\<^sup>*\<^sup>* m0 m" and "inj_on (mem_gen m0) {..< mem_ids m}"
  shows "mem_inv m"
proof -
  have "mem_inv m0"
    using NewMemory_initial [OF assms(1,2)] by (simp add: mem_inv_def)
  with assms(3,4) show ?thesis using mem_steps_inv by blast
qed

theorem mem_reachable_inv_witness:
  "mem_inv example_backlog \<and> length (mem_records example_backlog) = 3"
proof -
  let ?now = "\<lambda>n. 100 + int n"
  have new: "NewMemory ?now (Some example_codec) [mem_WithMaxSize 3] = Inr example_memory"
    by (simp add: NewMemory_def mem_WithMaxSize_def example_memory_def)
  have opts: "\<forall>opt \<in> set [mem_WithMaxSize 3 :: unit memory_option]. mem_option opt"
    by (auto simp: mem_option_def)
  have "mem_step example_memory example_backlog"
    unfolding example_backlog_def by (rule mem_step.step_stage) (rule prod.collapse [symmetric])
  then have steps: "mem_step\<^sup>*\<^sup>* example_memory example_backlog" by simp
  have "mem_ids example_backlog = 3"
    by (simp add: example_backlog_def example_memory_def mem_Stage_def mem_call_now_def
        mem_stage_one_def example_codec_def example_event_def mem_append_staged_spec)
  then have inj: "inj_on (mem_gen example_memory) {..< mem_ids example_backlog}"
    using default_idGen_inj [of 3] by (simp add: mem_gen_def example_memory_def)
  show ?thesis
    using mem_reachable_inv [OF new opts steps inj] by (simp add: example_backlog_records)
qed


section \<open>The store contract\<close>

text \<open>
  The in-process store meets the contract of the relay: a record id is the key of its row,
  and it owns the row as long as the record is active.
\<close>

definition mem_row :: "'b memory \<Rightarrow> string \<Rightarrow> orec option" where
  "mem_row m i = find (\<lambda>r. rec_ID r = i) (mem_records m)"

definition mem_owns :: "'b memory \<Rightarrow> string \<Rightarrow> bool" where
  "mem_owns m i \<longleftrightarrow> mem_row m i \<noteq> None"

definition mem_uniq :: "'b memory \<Rightarrow> bool" where
  "mem_uniq m \<longleftrightarrow> distinct (map rec_ID (mem_records m))"

lemma mem_inv_uniq: "mem_inv m \<Longrightarrow> mem_uniq m"
  by (simp add: mem_inv_def mem_uniq_def)

lemma find_remove_first:
  "distinct (map k xs) \<Longrightarrow>
     find (\<lambda>x. k x = j) (remove_first (\<lambda>x. k x = i) xs)
       = (if j = i then None else find (\<lambda>x. k x = j) xs)"
  by (induction xs) (auto simp: find_None_iff image_iff)

lemma find_update_first:
  "(\<And>x. k (f x) = k x) \<Longrightarrow>
     find (\<lambda>x. k x = j) (update_first (\<lambda>x. k x = i) f xs)
       = (if j = i then map_option f (find (\<lambda>x. k x = i) xs) else find (\<lambda>x. k x = j) xs)"
  by (induction xs) auto

lemma mem_row_MarkSent:
  "mem_uniq m \<Longrightarrow> mem_row (snd (mem_MarkSent c i m)) = (mem_row m)(i := None)"
  by (rule ext) (simp add: mem_row_def mem_MarkSent_def mem_uniq_def find_remove_first)

lemma mem_row_MarkFailed:
  "mem_row (snd (mem_MarkFailed c i reason t m)) =
     (mem_row m)(i := map_option (\<lambda>r. r\<lparr>rec_Attempts := rec_Attempts r + 1, rec_AvailableAt := t\<rparr>)
                        (mem_row m i))"
  by (rule ext) (simp add: mem_row_def mem_MarkFailed_def find_update_first)

lemma mem_row_MarkFailed_Some:
  assumes "mem_row m i = Some r"
  shows "\<exists>r'. deferred_row r t r' \<and>
    mem_row (snd (mem_MarkFailed c i reason t m)) = (mem_row m)(i := Some r')"
proof -
  let ?r = "r\<lparr>rec_Attempts := rec_Attempts r + 1, rec_AvailableAt := t\<rparr>"
  have "deferred_row r t ?r" by (simp add: deferred_row_def same_event_def)
  with assms show ?thesis using mem_row_MarkFailed [of c i reason t m] by auto
qed

lemma mem_row_Terminate:
  "mem_uniq m \<Longrightarrow> mem_row (snd (mem_Terminate c i reason m)) = (mem_row m)(i := None)"
  by (rule ext) (simp add: mem_row_def mem_Terminate_def mem_call_now_def mem_uniq_def
      find_remove_first split: option.split)

lemma mem_Terminate_row:
  assumes "mem_uniq m" and "mem_row m i = Some r"
  shows "\<exists>d. dead_row r reason d \<and> mem_dlq (snd (mem_Terminate c i reason m)) = (mem_dlq m)(i := Some d)
           \<and> mem_row (snd (mem_Terminate c i reason m)) = (mem_row m)(i := None)
           \<and> mem_uniq (snd (mem_Terminate c i reason m))"
proof -
  let ?d = "\<lparr>dl_Record = r, dl_Reason = reason, dl_FailedAt = mem_now m (mem_ticks m),
             dl_Attempts = rec_Attempts r + 1\<rparr>"
  have "dead_row r reason ?d" by (simp add: dead_row_def)
  moreover have "mem_dlq (snd (mem_Terminate c i reason m)) = (mem_dlq m)(i := Some ?d)"
    using assms(2) by (simp add: mem_row_def mem_Terminate_Some)
  moreover have "mem_uniq (snd (mem_Terminate c i reason m))"
    using assms by (simp add: mem_row_def mem_Terminate_Some mem_uniq_def distinct_map_remove_first)
  ultimately show ?thesis using mem_row_Terminate [OF assms(1)] by blast
qed

lemma mem_Fetch_state:
  "mem_Fetch c n m = (res, m') \<Longrightarrow>
     mem_records m' = mem_records m \<and> mem_dlq m' = mem_dlq m"
  by (cases "0 < n") (auto simp: mem_Fetch_eq mem_Fetch_nonpos)

lemma mem_MarkFailed_frame:
  assumes "mem_uniq s" and "s' = snd (mem_MarkFailed c i reason t s)"
  shows "mem_uniq s'" "mem_dlq s' = mem_dlq s" "\<forall>j. j \<noteq> i \<longrightarrow> mem_owns s' j = mem_owns s j"
  using assms mem_row_MarkFailed [of c i reason t s]
  by (auto simp: mem_uniq_def mem_owns_def) (auto simp: mem_MarkFailed_def map_update_first)

lemma mem_Fetch_row:
  assumes "mem_uniq s" and "mem_Fetch c n s = (Inr rs, s')" and "r \<in> set rs"
  shows "mem_row s' (rec_ID r) = Some r"
  using mem_Fetch_in_records [OF assms(2)] mem_Fetch_state [OF assms(2)] assms(1,3)
  by (auto simp: mem_row_def mem_uniq_def intro: find_key_distinct)

interpretation mem_store: outbox_store mem_Fetch mem_MarkSent mem_MarkFailed mem_Terminate
  "\<lambda>i. i" mem_row mem_dlq mem_owns mem_uniq "\<lambda>t. t"
proof (unfold_locales, goal_cases)
  case (1 s c n res s')
  then have "mem_row s' = mem_row s" by (auto simp: mem_row_def fun_eq_iff dest: mem_Fetch_state)
  with 1 show ?case
    by (auto simp: mem_uniq_def option.rel_refl dest: mem_Fetch_state)
next
  case (2 s c n rs s')
  then show ?case
    using mem_Fetch_distinct [OF _ 2(2)] mem_Fetch_row [OF 2]
    by (auto simp: mem_uniq_def mem_owns_def comp_def)
next
  case (3 s c i e s')
  then have s': "s' = snd (mem_MarkSent c i s)" by simp
  show ?case
    using 3(1) mem_row_MarkSent [OF 3(1)]
    by (auto simp: s' mem_uniq_def mem_MarkSent_def mem_owns_def distinct_map_remove_first
        fun_upd_idem)
next
  case (4 s i c s')
  then show ?case using mem_row_MarkSent [of s c i] by simp
next
  case (5 s c i reason t e s')
  then have s': "s' = snd (mem_MarkFailed c i reason t s)" by simp
  show ?case
    using mem_MarkFailed_frame [OF 5(1) s'] mem_row_MarkFailed [of c i reason t s] mem_row_MarkFailed_Some [of s i _ t c reason]
    by (cases "mem_row s i") (auto simp: s' fun_upd_idem mem_owns_def)
next
  case (6 s i c reason t s')
  then obtain r where "mem_row s i = Some r" by (auto simp: mem_owns_def)
  with 6(3) mem_row_MarkFailed_Some [OF this, of t c reason] show ?case by auto
next
  case (7 s c i reason e s')
  then have s': "s' = snd (mem_Terminate c i reason s)" by simp
  show ?case
    using 7 mem_Terminate_row [OF 7(1), of i _ reason c] mem_Terminate_None [of i s c reason, folded mem_row_def]
    by (cases "mem_row s i") (auto simp: s' mem_owns_def)
next
  case (8 s i c reason s')
  then obtain r where "mem_row s i = Some r" by (auto simp: mem_owns_def)
  with 8(3) mem_Terminate_row [OF 8(1) this, of reason c] show ?case by auto
qed

end
