(* ===== verification/Relay.thy ===== *)
theory Relay
  imports Outbox_Store
begin

text \<open>
  The polling relay of \<^verbatim>\<open>eventbus/outbox/relay.go\<close>: construction, the default backoff, one
  record's cycle (decode, restore headers, publish, mark sent) under its panic guard, the
  failure path, one drain of the store and the Run loop. The relay is written over the
  operations of a store with state \<open>'s\<close> and over an outside world \<open>'w\<close> that the
  publisher, the clock, the backoff's randomness and the logger act on.
\<close>

section \<open>State and construction\<close>

record ('s, 'w, 'b) relay =
  rl_Fetch :: "gctx \<Rightarrow> int \<Rightarrow> 's \<Rightarrow> (goerr + orec list) \<times> 's"
  rl_MarkSent :: "gctx \<Rightarrow> string \<Rightarrow> 's \<Rightarrow> goerr option \<times> 's"
  rl_MarkFailed :: "gctx \<Rightarrow> string \<Rightarrow> string \<Rightarrow> time \<Rightarrow> 's \<Rightarrow> goerr option \<times> 's"
  rl_Terminate :: "(gctx \<Rightarrow> string \<Rightarrow> string \<Rightarrow> 's \<Rightarrow> goerr option \<times> 's) option"
  rl_Publish :: "gctx \<Rightarrow> string \<Rightarrow> 'b devent list \<Rightarrow> 'w \<Rightarrow> goerr option outcome \<times> 'w"
  rl_codec :: "'b codec"
  rl_log :: "string \<Rightarrow> log_fields \<Rightarrow> 'w \<Rightarrow> 'w"
  rl_errText :: "goerr \<Rightarrow> string"
  rl_pollInterval :: duration
  rl_batchSize :: int
  rl_maxAttempts :: int
  rl_backoff :: "int \<Rightarrow> 'w \<Rightarrow> duration outcome \<times> 'w"
  rl_now :: "'w \<Rightarrow> time \<times> 'w"
  rl_headerRestorer :: "(gctx \<Rightarrow> headers \<Rightarrow> gctx outcome) option"

text \<open>
  \<^verbatim>\<open>RelayConfig\<close>: a nil dependency is \<open>None\<close>. The store is its three operations and, when
  it implements \<^verbatim>\<open>DeadLetterRecorder\<close>, Terminate.
\<close>

record 's outbox_port =
  op_Fetch :: "gctx \<Rightarrow> int \<Rightarrow> 's \<Rightarrow> (goerr + orec list) \<times> 's"
  op_MarkSent :: "gctx \<Rightarrow> string \<Rightarrow> 's \<Rightarrow> goerr option \<times> 's"
  op_MarkFailed :: "gctx \<Rightarrow> string \<Rightarrow> string \<Rightarrow> time \<Rightarrow> 's \<Rightarrow> goerr option \<times> 's"
  op_Terminate :: "(gctx \<Rightarrow> string \<Rightarrow> string \<Rightarrow> 's \<Rightarrow> goerr option \<times> 's) option"

record ('s, 'w, 'b) relay_config =
  rc_Store :: "'s outbox_port option"
  rc_Publisher :: "(gctx \<Rightarrow> string \<Rightarrow> 'b devent list \<Rightarrow> 'w \<Rightarrow> goerr option outcome \<times> 'w) option"
  rc_Codec :: "'b codec option"
  rc_Logger :: "(string \<Rightarrow> log_fields \<Rightarrow> 'w \<Rightarrow> 'w) option"

type_synonym ('s, 'w, 'b) relay_option = "('s, 'w, 'b) relay \<Rightarrow> ('s, 'w, 'b) relay"

definition WithPollInterval :: "duration \<Rightarrow> ('s, 'w, 'b) relay_option" where
  "WithPollInterval d r = r\<lparr>rl_pollInterval := d\<rparr>"

definition WithBatchSize :: "int \<Rightarrow> ('s, 'w, 'b) relay_option" where
  "WithBatchSize n r = r\<lparr>rl_batchSize := n\<rparr>"

definition WithBackoff ::
  "(int \<Rightarrow> 'w \<Rightarrow> duration outcome \<times> 'w) \<Rightarrow> ('s, 'w, 'b) relay_option" where
  "WithBackoff fn r = r\<lparr>rl_backoff := fn\<rparr>"

definition WithMaxAttempts :: "int \<Rightarrow> ('s, 'w, 'b) relay_option" where
  "WithMaxAttempts n r = r\<lparr>rl_maxAttempts := n\<rparr>"

definition WithRelayClock :: "('w \<Rightarrow> time \<times> 'w) \<Rightarrow> ('s, 'w, 'b) relay_option" where
  "WithRelayClock now r = r\<lparr>rl_now := now\<rparr>"

definition WithHeaderRestorer ::
  "(gctx \<Rightarrow> headers \<Rightarrow> gctx outcome) option \<Rightarrow> ('s, 'w, 'b) relay_option" where
  "WithHeaderRestorer fn r = r\<lparr>rl_headerRestorer := fn\<rparr>"

text \<open>
  \<^verbatim>\<open>rand.Int64N(n)\<close> panics for \<open>n \<le> 0\<close> and otherwise picks a value below \<open>n\<close>; the pick
  is the argument \<open>u\<close>. \<^verbatim>\<open>defaultBackoff\<close> shifts an int64, so the doubling wraps around;
  the comparison with 0 and the cap are on the signed value.
\<close>

definition rand_Int64N :: "nat \<Rightarrow> int \<Rightarrow> int outcome" where
  "rand_Int64N u n = (if n \<le> 0 then Panic ''invalid argument to Int64N'' else Ret (int u mod n))"

definition maxBackoff :: duration where
  "maxBackoff = 60 * second"

definition backoff_base :: "int \<Rightarrow> int" where
  "backoff_base attempts =
     (let attempts' = (if attempts < 1 then 1 else attempts);
          base = push_bit (nat (attempts' - 1)) (1000000000 :: 64 word)
      in if sint base \<le> 0 \<or> sint base > maxBackoff then maxBackoff else sint base)"

definition defaultBackoff :: "int \<Rightarrow> nat \<Rightarrow> duration outcome" where
  "defaultBackoff attempts u = rand_Int64N u (backoff_base attempts)"

text \<open>
  \<^verbatim>\<open>NewRelay\<close>. The process's random source and clock, and the rendering of errors, are the
  arguments \<open>rnd\<close>, \<open>time_Now\<close> and \<open>errText\<close>.
\<close>

definition NewRelay ::
  "('w \<Rightarrow> nat \<times> 'w) \<Rightarrow> ('w \<Rightarrow> time \<times> 'w) \<Rightarrow> (goerr \<Rightarrow> string) \<Rightarrow> ('s, 'w, 'b) relay_config \<Rightarrow>
   ('s, 'w, 'b) relay_option list \<Rightarrow> goerr + ('s, 'w, 'b) relay" where
  "NewRelay rnd time_Now errText cfg opts =
     (case rc_Store cfg of None \<Rightarrow> Inl (ErrNew ''outbox relay: Store is required'') | Some st \<Rightarrow>
      case rc_Publisher cfg of None \<Rightarrow> Inl (ErrNew ''outbox relay: Publisher is required'') | Some pub \<Rightarrow>
      case rc_Codec cfg of None \<Rightarrow> Inl (ErrNew ''outbox relay: Codec is required'') | Some cd \<Rightarrow>
      case rc_Logger cfg of None \<Rightarrow> Inl (ErrNew ''outbox relay: Logger is required'') | Some log \<Rightarrow>
      let r = \<lparr>rl_Fetch = op_Fetch st, rl_MarkSent = op_MarkSent st, rl_MarkFailed = op_MarkFailed st,
               rl_Terminate = None, rl_Publish = pub, rl_codec = cd, rl_log = log,
               rl_errText = errText, rl_pollInterval = second, rl_batchSize = 100,
               rl_maxAttempts = 10,
               rl_backoff = (\<lambda>n w. let (u, w') = rnd w in (defaultBackoff n u, w')),
               rl_now = time_Now, rl_headerRestorer = None\<rparr>;
          r' = fold (\<lambda>opt. opt) opts r
      in if rl_maxAttempts r' > 0 then
           (case op_Terminate st of
              None \<Rightarrow> Inl (ErrNew ''outbox relay: MaxAttempts > 0 requires a Store that implements DeadLetterRecorder'')
            | Some t \<Rightarrow> Inr (r'\<lparr>rl_Terminate := Some t\<rparr>))
         else Inr r')"

section \<open>One record\<close>

text \<open>The log lines, at level error, with their fields (the stack trace of a panic is left out).\<close>

definition relay_log_err :: "('s, 'w, 'b) relay \<Rightarrow> string \<Rightarrow> orec \<Rightarrow> goerr option \<Rightarrow> 'w \<Rightarrow> 'w" where
  "relay_log_err r msg rec e w =
     (case e of
        None \<Rightarrow> w
      | Some err \<Rightarrow> rl_log r msg [(''record_id'', rec_ID rec), (''err'', rl_errText r err)] w)"

definition relay_log_panic :: "('s, 'w, 'b) relay \<Rightarrow> orec \<Rightarrow> string \<Rightarrow> 'w \<Rightarrow> 'w" where
  "relay_log_panic r rec p w =
     rl_log r ''outbox relay: panic recovered''
       [(''record_id'', rec_ID rec), (''event_id'', rec_EventID rec), (''recover'', p)] w"

definition relay_log_drain :: "('s, 'w, 'b) relay \<Rightarrow> goerr \<Rightarrow> 'w \<Rightarrow> 'w" where
  "relay_log_drain r err w = rl_log r ''outbox relay drain failed'' [(''err'', rl_errText r err)] w"

definition relay_fail ::
  "('s, 'w, 'b) relay \<Rightarrow> gctx \<Rightarrow> orec \<Rightarrow> goerr \<Rightarrow> 's \<times> 'w \<Rightarrow> unit outcome \<times> ('s \<times> 'w)" where
  "relay_fail r ctx rec reason = (\<lambda>(s, w).
     let nextAttempt = rec_Attempts rec + 1
     in if rl_maxAttempts r > 0 \<and> nextAttempt \<ge> rl_maxAttempts r then
          (case rl_Terminate r of
             None \<Rightarrow> (Panic ''nil pointer dereference'', (s, w))
           | Some term \<Rightarrow>
               let (e, s1) = term ctx (rec_ID rec) (rl_errText r reason) s
               in (Ret (), (s1, relay_log_err r ''outbox relay: terminate failed'' rec e w)))
        else
          let (now, w1) = rl_now r w
          in case rl_backoff r nextAttempt w1 of
               (Panic p, w2) \<Rightarrow> (Panic p, (s, w2))
             | (Ret d, w2) \<Rightarrow>
                 let (e, s1) = rl_MarkFailed r ctx (rec_ID rec) (rl_errText r reason) (now + d) s
                 in (Ret (), (s1, relay_log_err r ''outbox relay: mark failed'' rec e w2)))"

definition relay_message :: "orec \<Rightarrow> wm_msg" where
  "relay_message rec =
     (new_message (rec_EventID rec) (rec_Payload rec))\<lparr>msg_Metadata := rec_Headers rec\<rparr>"

definition relay_body ::
  "('s, 'w, 'b) relay \<Rightarrow> gctx \<Rightarrow> orec \<Rightarrow> 's \<times> 'w \<Rightarrow> unit outcome \<times> ('s \<times> 'w)" where
  "relay_body r ctx rec = (\<lambda>(s, w).
     case cd_Unmarshal (rl_codec r) ctx (relay_message rec) of
       Panic p \<Rightarrow> (Panic p, (s, w))
     | Ret (Inl err) \<Rightarrow> relay_fail r ctx rec (Errorf ''decode'' [err]) (s, w)
     | Ret (Inr (ev, _)) \<Rightarrow>
         (case (case rl_headerRestorer r of None \<Rightarrow> Ret ctx | Some h \<Rightarrow> h ctx (rec_Headers rec)) of
            Panic p \<Rightarrow> (Panic p, (s, w))
          | Ret pubCtx \<Rightarrow>
              (case rl_Publish r pubCtx (rec_Topic rec) [ev] w of
                 (Panic p, w1) \<Rightarrow> (Panic p, (s, w1))
               | (Ret (Some err), w1) \<Rightarrow> relay_fail r ctx rec (Errorf ''publish'' [err]) (s, w1)
               | (Ret None, w1) \<Rightarrow>
                   let (e, s1) = rl_MarkSent r ctx (rec_ID rec) s
                   in (Ret (), (s1, relay_log_err r ''outbox relay: mark sent failed'' rec e w1)))))"

text \<open>The deferred recover: a panic of the body is logged and goes through fail.\<close>

definition relay_process ::
  "('s, 'w, 'b) relay \<Rightarrow> gctx \<Rightarrow> orec \<Rightarrow> 's \<times> 'w \<Rightarrow> unit outcome \<times> ('s \<times> 'w)" where
  "relay_process r ctx rec g =
     (case relay_body r ctx rec g of
        (Ret u, g') \<Rightarrow> (Ret u, g')
      | (Panic p, (s, w)) \<Rightarrow>
          relay_fail r ctx rec (Errorf (''panic: '' @ p) [])
            (s, relay_log_panic r rec p w))"

section \<open>Draining and the Run loop\<close>

fun relay_process_all ::
  "('s, 'w, 'b) relay \<Rightarrow> gctx \<Rightarrow> orec list \<Rightarrow> 's \<times> 'w \<Rightarrow> unit outcome \<times> ('s \<times> 'w)" where
  "relay_process_all r ctx [] g = (Ret (), g)"
| "relay_process_all r ctx (rec # recs) g =
     (case relay_process r ctx rec g of
        (Panic p, g') \<Rightarrow> (Panic p, g')
      | (Ret _, g') \<Rightarrow> relay_process_all r ctx recs g')"

definition drainOnce ::
  "('s, 'w, 'b) relay \<Rightarrow> gctx \<Rightarrow> 's \<times> 'w \<Rightarrow> goerr option outcome \<times> ('s \<times> 'w)" where
  "drainOnce r ctx = (\<lambda>(s, w).
     case rl_Fetch r ctx (rl_batchSize r) s of
       (Inl err, s1) \<Rightarrow> (Ret (Some (Errorf ''fetch'' [err])), (s1, w))
     | (Inr records, s1) \<Rightarrow>
         (case relay_process_all r ctx records (s1, w) of
            (Panic p, g) \<Rightarrow> (Panic p, g)
          | (Ret _, g) \<Rightarrow> (Ret None, g)))"

definition ErrRelayAlreadyRunning :: goerr where
  "ErrRelayAlreadyRunning = ErrNew ''outbox: relay already running on this instance''"

text \<open>
  The select of the Run loop picks a ready case: the ticker fired, or the context is done
  with some error. \<open>Waiting\<close> is a loop that has used up the given choices and is still
  waiting for the next.
\<close>

datatype select_event = TickerFired | CtxDone goerr

datatype run_result = Returned goerr | Panicked string | Waiting

fun relay_loop ::
  "('s, 'w, 'b) relay \<Rightarrow> gctx \<Rightarrow> select_event list \<Rightarrow> 's \<times> 'w \<Rightarrow> run_result \<times> ('s \<times> 'w)" where
  "relay_loop r ctx [] g = (Waiting, g)"
| "relay_loop r ctx (CtxDone e # evs) g = (Returned e, g)"
| "relay_loop r ctx (TickerFired # evs) g =
     (case drainOnce r ctx g of
        (Panic p, g') \<Rightarrow> (Panicked p, g')
      | (Ret None, g') \<Rightarrow> relay_loop r ctx evs g'
      | (Ret (Some err), (s, w)) \<Rightarrow>
          relay_loop r ctx evs (s, relay_log_drain r err w))"

text \<open>
  \<^verbatim>\<open>Run\<close>: the compare-and-swap on \<^verbatim>\<open>running\<close>, then the loop; leaving the loop, by
  return or by panic, stores false again. \<^verbatim>\<open>time.NewTicker\<close> panics for a non-positive
  interval.
\<close>

definition relay_Run ::
  "('s, 'w, 'b) relay \<Rightarrow> gctx \<Rightarrow> select_event list \<Rightarrow> bool \<Rightarrow> 's \<times> 'w \<Rightarrow>
   run_result \<times> bool \<times> ('s \<times> 'w)" where
  "relay_Run r ctx evs running g =
     (if running then (Returned ErrRelayAlreadyRunning, True, g)
      else if rl_pollInterval r \<le> 0 then
        (Panicked ''non-positive interval for NewTicker'', False, g)
      else case relay_loop r ctx evs g of
             (Waiting, g') \<Rightarrow> (Waiting, True, g')
           | (res, g') \<Rightarrow> (res, False, g'))"


section \<open>The default backoff\<close>

text \<open>
  Up to 26 the shifted value still fits in an int64. For 27 and more, every bit below
  position 36 is zero, so a positive result is above the cap.
\<close>

lemma backoff_shift_exact:
  assumes "k \<le> 26"
  shows "sint (push_bit k (1000000000 :: 64 word)) = 1000000000 * 2 ^ k"
proof -
  have p: "(2::int) ^ k \<le> 2 ^ 26" "(0::int) < 2 ^ k"
    using assms by (intro power_increasing) auto
  have "push_bit k (1000000000 :: 64 word) = word_of_int (1000000000 * 2 ^ k)"
    by (simp add: push_bit_eq_mult)
  then have "sint (push_bit k (1000000000 :: 64 word)) =
      signed_take_bit (LENGTH(64) - 1) (1000000000 * 2 ^ k)"
    by (simp only: sint_sbintrunc')
  also have "\<dots> = 1000000000 * 2 ^ k"
    proof (rule signed_take_bit_int_eq_self)
    have "(0::int) \<le> 1000000000 * 2 ^ k" by simp
    then show "- (2 ^ (LENGTH(64) - 1)) \<le> (1000000000 * 2 ^ k :: int)" by (rule order_trans [rotated]) simp
    show "(1000000000 * 2 ^ k :: int) < 2 ^ (LENGTH(64) - 1)" using p by simp
  qed
  finally show ?thesis .
qed

lemma backoff_shift_wrapped:
  assumes "27 \<le> k"
  shows "sint (push_bit k (1000000000 :: 64 word)) \<le> 0 \<or>
         2 ^ 36 \<le> sint (push_bit k (1000000000 :: 64 word))"
proof -
  let ?x = "push_bit k (1000000000 :: 64 word)"
  have "?x = word_of_int (1000000000 * 2 ^ k)" by (simp add: push_bit_eq_mult)
  then have "sint ?x = signed_take_bit (LENGTH(64) - 1) (1000000000 * 2 ^ k)"
    by (simp only: sint_sbintrunc')
  then have "take_bit 36 (sint ?x) = take_bit 36 (1000000000 * 2 ^ k)"
    by (simp add: take_bit_signed_take_bit)
  moreover have "1000000000 * 2 ^ k = (2 ^ 36) * (1953125 * (2::int) ^ (k - 27))"
  proof -
    have "(2::int) ^ k = 2 ^ 27 * 2 ^ (k - 27)" using power_add [of "2::int" 27 "k - 27"] assms by simp
    then show ?thesis by simp
  qed
  ultimately have "sint ?x mod 2 ^ 36 = 0" by (simp add: take_bit_eq_mod)
  then have "2 ^ 36 dvd sint ?x" by presburger
  then show ?thesis by (meson not_le zdvd_imp_le)
qed
lemma backoff_shift_large:
  assumes "6 \<le> k"
  shows "sint (push_bit k (1000000000 :: 64 word)) \<le> 0 \<or>
         sint (push_bit k (1000000000 :: 64 word)) > 60000000000"
proof (cases "k \<le> 26")
  case True
  have "(2::int) ^ 6 \<le> 2 ^ k" using assms by (intro power_increasing) auto
  then show ?thesis by (simp add: backoff_shift_exact [OF True])
next
  case False
  then show ?thesis using backoff_shift_wrapped [of k] by auto
qed

lemma backoff_base_eq:
  "backoff_base n = min maxBackoff (second * 2 ^ nat (n - 1))"
proof -
  define k where "k = nat (n - 1)"
  have base: "backoff_base n =
      (let b = sint (push_bit k (1000000000 :: 64 word))
       in if b \<le> 0 \<or> b > maxBackoff then maxBackoff else b)"
    by (auto simp: backoff_base_def Let_def k_def)
  show ?thesis
  proof (cases "k < 6")
    case True
    then have "(2::int) ^ k \<le> 2 ^ 5" by (intro power_increasing) auto
    with True show ?thesis
      by (simp add: base backoff_shift_exact maxBackoff_def second_def Let_def flip: k_def)
  next
    case False
    then have "(2::int) ^ 6 \<le> 2 ^ k" by (intro power_increasing) auto
    with False backoff_shift_large [of k] show ?thesis
      by (auto simp: base maxBackoff_def second_def Let_def simp flip: k_def)
  qed
qed

lemma backoff_base_pos: "0 < backoff_base n"
  by (simp add: backoff_base_eq maxBackoff_def second_def)

text \<open>
  C40: The default backoff never panics and never overflows: for every attempt number, also
  one whose shift wraps around int64, the delay is at least 0 and below the smaller of 60
  seconds and \<open>2 ^ (attempts - 1)\<close> seconds.
\<close>

theorem defaultBackoff_bounds:
  "\<exists>d. defaultBackoff attempts u = Ret d \<and> 0 \<le> d \<and>
       d < min (60 * second) (second * 2 ^ nat (attempts - 1))"
proof -
  let ?b = "backoff_base attempts"
  have b: "?b = min (60 * second) (second * 2 ^ nat (attempts - 1))"
    by (simp add: backoff_base_eq maxBackoff_def)
  have "0 < ?b" unfolding b by (simp add: second_def)
  then show ?thesis
    unfolding b [symmetric] by (auto simp: defaultBackoff_def rand_Int64N_def)
qed


section \<open>What becomes of a record\<close>

text \<open>The relay holds the operations of the given store.\<close>

definition relay_wired ::
  "('s, 'w, 'b) relay \<Rightarrow> (gctx \<Rightarrow> int \<Rightarrow> 's \<Rightarrow> (goerr + orec list) \<times> 's) \<Rightarrow>
   (gctx \<Rightarrow> string \<Rightarrow> 's \<Rightarrow> goerr option \<times> 's) \<Rightarrow>
   (gctx \<Rightarrow> string \<Rightarrow> string \<Rightarrow> time \<Rightarrow> 's \<Rightarrow> goerr option \<times> 's) \<Rightarrow>
   (gctx \<Rightarrow> string \<Rightarrow> string \<Rightarrow> 's \<Rightarrow> goerr option \<times> 's) \<Rightarrow> bool" where
  "relay_wired r f ms mf tm \<longleftrightarrow>
     rl_Fetch r = f \<and> rl_MarkSent r = ms \<and> rl_MarkFailed r = mf \<and>
     (rl_maxAttempts r > 0 \<longrightarrow> rl_Terminate r = Some tm)"

text \<open>
  An observation \<open>D\<close> of the world: the (topic, event) pairs the publisher has accepted so far.
  A call that returns nil has accepted its events, and nothing else takes one away.
\<close>

definition observes :: "('w \<Rightarrow> (string \<times> 'b devent) set) \<Rightarrow> ('s, 'w, 'b) relay \<Rightarrow> bool" where
  "observes D r \<longleftrightarrow>
     (\<forall>c t evs w. D w \<subseteq> D (snd (rl_Publish r c t evs w)) \<and>
        (fst (rl_Publish r c t evs w) = Ret None \<longrightarrow>
           (\<forall>ev \<in> set evs. (t, ev) \<in> D (snd (rl_Publish r c t evs w))))) \<and>
     (\<forall>m f w. D w \<subseteq> D (rl_log r m f w)) \<and> (\<forall>w. D w \<subseteq> D (snd (rl_now r w))) \<and>
     (\<forall>n w. D w \<subseteq> D (snd (rl_backoff r n w)))"

text \<open>The event of a record has reached the publisher.\<close>

definition delivered ::
  "('w \<Rightarrow> (string \<times> 'b devent) set) \<Rightarrow> ('s, 'w, 'b) relay \<Rightarrow> gctx \<Rightarrow> orec \<Rightarrow> 'w \<Rightarrow> bool" where
  "delivered D r ctx rec w \<longleftrightarrow>
     (\<exists>ev nm. cd_Unmarshal (rl_codec r) ctx (relay_message rec) = Ret (Inr (ev, nm)) \<and>
              (rec_Topic rec, ev) \<in> D w)"

text \<open>
  The possible fates of a record in one cycle, from its row and dead letter before and
  after: removed because the publisher accepted it; deferred with one more attempt, within
  the budget; dead-lettered with the budget used up; or, when the cycle was not \<open>clean\<close> (the
  store reported an error on the write, or a panic ended the drain), left as it was.
\<close>

definition fate ::
  "bool \<Rightarrow> int \<Rightarrow> orec \<Rightarrow> bool \<Rightarrow> dead_letter option \<Rightarrow> orec option \<Rightarrow> dead_letter option \<Rightarrow> bool" where
  "fate clean maxAttempts rec accepted dead0 row dead1 \<longleftrightarrow>
     (\<not> clean \<and> row = Some rec \<and> dead1 = dead0) \<or>
     (accepted \<and> row = None \<and> dead1 = dead0) \<or>
     (\<exists>r' t. row = Some r' \<and> deferred_row rec t r' \<and> dead1 = dead0 \<and>
             (maxAttempts \<le> 0 \<or> rec_Attempts rec + 1 < maxAttempts)) \<or>
     (\<exists>d reason. row = None \<and> dead1 = Some d \<and> dead_row rec reason d \<and>
             0 < maxAttempts \<and> maxAttempts \<le> rec_Attempts rec + 1)"

lemma fate_mono:
  "fate b mx rec acc d0 row d1 \<Longrightarrow> (b' \<Longrightarrow> b) \<Longrightarrow> (acc \<Longrightarrow> acc') \<Longrightarrow> fate b' mx rec acc' d0 row d1"
  unfolding fate_def by blast

lemma fate_unclean [simp]: "fate False mx rec acc d0 (Some rec) d0"
  by (simp add: fate_def)

lemma delivered_mono: "delivered D r c rec w \<Longrightarrow> D w \<subseteq> D w' \<Longrightarrow> delivered D r c rec w'"
  unfolding delivered_def by blast

lemma observes_log_err: "observes D r \<Longrightarrow> D w \<subseteq> D (relay_log_err r m rec e w)"
  by (auto simp: observes_def relay_log_err_def split: option.split)

lemma observes_publish:
  assumes "observes D r" and "rl_Publish r c t evs w = (res, w')"
  shows "D w \<subseteq> D w'" and "res = Ret None \<Longrightarrow> ev \<in> set evs \<Longrightarrow> (t, ev) \<in> D w'"
  using assms unfolding observes_def by (metis fst_conv snd_conv)+

lemma observes_now: "observes D r \<Longrightarrow> rl_now r w = (t, w') \<Longrightarrow> D w \<subseteq> D w'"
  unfolding observes_def by (metis snd_conv)

lemma observes_backoff: "observes D r \<Longrightarrow> rl_backoff r n w = (d, w') \<Longrightarrow> D w \<subseteq> D w'"
  unfolding observes_def by (metis snd_conv)

lemma observes_log: "observes D r \<Longrightarrow> D w \<subseteq> D (rl_log r m f w)"
  by (auto simp: observes_def)

lemma observes_log_panic: "observes D r \<Longrightarrow> D w \<subseteq> D (relay_log_panic r rec p w)"
  unfolding relay_log_panic_def by (rule observes_log)

lemma observes_log_drain: "observes D r \<Longrightarrow> D w \<subseteq> D (relay_log_drain r err w)"
  unfolding relay_log_drain_def by (rule observes_log)

text \<open>The branches of fail and of the body, with what each has done.\<close>

lemma relay_fail_cases:
  assumes "relay_fail r ctx rec reason (s, w) = (res, (s', w'))"
  obtains (no_recorder) p where "rl_maxAttempts r > 0" "rl_Terminate r = None"
      "res = Panic p" "s' = s" "w' = w"
  | (terminate) tm e where "0 < rl_maxAttempts r" "rl_maxAttempts r \<le> rec_Attempts rec + 1"
      "rl_Terminate r = Some tm" "tm ctx (rec_ID rec) (rl_errText r reason) s = (e, s')"
      "res = Ret ()" "w' = relay_log_err r ''outbox relay: terminate failed'' rec e w"
  | (panic) p now w1 where "rl_now r w = (now, w1)"
      "rl_backoff r (rec_Attempts rec + 1) w1 = (Panic p, w')" "res = Panic p" "s' = s"
  | (deferral) now w1 d w2 e where
      "rl_maxAttempts r \<le> 0 \<or> rec_Attempts rec + 1 < rl_maxAttempts r" "rl_now r w = (now, w1)"
      "rl_backoff r (rec_Attempts rec + 1) w1 = (Ret d, w2)"
      "rl_MarkFailed r ctx (rec_ID rec) (rl_errText r reason) (now + d) s = (e, s')"
      "res = Ret ()" "w' = relay_log_err r ''outbox relay: mark failed'' rec e w2"
  using assms that
  by (auto simp: relay_fail_def Let_def not_less not_le split: if_splits option.splits prod.splits outcome.splits)

lemma relay_body_cases:
  assumes "relay_body r ctx rec (s, w) = (res, (s', w'))"
  obtains (panic) p where "res = Panic p" "s' = s" "w' = w"
  | (panic_publish) p c ev where "rl_Publish r c (rec_Topic rec) [ev] w = (Panic p, w')"
      "res = Panic p" "s' = s"
  | (decode) err where "relay_fail r ctx rec (Errorf ''decode'' [err]) (s, w) = (res, (s', w'))"
  | (publish) err c ev w1 where "rl_Publish r c (rec_Topic rec) [ev] w = (Ret (Some err), w1)"
      "relay_fail r ctx rec (Errorf ''publish'' [err]) (s, w1) = (res, (s', w'))"
  | (sent) c ev nm w1 e where
      "cd_Unmarshal (rl_codec r) ctx (relay_message rec) = Ret (Inr (ev, nm))"
      "rl_Publish r c (rec_Topic rec) [ev] w = (Ret None, w1)"
      "rl_MarkSent r ctx (rec_ID rec) s = (e, s')"
      "res = Ret ()" "w' = relay_log_err r ''outbox relay: mark sent failed'' rec e w1"
  using assms that
  by (auto simp: relay_body_def Let_def split: outcome.splits sum.splits prod.splits option.splits)

text \<open>
  A property of the store that every write the relay can make keeps is kept by the cycle, the
  batch and the drain, panics included.
\<close>

definition writes_keep :: "('s, 'w, 'b) relay \<Rightarrow> ('s \<Rightarrow> bool) \<Rightarrow> bool" where
  "writes_keep r P \<longleftrightarrow>
     (\<forall>c i s. P s \<longrightarrow> P (snd (rl_MarkSent r c i s))) \<and>
     (\<forall>tm c i x s. rl_Terminate r = Some tm \<longrightarrow> P s \<longrightarrow> P (snd (tm c i x s))) \<and>
     (\<forall>c i x n d w w' s. rl_backoff r n (snd (rl_now r w)) = (Ret d, w') \<longrightarrow> P s \<longrightarrow>
        P (snd (rl_MarkFailed r c i x (fst (rl_now r w) + d) s)))"

lemma relay_fail_keeps:
  assumes "writes_keep r P" "P s" "relay_fail r ctx rec reason (s, w) = (res, (s', w'))"
  shows "P s'"
  using assms(3)
proof (cases rule: relay_fail_cases)
  case (terminate tm e)
  then show ?thesis using assms unfolding writes_keep_def by (metis snd_conv)
next
  case (deferral now w1 d w2 e)
  then have "rl_backoff r (rec_Attempts rec + 1) (snd (rl_now r w)) = (Ret d, w2)"
    and "snd (rl_MarkFailed r ctx (rec_ID rec) (rl_errText r reason) (fst (rl_now r w) + d) s) = s'"
    by simp_all
  then show ?thesis using assms unfolding writes_keep_def by metis
qed (use assms in simp_all)

lemma relay_process_keeps:
  assumes "writes_keep r P" "P s" "relay_process r ctx rec (s, w) = (res, (s', w'))"
  shows "P s'"
proof -
  obtain bres s1 w1 where b: "relay_body r ctx rec (s, w) = (bres, (s1, w1))" by (metis prod_cases3)
  have "P s1"
    using b
  proof (cases rule: relay_body_cases)
    case (sent c ev nm w1' e)
    then show ?thesis using assms unfolding writes_keep_def by (metis snd_conv)
  next
    case (decode err)
    then show ?thesis by (rule relay_fail_keeps [OF assms(1,2)])
  next
    case (publish err c ev w1')
    then show ?thesis using relay_fail_keeps [OF assms(1,2)] by simp
  qed (use assms in simp_all)
  then show ?thesis
    using assms b relay_fail_keeps [OF assms(1)]
    by (cases bres) (auto simp: relay_process_def)
qed

lemma relay_process_all_keeps:
  assumes "writes_keep r P" "P s" "relay_process_all r ctx recs (s, w) = (res, (s', w'))"
  shows "P s'"
  using assms(2,3)
proof (induction recs arbitrary: s w)
  case (Cons rec recs)
  obtain pres s1 w1 where p: "relay_process r ctx rec (s, w) = (pres, (s1, w1))" by (metis prod_cases3)
  show ?case
    using Cons p relay_process_keeps [OF assms(1) Cons.prems(1) p] by (cases pres) auto
qed simp

lemma drainOnce_keeps:
  assumes "writes_keep r P" "P s" "\<And>c n s. P s \<Longrightarrow> P (snd (rl_Fetch r c n s))"
    and "drainOnce r ctx (s, w) = (res, (s', w'))"
  shows "P s'"
proof -
  obtain fres s1 where f: "rl_Fetch r ctx (rl_batchSize r) s = (fres, s1)" by (metis surj_pair)
  then have "P s1" using assms(2,3) by (metis snd_conv)
  then show ?thesis
    using assms(4) f relay_process_all_keeps [OF assms(1)]
    by (cases fres) (auto simp: drainOnce_def split: prod.splits outcome.splits)
qed

text \<open>When the budget cannot meet a missing recorder and the backoff returns, no cycle panics.\<close>

definition guarded :: "('s, 'w, 'b) relay \<Rightarrow> bool" where
  "guarded r \<longleftrightarrow> (rl_maxAttempts r > 0 \<longrightarrow> rl_Terminate r \<noteq> None) \<and>
     (\<forall>n w p w'. rl_backoff r n w \<noteq> (Panic p, w'))"

lemma relay_fail_returns:
  "guarded r \<Longrightarrow> \<exists>g'. relay_fail r ctx rec reason g = (Ret (), g')"
proof -
  assume gd: "guarded r"
  obtain res s' w' where f: "relay_fail r ctx rec reason (fst g, snd g) = (res, (s', w'))"
    by (metis prod_cases3)
  then have "res = Ret ()"
    by (cases rule: relay_fail_cases) (use gd in \<open>auto simp: guarded_def\<close>)
  with f show ?thesis by auto
qed

lemma relay_process_returns:
  assumes "guarded r"
  shows "\<exists>g'. relay_process r ctx rec g = (Ret (), g')"
proof -
  obtain bres s1 w1 where "relay_body r ctx rec g = (bres, (s1, w1))" by (metis prod_cases3)
  then show ?thesis
    using relay_fail_returns [OF assms] by (cases bres) (auto simp: relay_process_def)
qed

lemma relay_process_all_returns:
  assumes "guarded r"
  shows "\<exists>g'. relay_process_all r ctx recs g = (Ret (), g')"
proof (induction recs arbitrary: g)
  case (Cons rec recs)
  then show ?case using relay_process_returns [OF assms, of ctx rec g] by (auto split: prod.splits)
qed simp

lemma drainOnce_returns:
  assumes "guarded r"
  shows "\<exists>e g'. drainOnce r ctx g = (Ret e, g')"
proof -
  obtain s w where g: "g = (s, w)" by (cases g)
  obtain fres s1 where f: "rl_Fetch r ctx (rl_batchSize r) s = (fres, s1)" by (metis surj_pair)
  show ?thesis
  proof (cases fres)
    case (Inr recs)
    obtain g' where "relay_process_all r ctx recs (s1, w) = (Ret (), g')"
      using relay_process_all_returns [OF assms] by blast
    with Inr f show ?thesis by (simp add: g drainOnce_def)
  qed (simp add: g f drainOnce_def)
qed

text \<open>The Run loop on ticks and a final cancellation.\<close>

lemma relay_loop_returns:
  assumes "guarded r"
  shows "\<exists>g'. relay_loop r ctx (replicate n TickerFired @ CtxDone e # rest) g = (Returned e, g')"
proof (induction n arbitrary: g)
  case (Suc n)
  obtain de s w where "drainOnce r ctx g = (Ret de, (s, w))"
    using drainOnce_returns [OF assms] by (metis surj_pair)
  then show ?case using Suc by (cases de) auto
qed simp

lemma relay_Run_returns:
  assumes "guarded r" and "0 < rl_pollInterval r"
  shows "\<exists>g'. relay_Run r ctx (replicate n TickerFired @ [CtxDone e]) False g = (Returned e, False, g')"
  using relay_loop_returns [OF assms(1), of ctx n e "[]" g] assms(2) by (auto simp: relay_Run_def)

section \<open>Construction\<close>

definition relay_option_ok :: "('s, 'w, 'b) relay_option \<Rightarrow> bool" where
  "relay_option_ok opt \<longleftrightarrow>
     (\<exists>d. opt = WithPollInterval d) \<or> (\<exists>n. opt = WithBatchSize n) \<or> (\<exists>f. opt = WithBackoff f) \<or>
     (\<exists>n. opt = WithMaxAttempts n) \<or> (\<exists>f. opt = WithRelayClock f) \<or>
     (\<exists>h. opt = WithHeaderRestorer h)"

lemma fold_relay_options_port:
  assumes "\<forall>opt \<in> set opts. relay_option_ok opt"
  shows "rl_Fetch (fold (\<lambda>opt. opt) opts r) = rl_Fetch r \<and>
    rl_MarkSent (fold (\<lambda>opt. opt) opts r) = rl_MarkSent r \<and>
    rl_MarkFailed (fold (\<lambda>opt. opt) opts r) = rl_MarkFailed r \<and>
    rl_Terminate (fold (\<lambda>opt. opt) opts r) = rl_Terminate r \<and>
    rl_codec (fold (\<lambda>opt. opt) opts r) = rl_codec r \<and>
    rl_Publish (fold (\<lambda>opt. opt) opts r) = rl_Publish r"
  using assms
  by (induction opts arbitrary: r)
     (auto simp: relay_option_ok_def WithPollInterval_def WithBatchSize_def WithBackoff_def
       WithMaxAttempts_def WithRelayClock_def WithHeaderRestorer_def)

lemma NewRelay_wired:
  assumes "NewRelay rnd now txt cfg opts = Inr r" and "rc_Store cfg = Some st"
    and "\<forall>opt \<in> set opts. relay_option_ok opt"
  shows "relay_wired r (op_Fetch st) (op_MarkSent st) (op_MarkFailed st)
           (case op_Terminate st of Some t \<Rightarrow> t | None \<Rightarrow> (\<lambda>_ _ _ s. (None, s)))"
proof -
  obtain pub cd log where cfg: "rc_Publisher cfg = Some pub" "rc_Codec cfg = Some cd"
    "rc_Logger cfg = Some log"
    using assms(1,2) by (auto simp: NewRelay_def split: option.splits)
  show ?thesis
    using assms(1) fold_relay_options_port [OF assms(3)]
    by (auto simp: NewRelay_def cfg assms(2) Let_def relay_wired_def split: option.splits if_splits)
qed

text \<open>A backoff the caller supplies may panic; the default one does not.\<close>

definition backoff_returns :: "(int \<Rightarrow> 'w \<Rightarrow> duration outcome \<times> 'w) \<Rightarrow> bool" where
  "backoff_returns f \<longleftrightarrow> (\<forall>n w p w'. f n w \<noteq> (Panic p, w'))"

lemma default_backoff_returns:
  "backoff_returns (\<lambda>n w. let (u, w') = rnd w in (defaultBackoff n u, w'))"
  by (auto simp: backoff_returns_def defaultBackoff_def rand_Int64N_def backoff_base_pos
      simp flip: not_less split: prod.splits)

lemma fold_relay_options_backoff:
  assumes "\<forall>opt \<in> set opts. relay_option_ok opt"
    and "\<forall>f. WithBackoff f \<in> set opts \<longrightarrow> backoff_returns f" and "backoff_returns (rl_backoff r)"
  shows "backoff_returns (rl_backoff (fold (\<lambda>opt. opt) opts r))"
  using assms
  by (induction opts arbitrary: r)
     (auto simp: relay_option_ok_def WithPollInterval_def WithBatchSize_def WithBackoff_def
       WithMaxAttempts_def WithRelayClock_def WithHeaderRestorer_def)

lemma NewRelay_guarded:
  assumes "NewRelay rnd now txt cfg opts = Inr r" and "\<forall>opt \<in> set opts. relay_option_ok opt"
    and "\<forall>f. WithBackoff f \<in> set opts \<longrightarrow> backoff_returns f"
  shows "guarded r"
proof -
  have "backoff_returns (rl_backoff r)"
    using assms(1)
    by (auto simp: NewRelay_def Let_def split: option.splits if_splits
        intro!: fold_relay_options_backoff [OF assms(2,3)] default_backoff_returns [unfolded Let_def])
  moreover have "rl_maxAttempts r > 0 \<longrightarrow> rl_Terminate r \<noteq> None"
    using assms(1) by (auto simp: NewRelay_def Let_def split: option.splits if_splits)
  ultimately show ?thesis by (simp add: guarded_def backoff_returns_def)
qed

section \<open>The relay on a store that keeps the contract\<close>

lemma delivered_same_event:
  "same_event rec0 rec \<Longrightarrow> delivered D r c rec w \<longleftrightarrow> delivered D r c rec0 w"
  by (simp add: delivered_def relay_message_def same_event_def)

text \<open>A store as its relay sees it: what the contract gives for a cycle, a batch and a drain.\<close>

locale relayed_store = outbox_store fetch mark_sent mark_failed terminate key rows dead owns inv stamp
  for fetch :: "gctx \<Rightarrow> int \<Rightarrow> 's \<Rightarrow> (goerr + orec list) \<times> 's"
    and mark_sent and mark_failed and terminate and key :: "string \<Rightarrow> 'k"
    and rows and dead and owns and inv and stamp
begin

abbreviation wired :: "('s, 'w, 'b) relay \<Rightarrow> bool" where
  "wired r \<equiv> relay_wired r fetch mark_sent mark_failed terminate"

definition reliable :: bool where
  "reliable \<longleftrightarrow> (\<forall>c i s. fst (mark_sent c i s) = None) \<and>
     (\<forall>c i x t s. fst (mark_failed c i x t s) = None) \<and>
     (\<forall>c i x s. fst (terminate c i x s) = None)"

text \<open>Everything but the rows and dead letters of the given keys is as before.\<close>

definition others_kept :: "'k set \<Rightarrow> 's \<Rightarrow> 's \<Rightarrow> bool" where
  "others_kept K s s' \<longleftrightarrow>
     (\<forall>j. key j \<notin> K \<longrightarrow> owns s' j = owns s j) \<and>
     (\<forall>k. k \<notin> K \<longrightarrow> rows s' k = rows s k \<and> dead s' k = dead s k)"

text \<open>The id holds its row; the record the relay works on is that row.\<close>

definition holds :: "'s \<Rightarrow> orec \<Rightarrow> bool" where
  "holds s rec \<longleftrightarrow> owns s (rec_ID rec) \<and> rows s (key (rec_ID rec)) = Some rec"

definition fate_in ::
  "bool \<Rightarrow> int \<Rightarrow> bool \<Rightarrow> orec \<Rightarrow> 's \<Rightarrow> 's \<Rightarrow> bool" where
  "fate_in clean mx acc rec s s' \<longleftrightarrow>
     fate clean mx rec acc (dead s (key (rec_ID rec))) (rows s' (key (rec_ID rec)))
       (dead s' (key (rec_ID rec)))"

lemma others_kept_refl [simp]: "others_kept K s s"
  by (simp add: others_kept_def)

lemma others_kept_trans:
  "others_kept K s t \<Longrightarrow> others_kept L t u \<Longrightarrow> others_kept (K \<union> L) s u"
  by (auto simp: others_kept_def)

lemma sent_step:
  assumes "inv s" and "holds s rec" and "mark_sent c (rec_ID rec) s = (e, s')"
  shows "inv s' \<and> others_kept {key (rec_ID rec)} s s' \<and> fate_in reliable mx True rec s s'"
proof -
  note fr = sent_frame [OF assms(1,3)]
  have "e = None" if reliable using that assms(3) unfolding reliable_def by (metis fst_conv)
  then consider "rows s' = (rows s)(key (rec_ID rec) := None)" | "\<not> reliable" "rows s' = rows s"
    using fr assms sent_owned [OF assms(1)] unfolding holds_def by blast
  then show ?thesis
    by cases (use fr assms(2) in \<open>auto simp: others_kept_def fate_in_def fate_def holds_def\<close>)
qed

lemma failed_step:
  assumes "inv s" and "holds s rec"
    and "mark_failed c (rec_ID rec) x t s = (e, s')" and budget: "mx \<le> 0 \<or> rec_Attempts rec + 1 < mx"
  shows "inv s' \<and> others_kept {key (rec_ID rec)} s s' \<and> fate_in reliable mx acc rec s s'"
proof -
  note fr = failed_frame [OF assms(1,3)]
  have "e = None" if reliable using that assms(3) unfolding reliable_def by (metis fst_conv)
  then consider r' where "rows s' = (rows s)(key (rec_ID rec) := Some r')" "deferred_row rec (stamp t) r'"
    | "\<not> reliable" "rows s' = rows s"
    using fr assms(2,3) failed_owned [OF assms(1)] unfolding holds_def by (metis option.inject)
  then show ?thesis
    by cases (use fr assms(2) budget in \<open>auto simp: others_kept_def fate_in_def fate_def holds_def\<close>)
qed

lemma term_step:
  assumes "inv s" and "holds s rec"
    and "terminate c (rec_ID rec) x s = (e, s')" and budget: "0 < mx" "mx \<le> rec_Attempts rec + 1"
  shows "inv s' \<and> others_kept {key (rec_ID rec)} s s' \<and> fate_in reliable mx acc rec s s'"
proof -
  note fr = term_frame [OF assms(1,3)]
  have "e = None" if reliable using that assms(3) unfolding reliable_def by (metis fst_conv)
  then consider d where "rows s' = (rows s)(key (rec_ID rec) := None)"
      "dead s' = (dead s)(key (rec_ID rec) := Some d)" "dead_row rec x d"
    | "\<not> reliable" "rows s' = rows s" "dead s' = dead s"
    using fr assms(2,3) term_owned [OF assms(1)] unfolding holds_def by (metis option.inject)
  then show ?thesis
    by cases (use fr assms(2) budget in \<open>auto simp: others_kept_def fate_in_def fate_def holds_def\<close>)
qed

text \<open>One cycle on one record, in the shape the induction over a batch needs.\<close>

definition cycle_ok ::
  "('s, 'w, 'b) relay \<Rightarrow> ('w \<Rightarrow> (string \<times> 'b devent) set) \<Rightarrow> gctx \<Rightarrow> orec \<Rightarrow> 's \<Rightarrow> 'w \<Rightarrow>
   unit outcome \<Rightarrow> 's \<Rightarrow> 'w \<Rightarrow> bool" where
  "cycle_ok r D ctx rec s w res s' w' \<longleftrightarrow>
     inv s' \<and> D w \<subseteq> D w' \<and> others_kept {key (rec_ID rec)} s s' \<and>
     fate_in (reliable \<and> res = Ret ()) (rl_maxAttempts r) (delivered D r ctx rec w') rec s s'"

lemma cycle_ok_same:
  assumes "inv s" "holds s rec" "D w \<subseteq> D w'"
  shows "cycle_ok r D ctx rec s w (Panic p) s w'"
  using assms by (simp add: cycle_ok_def fate_in_def holds_def)

lemma cycle_ok_world:
  assumes "cycle_ok r D ctx rec s w1 res s' w'" and "D w \<subseteq> D w1"
  shows "cycle_ok r D ctx rec s w res s' w'"
  using assms by (auto simp: cycle_ok_def)

lemma fail_cycle:
  assumes "inv s" and "holds s rec" and wd: "wired r" and ob: "observes D r"
    and "relay_fail r ctx rec reason (s, w) = (res, (s', w'))"
  shows "cycle_ok r D ctx rec s w res s' w'"
  using assms(5)
proof (cases rule: relay_fail_cases)
  case (no_recorder p)
  then show ?thesis by (simp add: cycle_ok_same [OF assms(1,2)])
next
  case (terminate tm e)
  then have "terminate ctx (rec_ID rec) (rl_errText r reason) s = (e, s')"
    using wd by (simp add: relay_wired_def)
  from term_step [OF assms(1,2) this terminate(1,2)] show ?thesis
    using terminate(5,6) observes_log_err [OF ob] by (simp add: cycle_ok_def)
next
  case (panic p now w1)
  then have "D w \<subseteq> D w'" using observes_now [OF ob] observes_backoff [OF ob] by blast
  then show ?thesis using panic cycle_ok_same [OF assms(1,2)] by simp
next
  case (deferral now w1 d w2 e)
  then have "mark_failed ctx (rec_ID rec) (rl_errText r reason) (now + d) s = (e, s')"
    using wd by (simp add: relay_wired_def)
  note st = failed_step [OF assms(1,2) this deferral(1)]
  have "D w \<subseteq> D w'"
    using observes_now [OF ob deferral(2)] observes_backoff [OF ob deferral(3)]
      observes_log_err [OF ob, of w2] deferral(6) by blast
  with st deferral(5) show ?thesis by (simp add: cycle_ok_def)
qed

lemma body_cycle:
  assumes "inv s" and "holds s rec" and wd: "wired r" and ob: "observes D r"
    and "relay_body r ctx rec (s, w) = (res, (s', w'))"
  shows "cycle_ok r D ctx rec s w res s' w' \<and> (\<forall>p. res = Panic p \<longrightarrow> s' = s)"
  using assms(5)
proof (cases rule: relay_body_cases)
  case (panic p)
  then show ?thesis by (simp add: cycle_ok_same [OF assms(1,2)])
next
  case (panic_publish p c ev)
  then show ?thesis
    using cycle_ok_same [OF assms(1,2), where D = D, OF observes_publish(1) [OF ob panic_publish(1)]]
    by simp
next
  case (decode err)
  then show ?thesis using fail_cycle [OF assms(1-4)] by (auto elim: relay_fail_cases)
next
  case (publish err c ev w1)
  then show ?thesis
    using fail_cycle [OF assms(1-4) publish(2)] observes_publish(1) [OF ob publish(1)]
    by (auto elim: relay_fail_cases intro: cycle_ok_world)
next
  case (sent c ev nm w1 e)
  have "D w1 \<subseteq> D w'" using sent(5) observes_log_err [OF ob] by blast
  moreover have "(rec_Topic rec, ev) \<in> D w1" using observes_publish(2) [OF ob sent(2)] by simp
  ultimately have del: "delivered D r ctx rec w'" using sent(1) by (auto simp: delivered_def)
  have "mark_sent ctx (rec_ID rec) s = (e, s')" using sent(3) wd by (simp add: relay_wired_def)
  from sent_step [OF assms(1,2) this] show ?thesis
    using del sent(4) observes_publish(1) [OF ob sent(2)] \<open>D w1 \<subseteq> D w'\<close>
    by (auto simp: cycle_ok_def)
qed

lemma process_cycle:
  assumes "inv s" and "holds s rec" and wd: "wired r" and ob: "observes D r"
    and "relay_process r ctx rec (s, w) = (res, (s', w'))"
  shows "cycle_ok r D ctx rec s w res s' w'"
proof -
  obtain bres s1 w1 where b: "relay_body r ctx rec (s, w) = (bres, (s1, w1))" by (metis prod_cases3)
  note bc = body_cycle [OF assms(1-4) b]
  show ?thesis
  proof (cases bres)
    case (Ret u)
    then show ?thesis using bc b assms(5) by (simp add: relay_process_def)
  next
    case (Panic p)
    with bc b assms(5) have fl: "relay_fail r ctx rec (Errorf (''panic: '' @ p) [])
        (s, relay_log_panic r rec p w1) = (res, (s', w'))"
      by (simp add: relay_process_def)
    have "D w \<subseteq> D (relay_log_panic r rec p w1)"
      using bc observes_log_panic [OF ob, of w1 rec p] by (auto simp: cycle_ok_def)
    then show ?thesis using fail_cycle [OF assms(1-4) fl] by (blast intro: cycle_ok_world)
  qed
qed

lemma fate_in_kept:
  assumes "fate_in b mx (delivered D r ctx rec w) rec s s1"
    and "others_kept K s1 s'" and "key (rec_ID rec) \<notin> K" and "D w \<subseteq> D w'" and "b' \<Longrightarrow> b"
  shows "fate_in b' mx (delivered D r ctx rec w') rec s s'"
  using assms
  by (auto simp: fate_in_def others_kept_def intro: fate_mono delivered_mono)

text \<open>A whole batch: the keys are distinct, so each cycle leaves the others' rows alone.\<close>

lemma batch_cycles:
  assumes "inv s" and "distinct (map (key \<circ> rec_ID) recs)" and "\<forall>rec \<in> set recs. holds s rec"
    and wd: "wired r" and ob: "observes D r"
    and "relay_process_all r ctx recs (s, w) = (res, (s', w'))"
  shows "inv s' \<and> D w \<subseteq> D w' \<and> others_kept (set (map (key \<circ> rec_ID) recs)) s s' \<and>
     (\<forall>rec \<in> set recs. fate_in (reliable \<and> res = Ret ()) (rl_maxAttempts r)
        (delivered D r ctx rec w') rec s s')"
  using assms(1-3,6)
proof (induction recs arbitrary: s w)
  case Nil
  then show ?case by simp
next
  case (Cons rec recs)
  obtain pres s1 w1 where p: "relay_process r ctx rec (s, w) = (pres, (s1, w1))" by (metis prod_cases3)
  have cy: "cycle_ok r D ctx rec s w pres s1 w1"
    using process_cycle [OF Cons.prems(1) _ wd ob p] Cons.prems(3) by simp
  then have kept: "others_kept {key (rec_ID rec)} s s1" by (simp add: cycle_ok_def)
  have disj: "key (rec_ID rec) \<notin> set (map (key \<circ> rec_ID) recs)" using Cons.prems(2) by auto
  have held: "rows s (key (rec_ID q)) = Some q \<and> key (rec_ID q) \<noteq> key (rec_ID rec)"
    if "q \<in> set recs" for q
    using that disj Cons.prems(3) by (auto simp: holds_def image_iff)
  have holds1: "\<forall>q \<in> set recs. holds s1 q"
    using kept held Cons.prems(3) by (auto simp: holds_def others_kept_def)
  show ?case
  proof (cases pres)
    case (Panic pp)
    then have "res = Panic pp" "s' = s1" "w' = w1" using Cons.prems(4) p by simp_all
    moreover have "fate_in False mx acc q s s1" if "q \<in> set recs" for q acc mx
      using held [OF that] kept by (simp add: fate_in_def others_kept_def)
    ultimately show ?thesis
      using cy Panic others_kept_trans [OF kept others_kept_refl] by (auto simp: cycle_ok_def)
  next
    case (Ret u)
    then have rest: "relay_process_all r ctx recs (s1, w1) = (res, (s', w'))"
      using Cons.prems(4) p by simp
    have "inv s1" "D w \<subseteq> D w1" using cy by (auto simp: cycle_ok_def)
    have "distinct (map (key \<circ> rec_ID) recs)" using Cons.prems(2) by (simp add: comp_def)
    note ih = Cons.IH [OF \<open>inv s1\<close> this holds1 rest]
    have fr: "fate_in (reliable \<and> res = Ret ()) (rl_maxAttempts r) (delivered D r ctx rec w') rec s s'"
    proof (rule fate_in_kept)
      show "fate_in (reliable \<and> pres = Ret ()) (rl_maxAttempts r) (delivered D r ctx rec w1) rec s s1"
        using cy by (simp add: cycle_ok_def)
      show "others_kept (set (map (key \<circ> rec_ID) recs)) s1 s'" "D w1 \<subseteq> D w'" using ih by auto
    qed (use disj Ret in simp_all)
    have frs: "fate_in b mx acc q s s'" if "q \<in> set recs" "fate_in b mx acc q s1 s'" for q b mx acc
      using that held [OF that(1)] kept by (simp add: fate_in_def others_kept_def)
    have "others_kept ({key (rec_ID rec)} \<union> set (map (key \<circ> rec_ID) recs)) s s'"
      using ih others_kept_trans [OF kept] by blast
    then have ok: "others_kept (set (map (key \<circ> rec_ID) (rec # recs))) s s'" by simp
    have dd: "D w \<subseteq> D w'" using ih \<open>D w \<subseteq> D w1\<close> by blast
    show ?thesis
      using ih by (intro conjI ballI ok dd) (auto intro: fr frs)
  qed
qed

lemma fetched_rows:
  assumes "inv s" and "fetch ctx n s = (fres, s1)"
  shows "inv s1" "dead s1 k = dead s k" "rows s k = None \<Longrightarrow> rows s1 k = None"
    "rows s k = Some rec0 \<Longrightarrow> \<exists>rec. rows s1 k = Some rec \<and> same_delivery rec0 rec"
proof -
  have rel: "rel_option same_delivery (rows s k) (rows s1 k)" using fetch_frame [OF assms] by auto
  then show "rows s k = None \<Longrightarrow> rows s1 k = None" by (cases "rows s1 k") auto
  from rel show "\<exists>rec. rows s1 k = Some rec \<and> same_delivery rec0 rec" if "rows s k = Some rec0"
    using that by (cases "rows s1 k") auto
qed (use fetch_frame [OF assms] in auto)

text \<open>A row the store has after Fetch meets a fate in the batch, or is left alone by it.\<close>

lemma batch_fate:
  assumes "inv s" and "distinct (map (key \<circ> rec_ID) recs)" and own: "\<forall>rec \<in> set recs. holds s rec"
    and "wired r" and "observes D r" and "relay_process_all r ctx recs (s, w) = (res, (s', w'))"
  shows "rows s k = Some rec \<Longrightarrow>
      fate False (rl_maxAttempts r) rec (delivered D r ctx rec w') (dead s k) (rows s' k) (dead s' k)"
    and "rows s k = None \<Longrightarrow> rows s' k = None \<and> dead s' k = dead s k"
proof -
  note bc = batch_cycles [OF assms]
  let ?K = "set (map (key \<circ> rec_ID) recs)"
  show "rows s' k = None \<and> dead s' k = dead s k" if "rows s k = None"
  proof -
    have "k \<notin> ?K" using that own by (auto simp: holds_def)
    then show ?thesis using that bc by (auto simp: others_kept_def)
  qed
  show "fate False (rl_maxAttempts r) rec (delivered D r ctx rec w') (dead s k) (rows s' k) (dead s' k)"
    if row: "rows s k = Some rec"
  proof (cases "k \<in> ?K")
    case True
    then obtain q where q: "q \<in> set recs" "k = key (rec_ID q)" by auto
    with own row have "q = rec" by (auto simp: holds_def)
    with bc q have "fate_in (reliable \<and> res = Ret ()) (rl_maxAttempts r) (delivered D r ctx rec w') rec s s'" by blast
    with q \<open>q = rec\<close> show ?thesis by (auto simp: fate_in_def intro: fate_mono)
  next
    case False
    then have "rows s' k = Some rec" "dead s' k = dead s k" using bc row by (auto simp: others_kept_def)
    then show ?thesis by (metis fate_unclean)
  qed
qed

text \<open>
  One drain. Every row the store had is accounted for: it is still there with the same
  delivery data (possibly claimed under a new id), or it met one of the fates. No row and no
  dead letter appears from nowhere.
\<close>

lemma drain_accounts:
  assumes "inv s" and wd: "wired r" and ob: "observes D r"
    and dr: "drainOnce r ctx (s, w) = (res, (s', w'))"
  shows "inv s' \<and> D w \<subseteq> D w' \<and>
    (\<forall>k. rows s k = None \<longrightarrow> rows s' k = None \<and> dead s' k = dead s k) \<and>
    (\<forall>k rec0. rows s k = Some rec0 \<longrightarrow> (\<exists>rec. same_delivery rec0 rec \<and>
       fate False (rl_maxAttempts r) rec (delivered D r ctx rec w') (dead s k) (rows s' k) (dead s' k)))"
proof -
  obtain fres s1 where f: "fetch ctx (rl_batchSize r) s = (fres, s1)" by (metis surj_pair)
  note ff = fetched_rows [OF assms(1) f]
  have f': "rl_Fetch r ctx (rl_batchSize r) s = (fres, s1)" using f wd by (simp add: relay_wired_def)
  show ?thesis
  proof (cases fres)
    case (Inl err)
    then have "s' = s1" "w' = w" using dr f' by (simp_all add: drainOnce_def)
    then show ?thesis using ff by (metis fate_unclean order_refl)
  next
    case (Inr recs)
    obtain bres where b: "relay_process_all r ctx recs (s1, w) = (bres, (s', w'))"
      using dr f' Inr by (auto simp: drainOnce_def split: prod.splits outcome.splits)
    have own: "distinct (map (key \<circ> rec_ID) recs)" "\<forall>rec \<in> set recs. holds s1 rec"
      using fetch_owned [OF assms(1), of ctx "rl_batchSize r" recs s1] f Inr by (auto simp: holds_def)
    note bf = batch_fate [OF ff(1) own wd ob b]
    have "inv s'" "D w \<subseteq> D w'" using batch_cycles [OF ff(1) own wd ob b] by auto
    moreover have "rows s' k = None \<and> dead s' k = dead s k" if "rows s k = None" for k
      using bf(2) ff(2,3) that by metis
    moreover have "\<exists>rec. same_delivery rec0 rec \<and> fate False (rl_maxAttempts r) rec
        (delivered D r ctx rec w') (dead s k) (rows s' k) (dead s' k)" if "rows s k = Some rec0" for k rec0
      using bf(1) ff(2,4) that by metis
    ultimately show ?thesis by blast
  qed
qed

text \<open>
  What has become of the record filed under \<open>k\<close>: its row is still there with the same event, or it
  is gone and replaced by a dead letter with the same event, or gone and delivered.
\<close>

definition accounted_in ::
  "('w \<Rightarrow> (string \<times> 'b devent) set) \<Rightarrow> ('s, 'w, 'b) relay \<Rightarrow> gctx \<Rightarrow> 'k \<Rightarrow> orec \<Rightarrow> 's \<Rightarrow> 'w \<Rightarrow> bool" where
  "accounted_in D r ctx k rec s w \<longleftrightarrow>
     (\<exists>rec'. rows s k = Some rec' \<and> same_event rec rec') \<or>
     (rows s k = None \<and> (\<exists>d. dead s k = Some d \<and> same_event rec (dl_Record d))) \<or>
     (rows s k = None \<and> delivered D r ctx rec w)"

lemma accounted_mono:
  "accounted_in D r ctx k rec s w \<Longrightarrow> D w \<subseteq> D w' \<Longrightarrow> accounted_in D r ctx k rec s w'"
  using delivered_mono [of D r ctx rec w w'] by (auto simp: accounted_in_def)

lemma fate_accounted:
  assumes "fate False mx rec (delivered D r c rec w) (dead s k) (rows s' k) (dead s' k)" and "same_event rec0 rec"
  shows "accounted_in D r c k rec0 s' w"
  using assms
  by (auto simp: fate_def accounted_in_def deferred_row_def dead_row_def delivered_same_event [OF assms(2)]
      intro: same_event_trans)

lemma drain_keeps_accounts:
  assumes "inv s" and "wired r" and "observes D r"
    and dr: "drainOnce r ctx (s, w) = (res, (s', w'))" and acc: "accounted_in D r ctx k rec s w"
  shows "accounted_in D r ctx k rec s' w'"
proof -
  note da = drain_accounts [OF assms(1-4)]
  consider (row) rec' where "rows s k = Some rec'" "same_event rec rec'" | (gone) "rows s k = None"
    using acc by (auto simp: accounted_in_def)
  then show ?thesis
  proof cases
    case row
    with da obtain q where q: "same_delivery rec' q"
      "fate False (rl_maxAttempts r) q (delivered D r ctx q w') (dead s k) (rows s' k) (dead s' k)"
      by blast
    then have "same_event rec q" using row by (auto simp: same_delivery_def intro: same_event_trans)
    with q(2) show ?thesis by (rule fate_accounted)
  next
    case gone
    with da have "rows s' k = None" "dead s' k = dead s k" "D w \<subseteq> D w'" by auto
    with gone acc show ?thesis by (auto simp: accounted_in_def intro: delivered_mono)
  qed
qed

lemma loop_keeps_accounts:
  assumes "inv s" and "wired r" and "observes D r"
    and "relay_loop r ctx evs (s, w) = (res, (s', w'))" and "accounted_in D r ctx k rec s w"
  shows "accounted_in D r ctx k rec s' w'"
  using assms(1,4,5)
proof (induction evs arbitrary: s w)
  case (Cons ev evs)
  show ?case
  proof (cases ev)
    case TickerFired
    obtain dres s1 w1 where d: "drainOnce r ctx (s, w) = (dres, (s1, w1))" by (metis prod_cases3)
    have a: "accounted_in D r ctx k rec s1 w1"
      by (rule drain_keeps_accounts [OF Cons.prems(1) assms(2,3) d Cons.prems(3)])
    have u: "inv s1" using drain_accounts [OF Cons.prems(1) assms(2,3) d] by simp
    have log: "accounted_in D r ctx k rec s1 (relay_log_drain r x w1)" for x
      using a observes_log_drain [OF assms(3)] by (rule accounted_mono)
    show ?thesis
      using Cons.prems(2) TickerFired d Cons.IH [OF u _ a] Cons.IH [OF u _ log] a
      by (auto split: outcome.splits option.splits)
  qed (use Cons in simp)
qed simp

text \<open>A whole Run, on any store that keeps the contract, loses no event.\<close>

lemma Run_accounts:
  assumes "inv s" and "wired r" and "observes D r"
    and "relay_Run r ctx evs running (s, w) = (res, running', (s', w'))" and "rows s k = Some rec"
  shows "accounted_in D r ctx k rec s' w'"
proof -
  have acc: "accounted_in D r ctx k rec s w" using assms(5) by (simp add: accounted_in_def)
  consider "s' = s" "w' = w" | res0 where "relay_loop r ctx evs (s, w) = (res0, (s', w'))"
    using assms(4) by (auto simp: relay_Run_def split: if_splits prod.splits run_result.splits)
  then show ?thesis
    by cases (use acc loop_keeps_accounts [OF assms(1-3)] in blast)+
qed

text \<open>A clean drain settles every record it fetched.\<close>

lemma drain_settles:
  assumes "inv s" and wd: "wired r" and ob: "observes D r" and reliable
    and dr: "drainOnce r ctx (s, w) = (Ret None, (s', w'))"
  obtains recs s1 where "fetch ctx (rl_batchSize r) s = (Inr recs, s1)"
    and "\<forall>rec \<in> set recs. fate_in True (rl_maxAttempts r) (delivered D r ctx rec w') rec s1 s'"
    and "others_kept (set (map (key \<circ> rec_ID) recs)) s1 s'" and "inv s'"
proof -
  obtain recs s1 where f: "fetch ctx (rl_batchSize r) s = (Inr recs, s1)"
    and b: "relay_process_all r ctx recs (s1, w) = (Ret (), (s', w'))"
    using dr wd by (auto simp: drainOnce_def relay_wired_def split: prod.splits outcome.splits sum.splits)
  have own: "distinct (map (key \<circ> rec_ID) recs)" "\<forall>rec \<in> set recs. holds s1 rec"
    using fetch_owned [OF assms(1) f] by (auto simp: holds_def)
  have "inv s1" using fetch_frame [OF assms(1) f] by simp
  from batch_cycles [OF this own wd ob b] show ?thesis using that [OF f] assms(4) by auto
qed

end

end
