(* ===== verification/Outbox_Relay.thy ===== *)
theory Outbox_Relay
  imports Memory_Outbox Relay
begin

text \<open>
  The relay of \<^verbatim>\<open>eventbus/outbox/relay.go\<close> running on the in-process store of
  \<^verbatim>\<open>eventbus/outbox/memory.go\<close>: what a drain and a whole Run do to the backlog. The facts
  about a drain come from the store contract through the interpretations \<open>mem_store\<close> and
  \<open>mem_relay\<close>.
\<close>

abbreviation mem_wired :: "('b memory, 'w, 'b) relay \<Rightarrow> bool" where
  "mem_wired r \<equiv> relay_wired r mem_Fetch mem_MarkSent mem_MarkFailed mem_Terminate"

definition mem_port :: "'b memory outbox_port" where
  "mem_port = \<lparr>op_Fetch = mem_Fetch, op_MarkSent = mem_MarkSent, op_MarkFailed = mem_MarkFailed,
               op_Terminate = Some mem_Terminate\<rparr>"

interpretation mem_relay: relayed_store mem_Fetch mem_MarkSent mem_MarkFailed mem_Terminate
  "\<lambda>i. i" mem_row mem_dlq mem_owns mem_uniq "\<lambda>t. t"
  by unfold_locales

lemma mem_reliable: "mem_relay.reliable TYPE('b)"
  by (simp add: mem_relay.reliable_def mem_MarkSent_def mem_MarkFailed_def mem_Terminate_def
      mem_call_now_def Let_def split: option.split)

section \<open>Panics\<close>

text \<open>
  C30: A relay from NewRelay survives panics of the codec, the header restorer and the
  publisher: whatever those do on whatever records, Run drains on every tick and returns
  exactly when its context ends, with the context's error, and it is then free to run again.
  (Every backoff passed to WithBackoff has to return.)
\<close>

theorem relay_Run_survives_panics:
  assumes "NewRelay rnd now txt cfg opts = Inr r" and "\<forall>opt \<in> set opts. relay_option_ok opt"
    and "\<forall>f. WithBackoff f \<in> set opts \<longrightarrow> backoff_returns f" and "0 < rl_pollInterval r"
  shows "\<exists>g'. relay_Run r ctx (replicate n TickerFired @ [CtxDone e]) False g = (Returned e, False, g')"
  using relay_Run_returns [OF NewRelay_guarded [OF assms(1-3)] assms(4)] .

section \<open>No event is lost\<close>

text \<open>What has become of the record filed under \<open>i\<close>.\<close>

definition accounted ::
  "('w \<Rightarrow> (string \<times> 'b devent) set) \<Rightarrow> ('b memory, 'w, 'b) relay \<Rightarrow> gctx \<Rightarrow> string \<Rightarrow> orec \<Rightarrow>
   'b memory \<Rightarrow> 'w \<Rightarrow> bool" where
  "accounted D r ctx i rec m w \<longleftrightarrow>
     (\<exists>rec'. mem_row m i = Some rec' \<and> same_event rec rec') \<or>
     (mem_row m i = None \<and> (\<exists>d. mem_DeadLettered m i = Some d \<and> same_event rec (dl_Record d))) \<or>
     (mem_row m i = None \<and> delivered D r ctx rec w)"

lemma mem_DeadLettered_eq: "mem_DeadLettered m = mem_dlq m"
  by (rule ext) (simp add: mem_DeadLettered_def split: option.split)

lemma accounted_eq: "accounted D r ctx i rec m w = mem_relay.accounted_in D r ctx i rec m w"
  by (simp add: accounted_def mem_relay.accounted_in_def mem_DeadLettered_eq)

text \<open>
  C6: A Run of the relay on the in-process store loses no event. Whatever the ticks, the
  codec, the publisher and the panics, every record that was active before is, whenever the
  Run ends or waits: still active with the same event, or in the dead-letter map with the
  same event, or its event has been accepted by the publisher.
\<close>

theorem relay_Run_no_loss:
  assumes "NewRelay rnd now txt cfg opts = Inr r" and "rc_Store cfg = Some mem_port"
    and "\<forall>opt \<in> set opts. relay_option_ok opt" and "observes D r" and "mem_uniq m"
    and "relay_Run r ctx evs running (m, w) = (res, running', (m', w'))"
    and "mem_row m i = Some rec"
  shows "accounted D r ctx i rec m' w'"
proof -
  have wd: "mem_wired r" using NewRelay_wired [OF assms(1-3)] by (simp add: mem_port_def)
  show ?thesis
    unfolding accounted_eq by (rule mem_relay.Run_accounts [OF assms(5) wd assms(4,6,7)])
qed

text \<open>
  A relay for concrete evaluations: the world is the list of published (topic, event id)
  pairs, the publisher rejects topic \<open>''down''\<close> and panics on topic \<open>''bad''\<close>.
\<close>

type_synonym example_world = "(string \<times> unit devent) list"

definition example_publish ::
  "gctx \<Rightarrow> string \<Rightarrow> unit devent list \<Rightarrow> example_world \<Rightarrow> goerr option outcome \<times> example_world" where
  "example_publish c t evs w =
     (if t = ''down'' then (Ret (Some (ErrNew ''broker down'')), w)
      else if t = ''bad'' then (Panic ''nil map'', w)
      else (Ret None, w @ map (Pair t) evs))"

definition example_relay_config :: "(unit memory, example_world, unit) relay_config" where
  "example_relay_config = \<lparr>rc_Store = Some mem_port, rc_Publisher = Some example_publish,
     rc_Codec = Some example_codec, rc_Logger = Some (\<lambda>msg f w. w)\<rparr>"

definition example_relay :: "(unit memory, example_world, unit) relay" where
  "example_relay = \<lparr>rl_Fetch = mem_Fetch, rl_MarkSent = mem_MarkSent, rl_MarkFailed = mem_MarkFailed,
     rl_Terminate = Some mem_Terminate, rl_Publish = example_publish, rl_codec = example_codec,
     rl_log = (\<lambda>msg f w. w), rl_errText = (\<lambda>e. ''error''), rl_pollInterval = second,
     rl_batchSize = 100, rl_maxAttempts = 2,
     rl_backoff = (\<lambda>n w. let (u, w') = (0, w) in (defaultBackoff n u, w')),
     rl_now = (\<lambda>w. (0, w)), rl_headerRestorer = None\<rparr>"

lemma example_relay_new:
  "NewRelay (\<lambda>w. (0, w)) (\<lambda>w. (0, w)) (\<lambda>e. ''error'') example_relay_config [WithMaxAttempts 2]
     = Inr example_relay"
  by (simp add: NewRelay_def example_relay_config_def mem_port_def WithMaxAttempts_def
      example_relay_def)

lemma example_relay_observes: "observes set example_relay"
  by (auto simp: observes_def example_relay_def example_publish_def)

lemma example_relay_opts: "\<forall>opt \<in> set [WithMaxAttempts 2]. relay_option_ok opt"
  by (auto simp: relay_option_ok_def)

lemma example_relay_guarded: "guarded example_relay"
proof -
  have "defaultBackoff n 0 \<noteq> Panic p" for n p
    using backoff_base_pos [of n] by (simp add: defaultBackoff_def rand_Int64N_def)
  then show ?thesis by (simp add: guarded_def example_relay_def)
qed

text \<open>A store whose only record makes the example codec panic.\<close>

definition example_poisoned :: "unit memory" where
  "example_poisoned = example_memory\<lparr>mem_now := (\<lambda>n. 60 * second + int n),
     mem_records := [staged_record ''p1'' ''t'' 0 (example_event ''x'') (new_message ''x'' ''boom'')]\<rparr>"

text \<open>The second record of the example backlog.\<close>

definition example_second :: orec where
  "example_second =
     staged_record ''mem-outbox-2'' ''t'' 100 (example_event ''b'') (new_message ''b'' ''b'')"

theorem relay_Run_no_loss_witness:
  "let (res, run', (m', w')) = relay_Run example_relay background [TickerFired, CtxDone CtxCanceled]
                                 False (example_backlog, [])
   in accounted set example_relay background ''mem-outbox-2''
        example_second m' w' \<and> res = Returned CtxCanceled \<and> \<not> run'"
proof -
  let ?r = "relay_Run example_relay background [TickerFired, CtxDone CtxCanceled] False (example_backlog, [])"
  have u: "mem_uniq example_backlog" by (simp add: mem_uniq_def example_backlog_records staged_record_def)
  have row: "mem_row example_backlog ''mem-outbox-2'' = Some example_second"
    by (simp add: mem_row_def example_backlog_records staged_record_def example_second_def)
  obtain res run' m' w' where r: "?r = (res, run', (m', w'))" by (metis prod_cases4)
  have "accounted set example_relay background ''mem-outbox-2''
        example_second m' w'"
    using relay_Run_no_loss [OF example_relay_new _ example_relay_opts example_relay_observes u r row]
    by (simp add: example_relay_config_def)
  moreover have "res = Returned CtxCanceled \<and> \<not> run'"
    using r relay_Run_returns [OF example_relay_guarded, of background 1 CtxCanceled "(example_backlog, [])"]
    by (auto simp: example_relay_def second_def)
  ultimately show ?thesis by (simp add: r)
qed

section \<open>The attempt budget\<close>

text \<open>
  With a budget, an active record has used up less than it, and a dead letter exactly it.
\<close>

definition within_budget :: "int \<Rightarrow> 'b memory \<Rightarrow> bool" where
  "within_budget mx m \<longleftrightarrow>
     (\<forall>rec \<in> set (mem_records m). rec_Attempts rec < mx) \<and>
     (\<forall>i d. mem_dlq m i = Some d \<longrightarrow> dl_Attempts d = mx)"

lemma mem_uniq_row: "mem_uniq m \<Longrightarrow> rec \<in> set (mem_records m) \<Longrightarrow> mem_row m (rec_ID rec) = Some rec"
  by (auto simp: mem_uniq_def mem_row_def intro: find_key_distinct)

lemma fate_within_budget:
  assumes "fate b mx rec acc d0 row d1" and "rec_Attempts rec < mx" and "0 < mx"
    and "\<And>d. d0 = Some d \<Longrightarrow> dl_Attempts d = mx"
  shows "(\<forall>r'. row = Some r' \<longrightarrow> rec_Attempts r' < mx) \<and> (\<forall>d. d1 = Some d \<longrightarrow> dl_Attempts d = mx)"
  using assms by (auto simp: fate_def deferred_row_def dead_row_def)

lemma mem_drain_within_budget:
  assumes "mem_uniq m" and "mem_wired r" and "observes D r"
    and dr: "drainOnce r ctx (m, w) = (res, (m', w'))"
    and bud: "within_budget (rl_maxAttempts r) m" and pos: "0 < rl_maxAttempts r"
  shows "within_budget (rl_maxAttempts r) m'"
proof -
  note da = mem_relay.drain_accounts [OF assms(1-4)]
  have "(\<forall>r'. mem_row m' i = Some r' \<longrightarrow> rec_Attempts r' < rl_maxAttempts r) \<and>
        (\<forall>d. mem_dlq m' i = Some d \<longrightarrow> dl_Attempts d = rl_maxAttempts r)" for i
  proof (cases "mem_row m i")
    case None
    with da bud show ?thesis by (auto simp: within_budget_def)
  next
    case (Some rec0)
    with da obtain q where "same_delivery rec0 q" and
      f: "fate False (rl_maxAttempts r) q (delivered D r ctx q w') (mem_dlq m i) (mem_row m' i) (mem_dlq m' i)"
      by blast
    moreover have "rec_Attempts rec0 < rl_maxAttempts r"
      using Some bud by (auto simp: within_budget_def mem_row_def dest: find_Some_in)
    ultimately have "rec_Attempts q < rl_maxAttempts r" by (simp add: same_delivery_def)
    with f show ?thesis using bud pos by (intro fate_within_budget) (auto simp: within_budget_def)
  qed
  moreover have "mem_uniq m'" using da by simp
  ultimately show ?thesis by (auto simp: within_budget_def dest: mem_uniq_row)
qed

text \<open>The histories of a store that clients stage into and relays with this budget drain.\<close>

inductive served :: "('b memory, 'w, 'b) relay \<Rightarrow> 'b memory \<times> 'w \<Rightarrow> 'b memory \<times> 'w \<Rightarrow> bool"
  for r :: "('b memory, 'w, 'b) relay" and g :: "'b memory \<times> 'w" where
  served_refl: "served r g g"
| served_stage: "served r g (m, w) \<Longrightarrow> mem_Stage ctx topic events m = (res, m') \<Longrightarrow>
    inj_on (mem_gen m) {..< mem_ids m'} \<Longrightarrow> served r g (m', w)"
| served_drain: "served r g (m, w) \<Longrightarrow> drainOnce r ctx (m, w) = (res, (m', w')) \<Longrightarrow>
    served r g (m', w')"

lemma mem_Fetch_inv: "mem_inv m \<Longrightarrow> mem_inv (snd (mem_Fetch c n m))"
  by (rule mem_inv_Fetch)

lemma mem_wired_writes_keep_inv: "mem_wired r \<Longrightarrow> rl_maxAttempts r > 0 \<Longrightarrow> writes_keep r mem_inv"
  by (auto simp: writes_keep_def relay_wired_def
      intro: mem_inv_MarkSent mem_inv_MarkFailed mem_inv_Terminate)

lemma within_budget_Stage:
  assumes "mem_Stage ctx topic events m = (res, m')" and "0 < mx" and "within_budget mx m"
  shows "within_budget mx m'"
  using assms(1)
proof (cases rule: mem_Stage_cases)
  case (ok pending)
  then have "rec \<in> set (mem_records m) \<or> rec_Attempts rec = 0" if "rec \<in> set (mem_records m')" for rec
    using that by (auto simp: mem_record_of_def set_zip)
  then have "rec_Attempts rec < mx" if "rec \<in> set (mem_records m')" for rec
    using that assms(2,3) by (force simp: within_budget_def)
  then show ?thesis using assms(3) ok(5) by (simp add: within_budget_def)
qed (use assms in \<open>simp_all add: within_budget_def\<close>)

lemma served_keeps_budget:
  assumes "served r (m0, w0) (m, w)" and "mem_wired r" and "observes D r" and "0 < rl_maxAttempts r"
    and "mem_inv m0" and "within_budget (rl_maxAttempts r) m0"
  shows "mem_inv m \<and> within_budget (rl_maxAttempts r) m"
  using assms(1)
proof (induction "(m, w)" arbitrary: m w rule: served.induct)
  case served_refl
  then show ?case using assms by simp
next
  case (served_stage m w ctx topic events res m')
  then show ?case using within_budget_Stage [OF _ assms(4)] mem_inv_Stage by blast
next
  case (served_drain m w ctx res m' w')
  have fetch: "mem_inv s \<Longrightarrow> mem_inv (snd (rl_Fetch r c n s))" for c n s
    using assms(2) mem_inv_Fetch by (simp add: relay_wired_def)
  have "mem_inv m'"
    using drainOnce_keeps [OF mem_wired_writes_keep_inv [OF assms(2,4)] _ fetch] served_drain
    by blast
  moreover have "mem_uniq m" using served_drain mem_inv_uniq by blast
  ultimately show ?case using mem_drain_within_budget [OF _ assms(2,3) served_drain(3)] served_drain assms(4) by blast
qed

text \<open>
  C16: With a positive attempt budget, in every history of staging calls and drains that
  starts at a store NewMemory has built, no active record has counted more failures than the
  budget, and every dead letter has counted the budget, or at most one more: no record is
  given up before its budget is used and none is retried beyond it. The store invariant
  (unique ids, no id both active and dead, the size limit) holds throughout. (The bounds
  hold for the comment on WithMaxAttempts, which grants the failure after the cap, and for
  the code, which does not.)
\<close>

theorem served_within_budget:
  assumes "NewMemory now (Some cd) opts = Inr m0" and "\<forall>opt \<in> set opts. mem_option opt"
    and "served r (m0, w0) (m, w)" and "mem_wired r" and "observes D r" and "0 < rl_maxAttempts r"
  shows "mem_inv m \<and>
    (\<forall>rec \<in> set (mem_records m). rec_Attempts rec \<le> rl_maxAttempts r) \<and>
    (\<forall>i d. mem_dlq m i = Some d \<longrightarrow>
       rl_maxAttempts r \<le> dl_Attempts d \<and> dl_Attempts d \<le> rl_maxAttempts r + 1)"
proof -
  have "mem_inv m0" "within_budget (rl_maxAttempts r) m0"
    using NewMemory_initial [OF assms(1,2)] by (simp_all add: mem_inv_def within_budget_def)
  with served_keeps_budget [OF assms(3-6)] have "mem_inv m" and "within_budget (rl_maxAttempts r) m"
    by simp_all
  then show ?thesis by (auto simp: within_budget_def less_imp_le)
qed

theorem served_within_budget_witness:
  "\<exists>m w. served example_relay (example_memory, []) (m, w) \<and> mem_inv m \<and>
     (\<forall>rec \<in> set (mem_records m). rec_Attempts rec \<le> 2)"
proof -
  have new: "NewMemory (\<lambda>n. 100 + int n) (Some example_codec) [mem_WithMaxSize 3] = Inr example_memory"
    by (simp add: NewMemory_def mem_WithMaxSize_def example_memory_def)
  have opts: "\<forall>opt \<in> set [mem_WithMaxSize 3 :: unit memory_option]. mem_option opt"
    by (auto simp: mem_option_def)
  obtain res m' w' where d: "drainOnce example_relay background (example_backlog, []) = (res, (m', w'))"
    by (metis prod_cases3)
  have "served example_relay (example_memory, []) (example_backlog, [])"
    unfolding example_backlog_def
    by (rule served.served_stage [OF served.served_refl prod.collapse [symmetric]])
       (simp add: example_memory_def mem_Stage_def mem_call_now_def mem_gen_def
         mem_stage_one_def example_codec_def example_event_def mem_append_staged_spec default_idGen_inj)
  then have sv: "served example_relay (example_memory, []) (m', w')"
    by (rule served.served_drain [OF _ d])
  have wd: "mem_wired example_relay" by (simp add: relay_wired_def example_relay_def)
  have mx: "rl_maxAttempts example_relay = 2" by (simp add: example_relay_def)
  show ?thesis
    using served_within_budget [OF new opts sv wd example_relay_observes] sv by (auto simp: mx)
qed

lemma example_relay_no_backoff:
  "\<forall>f. WithBackoff f \<in> set [WithMaxAttempts 2 :: (unit memory, example_world, unit) relay_option] \<longrightarrow> backoff_returns f"
proof (intro allI impI)
  fix f assume "WithBackoff f \<in> set [WithMaxAttempts 2 :: (unit memory, example_world, unit) relay_option]"
  then have "rl_maxAttempts (WithBackoff f (example_relay\<lparr>rl_maxAttempts := 0\<rparr>)) =
      rl_maxAttempts (WithMaxAttempts 2 (example_relay\<lparr>rl_maxAttempts := 0\<rparr>))" by simp
  then show "backoff_returns f" by (simp add: WithBackoff_def WithMaxAttempts_def)
qed

theorem relay_Run_survives_panics_witness:
  "\<exists>g'. relay_Run example_relay background (replicate 5 TickerFired @ [CtxDone CtxCanceled]) False
     (example_poisoned, []) = (Returned CtxCanceled, False, g')"
proof -
  have "0 < rl_pollInterval example_relay" by (simp add: example_relay_def second_def)
  with relay_Run_survives_panics [OF example_relay_new example_relay_opts example_relay_no_backoff] show ?thesis by blast
qed

section \<open>Poison records\<close>

text \<open>
  A store in which every record is due whenever the relay looks: the schedules that failures
  set are in the past of the store's clock. The batch holds the whole backlog.
\<close>

definition all_due :: "(nat \<Rightarrow> time) \<Rightarrow> int \<Rightarrow> 'b memory \<Rightarrow> bool" where
  "all_due clock batch m \<longleftrightarrow>
     mem_now m = clock \<and> 0 < batch \<and> int (length (mem_records m)) \<le> batch \<and>
     (\<forall>rec \<in> set (mem_records m). \<forall>j. rec_AvailableAt rec \<le> clock j)"

definition waits_elapsed :: "(nat \<Rightarrow> time) \<Rightarrow> ('b memory, 'w, 'b) relay \<Rightarrow> bool" where
  "waits_elapsed clock r \<longleftrightarrow>
     (\<forall>n w d w' j. rl_backoff r n (snd (rl_now r w)) = (Ret d, w') \<longrightarrow> fst (rl_now r w) + d \<le> clock j)"

lemma set_update_first: "set (update_first p f xs) \<subseteq> set xs \<union> f ` {x \<in> set xs. p x}"
  by (induction xs) auto

lemma all_due_MarkSent: "all_due clock n m \<Longrightarrow> all_due clock n (snd (mem_MarkSent c i m))"
proof -
  assume a: "all_due clock n m"
  have "int (length (remove_first (\<lambda>r. rec_ID r = i) (mem_records m))) \<le> n"
    using a length_remove_first [of "\<lambda>r. rec_ID r = i" "mem_records m"] by (auto simp: all_due_def)
  then show ?thesis
    using a set_remove_first [of "\<lambda>r. rec_ID r = i" "mem_records m"]
    by (auto simp: all_due_def mem_MarkSent_def)
qed

lemma all_due_Terminate: "all_due clock n m \<Longrightarrow> all_due clock n (snd (mem_Terminate c i x m))"
  using all_due_MarkSent [of clock n m c i]
  by (auto simp: all_due_def mem_MarkSent_def mem_Terminate_def mem_call_now_def split: option.split)

lemma all_due_MarkFailed:
  "all_due clock n m \<Longrightarrow> \<forall>j. t \<le> clock j \<Longrightarrow> all_due clock n (snd (mem_MarkFailed c i x t m))"
proof -
  assume a: "all_due clock n m" and t: "\<forall>j. t \<le> clock j"
  let ?f = "\<lambda>r. r\<lparr>rec_Attempts := rec_Attempts r + 1, rec_AvailableAt := t\<rparr>"
  have "set (update_first (\<lambda>r. rec_ID r = i) ?f (mem_records m)) \<subseteq>
      set (mem_records m) \<union> ?f ` {r \<in> set (mem_records m). rec_ID r = i}"
    by (rule set_update_first)
  then show ?thesis using a t by (fastforce simp: all_due_def mem_MarkFailed_def)
qed

lemma all_due_Fetch: "all_due clock n m \<Longrightarrow> all_due clock n (snd (mem_Fetch c k m))"
  by (cases "0 < k") (simp_all add: mem_Fetch_eq mem_Fetch_nonpos all_due_def)

lemma all_due_kept:
  assumes "mem_wired r" "waits_elapsed clock r" "0 < rl_maxAttempts r"
  shows "writes_keep r (all_due clock n)"
  using assms
  by (auto simp: writes_keep_def relay_wired_def waits_elapsed_def
      intro: all_due_MarkSent all_due_Terminate intro!: all_due_MarkFailed)

lemma all_due_fetched:
  assumes "all_due clock n m" and "mem_Fetch c n m = (Inr recs, m1)"
  shows "set recs = set (mem_records m)"
proof -
  have due: "mem_due (clock (mem_ticks m)) (mem_records m) = mem_records m"
    using assms(1) by (auto simp: mem_due_def all_due_def not_less)
  have "0 < n" "int (length (mem_records m)) \<le> n" "mem_now m = clock"
    using assms(1) by (simp_all add: all_due_def)
  with assms(2) due show ?thesis by (auto simp: mem_Fetch_def mem_call_now_def)
qed

lemma mem_drain_returns_nil:
  assumes "guarded r" and "mem_wired r"
  shows "\<exists>g'. drainOnce r ctx (m, w) = (Ret None, g')"
proof -
  obtain recs m1 where f: "rl_Fetch r ctx (rl_batchSize r) m = (Inr recs, m1)"
    using assms(2)
    by (cases "0 < rl_batchSize r") (auto simp: relay_wired_def mem_Fetch_eq mem_Fetch_nonpos)
  moreover obtain g' where "relay_process_all r ctx recs (m1, w) = (Ret (), g')"
    using relay_process_all_returns [OF assms(1)] by blast
  ultimately show ?thesis by (simp add: drainOnce_def)
qed

lemma poison_tick:
  assumes due: "all_due clock (rl_batchSize r) m" and u: "mem_uniq m" and wd: "mem_wired r"
    and ob: "observes D r" and gd: "guarded r" and el: "waits_elapsed clock r"
    and mx: "0 < rl_maxAttempts r" and row: "mem_row m i = Some rec"
    and poison: "\<forall>w. \<not> delivered D r ctx rec w"
  obtains m' w' where "drainOnce r ctx (m, w) = (Ret None, (m', w'))"
    and "all_due clock (rl_batchSize r) m'" and "mem_uniq m'"
    and "(\<exists>rec'. rec_Attempts rec + 1 < rl_maxAttempts r \<and> mem_row m' i = Some rec' \<and>
            same_event rec rec' \<and> rec_Attempts rec' = rec_Attempts rec + 1) \<or>
         (\<exists>d. rl_maxAttempts r \<le> rec_Attempts rec + 1 \<and> mem_row m' i = None \<and>
            mem_dlq m' i = Some d \<and> same_event rec (dl_Record d) \<and>
            dl_Attempts d = rec_Attempts rec + 1)"
proof -
  obtain m' w' where dr: "drainOnce r ctx (m, w) = (Ret None, (m', w'))"
    using mem_drain_returns_nil [OF gd wd] by (metis surj_pair)
  have fetch: "all_due clock n s \<Longrightarrow> all_due clock n (snd (rl_Fetch r c k s))" for n c k s
    using wd all_due_Fetch by (simp add: relay_wired_def)
  have due': "all_due clock (rl_batchSize r) m'"
    by (rule drainOnce_keeps [OF all_due_kept [OF wd el mx] due fetch dr])
  have u': "mem_uniq m'" using mem_relay.drain_accounts [OF u wd ob dr] by simp
  obtain recs m1 where f: "mem_Fetch ctx (rl_batchSize r) m = (Inr recs, m1)"
    and fates: "\<forall>rec \<in> set recs. mem_relay.fate_in True (rl_maxAttempts r) (delivered D r ctx rec w') rec m1 m'"
    by (rule mem_relay.drain_settles [OF u wd ob mem_reliable dr])
  have id: "rec_ID rec = i" "rec \<in> set (mem_records m)" using row by (auto simp: mem_row_def dest: find_Some_in)
  then have "rec \<in> set recs" using all_due_fetched [OF due f] by simp
  with fates have "fate True (rl_maxAttempts r) rec False (mem_dlq m1 i) (mem_row m' i) (mem_dlq m' i)"
    using id poison by (auto simp: mem_relay.fate_in_def intro: fate_mono)
  then have "(\<exists>rec'. rec_Attempts rec + 1 < rl_maxAttempts r \<and> mem_row m' i = Some rec' \<and>
            same_event rec rec' \<and> rec_Attempts rec' = rec_Attempts rec + 1) \<or>
         (\<exists>d. rl_maxAttempts r \<le> rec_Attempts rec + 1 \<and> mem_row m' i = None \<and>
            mem_dlq m' i = Some d \<and> same_event rec (dl_Record d) \<and> dl_Attempts d = rec_Attempts rec + 1)"
    using mx unfolding fate_def deferred_row_def dead_row_def by auto
  with dr due' u' show ?thesis by (rule that)
qed

text \<open>After so many ticks the record is still active, with that many more attempts counted.\<close>

definition retried :: "('b memory, 'w, 'b) relay \<Rightarrow> gctx \<Rightarrow> string \<Rightarrow> orec \<Rightarrow> 'b memory \<times> 'w \<Rightarrow> nat \<Rightarrow> bool" where
  "retried r ctx i rec g j \<longleftrightarrow>
     (\<exists>mj wj recj. relay_loop r ctx (replicate j TickerFired) g = (Waiting, (mj, wj)) \<and>
        mem_row mj i = Some recj \<and> same_event rec recj \<and>
        rec_Attempts recj = rec_Attempts rec + int j)"

lemma retried_0: "mem_row m i = Some rec \<Longrightarrow> retried r ctx i rec (m, w) 0"
  by (simp add: retried_def same_event_refl)

lemma retried_Suc:
  assumes "drainOnce r ctx (m, w) = (Ret None, (m1, w1))" and "same_event rec rec'"
    and "rec_Attempts rec' = rec_Attempts rec + 1" and "retried r ctx i rec' (m1, w1) j"
  shows "retried r ctx i rec (m, w) (Suc j)"
  using assms by (auto simp: retried_def intro: same_event_trans)

lemma poison_ticks:
  assumes "all_due clock (rl_batchSize r) m" and "mem_uniq m" and "mem_wired r"
    and "observes D r" and "guarded r" and "waits_elapsed clock r"
    and "0 < rl_maxAttempts r" and "mem_row m i = Some rec"
    and "rec_Attempts rec < rl_maxAttempts r" and "\<forall>w. \<not> delivered D r ctx rec w"
  shows "\<exists>m' w' d. relay_loop r ctx (replicate (nat (rl_maxAttempts r - rec_Attempts rec)) TickerFired) (m, w)
             = (Waiting, (m', w')) \<and>
           mem_row m' i = None \<and> mem_dlq m' i = Some d \<and> same_event rec (dl_Record d) \<and>
           dl_Attempts d = rl_maxAttempts r \<and>
           (\<forall>j < nat (rl_maxAttempts r - rec_Attempts rec). retried r ctx i rec (m, w) j)"
  using assms(1,2,8,9,10)
proof (induction "nat (rl_maxAttempts r - rec_Attempts rec)" arbitrary: m w rec)
  case 0
  then show ?case by simp
next
  case (Suc k)
  obtain m1 w1 where dr: "drainOnce r ctx (m, w) = (Ret None, (m1, w1))"
    and due1: "all_due clock (rl_batchSize r) m1" and u1: "mem_uniq m1"
    and cases1: "(\<exists>rec'. rec_Attempts rec + 1 < rl_maxAttempts r \<and> mem_row m1 i = Some rec' \<and>
            same_event rec rec' \<and> rec_Attempts rec' = rec_Attempts rec + 1) \<or>
         (\<exists>d. rl_maxAttempts r \<le> rec_Attempts rec + 1 \<and> mem_row m1 i = None \<and>
            mem_dlq m1 i = Some d \<and> same_event rec (dl_Record d) \<and> dl_Attempts d = rec_Attempts rec + 1)"
    by (rule poison_tick [OF Suc.prems(1,2) assms(3-7) Suc.prems(3,5)])
  have k: "nat (rl_maxAttempts r - rec_Attempts rec) = Suc k" using Suc.hyps(2) by simp
  note first = retried_0 [OF Suc.prems(3), of r ctx w]
  from cases1 show ?case
  proof (elim disjE exE conjE)
    fix rec'
    assume a: "rec_Attempts rec + 1 < rl_maxAttempts r" "mem_row m1 i = Some rec'" "same_event rec rec'"
      "rec_Attempts rec' = rec_Attempts rec + 1"
    then have k': "k = nat (rl_maxAttempts r - rec_Attempts rec')" using k by simp
    have "\<forall>w. \<not> delivered D r ctx rec' w" using Suc.prems(5) a(3) by (simp add: delivered_same_event)
    with Suc.hyps(1) [OF k' due1 u1 a(2)] a obtain m' w' d where
      "relay_loop r ctx (replicate k TickerFired) (m1, w1) = (Waiting, (m', w'))" and
      "mem_row m' i = None" "mem_dlq m' i = Some d" "same_event rec' (dl_Record d)"
      "dl_Attempts d = rl_maxAttempts r" and ih: "\<forall>j < k. retried r ctx i rec' (m1, w1) j"
      unfolding k' by fastforce
    moreover have "\<forall>j < Suc k. retried r ctx i rec (m, w) j"
      using first ih retried_Suc [OF dr a(3,4)] by (simp add: All_less_Suc2)
    ultimately show ?thesis using dr k a(3) by (auto intro: same_event_trans)
  next
    fix d
    assume a: "rl_maxAttempts r \<le> rec_Attempts rec + 1" "mem_row m1 i = None" "mem_dlq m1 i = Some d"
      "same_event rec (dl_Record d)" "dl_Attempts d = rec_Attempts rec + 1"
    with Suc.prems(4) k have "k = 0" by simp
    with a dr k first Suc.prems(4) show ?thesis by simp
  qed
qed

text \<open>
  C15: A poison record, one that never reaches the publisher because it cannot be decoded,
  makes the codec panic or is always rejected, is dead-lettered: when each tick attempts it
  (the store's clock is past every retry time the relay can set, and the batch holds the
  backlog), there is a number of ticks after which it is out of the active set and in the
  dead-letter map, with the same event and one attempt counted per tick; at every earlier
  tick it is still active with its failures so far counted. The letter counts at least
  maxAttempts attempts and at most one more, so the record is neither given up early nor
  retried for ever. (The comment on WithMaxAttempts places the dead-lettering at the failure
  after the cap is reached, the code at the failure that reaches it; the bounds hold for
  either reading.)
\<close>

theorem poison_record_dead_lettered:
  assumes "all_due clock (rl_batchSize r) m" and "mem_uniq m" and "mem_wired r"
    and "observes D r" and "guarded r" and "waits_elapsed clock r"
    and "0 < rl_maxAttempts r" and "mem_row m i = Some rec"
    and "rec_Attempts rec < rl_maxAttempts r" and "\<forall>w. \<not> delivered D r ctx rec w"
  shows "\<exists>k m' w' d. relay_loop r ctx (replicate k TickerFired) (m, w) = (Waiting, (m', w')) \<and>
           mem_row m' i = None \<and> mem_dlq m' i = Some d \<and> same_event rec (dl_Record d) \<and>
           dl_Attempts d = rec_Attempts rec + int k \<and>
           rl_maxAttempts r \<le> dl_Attempts d \<and> dl_Attempts d \<le> rl_maxAttempts r + 1 \<and>
           (\<forall>j < k. retried r ctx i rec (m, w) j)"
proof -
  let ?k = "nat (rl_maxAttempts r - rec_Attempts rec)"
  have "rec_Attempts rec + int ?k = rl_maxAttempts r" using assms(9) by simp
  with poison_ticks [OF assms, of w] show ?thesis by (intro exI [of _ ?k]) auto
qed

lemma backoff_wait_bound:
  assumes "defaultBackoff n u = Ret d"
  shows "d < 60 * second"
proof -
  have "0 < backoff_base n" "backoff_base n \<le> 60 * second"
    by (rule backoff_base_pos) (simp add: backoff_base_eq maxBackoff_def)
  moreover have "d = int u mod backoff_base n"
    using assms backoff_base_pos [of n] by (simp add: defaultBackoff_def rand_Int64N_def)
  ultimately show ?thesis using pos_mod_bound [of "backoff_base n" "int u"] by linarith
qed

theorem poison_record_dead_lettered_witness:
  "\<exists>k m' w' d. relay_loop example_relay background (replicate k TickerFired) (example_poisoned, [])
      = (Waiting, (m', w')) \<and> mem_dlq m' ''p1'' = Some d \<and> dl_Attempts d = int k \<and> 2 \<le> k \<and> k \<le> 3"
proof -
  let ?clock = "\<lambda>n. 60 * second + int n"
  let ?rec = "staged_record ''p1'' ''t'' 0 (example_event ''x'') (new_message ''x'' ''boom'')"
  have due: "all_due ?clock (rl_batchSize example_relay) example_poisoned"
    by (simp add: all_due_def example_poisoned_def example_relay_def staged_record_def second_def)
  have u: "mem_uniq example_poisoned" by (simp add: mem_uniq_def example_poisoned_def)
  have wd: "mem_wired example_relay" by (simp add: relay_wired_def example_relay_def)
  have el: "waits_elapsed ?clock example_relay"
    by (auto simp: waits_elapsed_def example_relay_def dest!: backoff_wait_bound)
  have row: "mem_row example_poisoned ''p1'' = Some ?rec"
    by (simp add: mem_row_def example_poisoned_def staged_record_def)
  have poison: "\<forall>w. \<not> delivered set example_relay background ?rec w"
    by (simp add: delivered_def example_relay_def example_codec_def relay_message_def staged_record_def)
  have mx: "rl_maxAttempts example_relay = 2" by (simp add: example_relay_def)
  have att: "rec_Attempts ?rec = 0" by (simp add: staged_record_def)
  have "0 < rl_maxAttempts example_relay" "rec_Attempts ?rec < rl_maxAttempts example_relay"
    by (simp_all add: mx att)
  from poison_record_dead_lettered [OF due u wd example_relay_observes example_relay_guarded el
      this(1) row this(2) poison, of "[]"]
  show ?thesis unfolding mx att by fastforce
qed

end
