(* ===== verification/Tx_Manager.thy ===== *)
theory Tx_Manager
  imports Prelude
begin

text \<open>
  The transaction manager of \<^verbatim>\<open>ports/database/pgx\<close>: the transaction carried by a context
  (\<^verbatim>\<open>context.go\<close>), the executor choice (\<^verbatim>\<open>executor.go\<close>), construction and WithinTx
  (\<^verbatim>\<open>txmanager.go\<close>). The pool and its transactions are pgx code: their Begin, Commit and
  Rollback are the fields of \<open>tx_ops\<close>, and \<open>tx_laws\<close> states what pgx documents of them. The
  database contents are of a type \<open>'d\<close>; a transaction works on its own copy until it commits.
\<close>

section \<open>Transactions in a context\<close>

definition ErrNoTx :: goerr where
  "ErrNoTx = ErrNew ''ports/database/pgx: no transaction in context''"

definition WithTx :: "gctx \<Rightarrow> nat \<Rightarrow> gctx" where
  "WithTx ctx tx = with_value ctx TxKey (TxVal tx)"

definition TxFromContext :: "gctx \<Rightarrow> nat option" where
  "TxFromContext ctx = (case ctx_values ctx TxKey of Some (TxVal tx) \<Rightarrow> Some tx | _ \<Rightarrow> None)"

lemma TxFromContext_WithTx [simp]: "TxFromContext (WithTx ctx tx) = Some tx"
  by (simp add: TxFromContext_def WithTx_def)

lemma ctx_err_WithTx [simp]: "ctx_err (WithTx ctx tx) = ctx_err ctx"
  by (simp add: WithTx_def)

text \<open>What a statement runs on: a transaction, or the pool in autocommit mode.\<close>

datatype executor = OnTx nat | OnPool

definition Executor :: "gctx \<Rightarrow> executor" where
  "Executor ctx = (case TxFromContext ctx of Some tx \<Rightarrow> OnTx tx | None \<Rightarrow> OnPool)"

section \<open>The transaction manager\<close>

text \<open>The committed contents, and the working copies of the open transactions.\<close>

record 'd pgworld =
  pw_db :: 'd
  pw_txs :: "nat \<rightharpoonup> 'd"

record ('d, 'o) tx_ops =
  tx_Begin :: "gctx \<Rightarrow> 'o \<Rightarrow> 'd pgworld \<Rightarrow> (goerr + nat) \<times> 'd pgworld"
  tx_Commit :: "gctx \<Rightarrow> nat \<Rightarrow> 'd pgworld \<Rightarrow> goerr option \<times> 'd pgworld"
  tx_Rollback :: "nat \<Rightarrow> 'd pgworld \<Rightarrow> goerr option \<times> 'd pgworld"

record ('d, 'o) tx_manager =
  tm_pool :: "('d, 'o) tx_ops"
  tm_defaultTx :: 'o

definition WithTxOptions :: "'o \<Rightarrow> ('d, 'o) tx_manager \<Rightarrow> ('d, 'o) tx_manager" where
  "WithTxOptions opt m = m\<lparr>tm_defaultTx := opt\<rparr>"

definition NewTxManager ::
  "'o \<Rightarrow> ('d, 'o) tx_ops option \<Rightarrow> (('d, 'o) tx_manager \<Rightarrow> ('d, 'o) tx_manager) list \<Rightarrow>
   ('d, 'o) tx_manager outcome" where
  "NewTxManager zero pool opts =
     (case pool of
        None \<Rightarrow> Panic ''ports/database/pgx: NewTxManager pool must not be nil''
      | Some p \<Rightarrow> Ret (fold (\<lambda>opt. opt) opts \<lparr>tm_pool = p, tm_defaultTx = zero\<rparr>))"

definition ErrTxClosed :: goerr where
  "ErrTxClosed = Foreign False ''tx is closed'' []"

text \<open>
  WithinTx. The deferred function runs last: on a panic it rolls back and panics again with
  the same value; otherwise, unless the commit went through, it rolls back.
\<close>

definition WithinTx ::
  "('d, 'o) tx_manager \<Rightarrow> gctx \<Rightarrow> (gctx \<Rightarrow> 'd pgworld \<Rightarrow> goerr option outcome \<times> 'd pgworld) \<Rightarrow>
   'd pgworld \<Rightarrow> goerr option outcome \<times> 'd pgworld" where
  "WithinTx m ctx fn w =
     (let p = tm_pool m in
      case tx_Begin p ctx (tm_defaultTx m) w of
        (Inl err, w1) \<Rightarrow> (Ret (Some (Errorf ''ports/database/pgx: begin tx'' [err])), w1)
      | (Inr tx, w1) \<Rightarrow>
          let ctx' = WithTx ctx tx;
              deferred_rollback = (\<lambda>w. snd (tx_Rollback p tx w))
          in case fn ctx' w1 of
               (Panic r, w2) \<Rightarrow> (Panic r, deferred_rollback w2)
             | (Ret (Some err), w2) \<Rightarrow>
                 (case tx_Rollback p tx w2 of
                    (Some rbErr, w3) \<Rightarrow>
                      (Ret (Some (if \<not> errors_is rbErr ErrTxClosed
                                  then ErrJoin [err, Errorf ''ports/database/pgx: rollback'' [rbErr]]
                                  else err)),
                       deferred_rollback w3)
                  | (None, w3) \<Rightarrow> (Ret (Some err), deferred_rollback w3))
             | (Ret None, w2) \<Rightarrow>
                 (case tx_Commit p ctx' tx w2 of
                    (Some err, w3) \<Rightarrow>
                      (Ret (Some (Errorf ''ports/database/pgx: commit'' [err])), deferred_rollback w3)
                  | (None, w3) \<Rightarrow> (Ret None, w3)))"

section \<open>What pgx promises\<close>

text \<open>
  Begin opens a fresh transaction on a copy of the committed contents. A commit that reports
  success has installed the copy and closed the transaction; one that reports an error has
  either installed the whole copy or nothing. A rollback closes the transaction and never
  touches the committed contents; both leave the other transactions alone.
\<close>

definition tx_begin_law :: "('d, 'o) tx_ops \<Rightarrow> bool" where
  "tx_begin_law p \<longleftrightarrow>
     (\<forall>c opt w. case tx_Begin p c opt w of
        (Inr tx, w') \<Rightarrow> pw_txs w tx = None \<and> w' = w\<lparr>pw_txs := (pw_txs w)(tx \<mapsto> pw_db w)\<rparr>
      | (Inl e, w') \<Rightarrow> w' = w)"

definition tx_commit_law :: "('d, 'o) tx_ops \<Rightarrow> bool" where
  "tx_commit_law p \<longleftrightarrow>
     (\<forall>c tx w d. pw_txs w tx = Some d \<longrightarrow>
        (case tx_Commit p c tx w of
           (None, w') \<Rightarrow> w' = w\<lparr>pw_db := d, pw_txs := (pw_txs w)(tx := None)\<rparr>
         | (Some e, w') \<Rightarrow> (pw_db w' = pw_db w \<or> pw_db w' = d) \<and>
             (\<forall>t. t \<noteq> tx \<longrightarrow> pw_txs w' t = pw_txs w t)))"

definition tx_rollback_law :: "('d, 'o) tx_ops \<Rightarrow> bool" where
  "tx_rollback_law p \<longleftrightarrow>
     (\<forall>tx w. snd (tx_Rollback p tx w) = w\<lparr>pw_txs := (pw_txs w)(tx := None)\<rparr>)"

definition tx_laws :: "('d, 'o) tx_ops \<Rightarrow> bool" where
  "tx_laws p \<longleftrightarrow> tx_begin_law p \<and> tx_commit_law p \<and> tx_rollback_law p"

lemma tx_begin_ok:
  assumes "tx_laws p" "tx_Begin p c opt w = (Inr tx, w')"
  shows "pw_txs w tx = None \<and> w' = w\<lparr>pw_txs := (pw_txs w)(tx \<mapsto> pw_db w)\<rparr>"
proof -
  have "tx_begin_law p" using assms(1) by (simp add: tx_laws_def)
  then show ?thesis unfolding tx_begin_law_def using assms(2) by (elim allE [of _ c] allE [of _ opt] allE [of _ w]) simp
qed

lemma tx_begin_err:
  assumes "tx_laws p" "tx_Begin p c opt w = (Inl e, w')"
  shows "w' = w"
proof -
  have "tx_begin_law p" using assms(1) by (simp add: tx_laws_def)
  then show ?thesis unfolding tx_begin_law_def using assms(2) by (elim allE [of _ c] allE [of _ opt] allE [of _ w]) simp
qed

lemma tx_commit_ok:
  assumes "tx_laws p" "pw_txs w tx = Some d" "tx_Commit p c tx w = (None, w')"
  shows "w' = w\<lparr>pw_db := d, pw_txs := (pw_txs w)(tx := None)\<rparr>"
proof -
  have "tx_commit_law p" using assms(1) by (simp add: tx_laws_def)
  then show ?thesis unfolding tx_commit_law_def using assms(2,3)
    by (elim allE [of _ c] allE [of _ tx] allE [of _ w] allE [of _ d]) simp
qed

lemma tx_commit_err:
  assumes "tx_laws p" "pw_txs w tx = Some d" "tx_Commit p c tx w = (Some e, w')"
  shows "(pw_db w' = pw_db w \<or> pw_db w' = d) \<and> (\<forall>t. t \<noteq> tx \<longrightarrow> pw_txs w' t = pw_txs w t)"
proof -
  have "tx_commit_law p" using assms(1) by (simp add: tx_laws_def)
  then show ?thesis unfolding tx_commit_law_def using assms(2,3)
    by (elim allE [of _ c] allE [of _ tx] allE [of _ w] allE [of _ d]) simp
qed

lemma tx_rollback:
  "tx_laws p \<Longrightarrow> snd (tx_Rollback p tx w) = w\<lparr>pw_txs := (pw_txs w)(tx := None)\<rparr>"
  by (simp add: tx_laws_def tx_rollback_law_def)

text \<open>
  The function passed to WithinTx works through the transaction in its context: it changes
  that transaction's copy, keeps it open and touches nothing else.
\<close>

definition runs_in_tx ::
  "(gctx \<Rightarrow> 'd pgworld \<Rightarrow> goerr option outcome \<times> 'd pgworld) \<Rightarrow> bool" where
  "runs_in_tx fn \<longleftrightarrow>
     (\<forall>c tx w d res w'. TxFromContext c = Some tx \<longrightarrow> pw_txs w tx = Some d \<longrightarrow> fn c w = (res, w') \<longrightarrow>
        (\<exists>d'. w' = w\<lparr>pw_txs := (pw_txs w)(tx \<mapsto> d')\<rparr>))"

lemma runs_in_txD:
  "runs_in_tx fn \<Longrightarrow> TxFromContext c = Some tx \<Longrightarrow> pw_txs w tx = Some d \<Longrightarrow> fn c w = (res, w') \<Longrightarrow>
     \<exists>d'. w' = w\<lparr>pw_txs := (pw_txs w)(tx \<mapsto> d')\<rparr>"
  unfolding runs_in_tx_def by blast

text \<open>The function runs on its own copy, and rolling back returns to the world before Begin.\<close>

lemma tx_scope:
  assumes laws: "tx_laws p" and "runs_in_tx fn" and "tx_Begin p ctx def w = (Inr tx, w1)" and f: "fn (WithTx ctx tx) w1 = (fres, w2)"
  obtains d where "pw_txs w tx = None" "w1 = w\<lparr>pw_txs := (pw_txs w)(tx \<mapsto> pw_db w)\<rparr>"
    "w2 = w\<lparr>pw_txs := (pw_txs w)(tx \<mapsto> d)\<rparr>" "snd (tx_Rollback p tx w2) = w" "snd (tx_Rollback p tx w) = w"
proof -
  have tx: "pw_txs w tx = None" and w1: "w1 = w\<lparr>pw_txs := (pw_txs w)(tx \<mapsto> pw_db w)\<rparr>"
    using tx_begin_ok [OF laws] assms(3) by auto
  have "\<exists>d'. w2 = w1\<lparr>pw_txs := (pw_txs w1)(tx \<mapsto> d')\<rparr>"
    by (rule runs_in_txD [OF assms(2) _ _ f]) (simp_all add: w1)
  then obtain d where w2: "w2 = w\<lparr>pw_txs := (pw_txs w)(tx \<mapsto> d)\<rparr>" by (auto simp: w1)
  have undo: "u\<lparr>pw_txs := (pw_txs u)(tx := None)\<rparr> = w"
    if "pw_db u = pw_db w" "\<forall>t. t \<noteq> tx \<longrightarrow> pw_txs u t = pw_txs w t" for u
    using that tx by (auto intro!: pgworld.equality)
  have rb: "snd (tx_Rollback p tx w2) = w" "snd (tx_Rollback p tx w) = w"
    using undo [of w2] undo [of w] by (simp_all add: tx_rollback [OF laws] w2)
  show ?thesis by (rule that [OF tx w1 w2 rb])
qed

lemma WithinTx_cases:
  assumes "tx_laws (tm_pool m)" and "runs_in_tx fn" and "WithinTx m ctx fn w = (res, w')"
  obtains (no_begin) err where "res = Ret (Some (Errorf ''ports/database/pgx: begin tx'' [err]))" "w' = w"
      "tx_Begin (tm_pool m) ctx (tm_defaultTx m) w = (Inl err, w)"
  | (undone) tx w2 fres where "pw_txs w tx = None"
      "fn (WithTx ctx tx) (w\<lparr>pw_txs := (pw_txs w)(tx \<mapsto> pw_db w)\<rparr>) = (fres, w2)"
      "fres \<noteq> Ret None" "res \<noteq> Ret None"
      "\<And>p. fres = Panic p \<Longrightarrow> res = Panic p" "\<And>e. fres = Ret (Some e) \<Longrightarrow> \<exists>e'. res = Ret (Some e') \<and> errors_is e' e"
      "w' = w" "tx_Begin (tm_pool m) ctx (tm_defaultTx m) w = (Inr tx, w\<lparr>pw_txs := (pw_txs w)(tx \<mapsto> pw_db w)\<rparr>)"
  | (unsure) tx w2 d err where "pw_txs w tx = None"
      "fn (WithTx ctx tx) (w\<lparr>pw_txs := (pw_txs w)(tx \<mapsto> pw_db w)\<rparr>) = (Ret None, w2)"
      "pw_txs w2 tx = Some d" "res = Ret (Some (Errorf ''ports/database/pgx: commit'' [err]))"
      "pw_db w' = pw_db w \<or> pw_db w' = d" "pw_txs w' = pw_txs w"
      "tx_Begin (tm_pool m) ctx (tm_defaultTx m) w = (Inr tx, w\<lparr>pw_txs := (pw_txs w)(tx \<mapsto> pw_db w)\<rparr>)"
  | (committed) tx w2 d where "pw_txs w tx = None"
      "fn (WithTx ctx tx) (w\<lparr>pw_txs := (pw_txs w)(tx \<mapsto> pw_db w)\<rparr>) = (Ret None, w2)"
      "pw_txs w2 tx = Some d" "res = Ret None" "w' = w\<lparr>pw_db := d\<rparr>"
      "tx_Begin (tm_pool m) ctx (tm_defaultTx m) w = (Inr tx, w\<lparr>pw_txs := (pw_txs w)(tx \<mapsto> pw_db w)\<rparr>)"
proof -
  note laws = assms(1)
  obtain bres w1 where b: "tx_Begin (tm_pool m) ctx (tm_defaultTx m) w = (bres, w1)" by (metis surj_pair)
  show ?thesis
  proof (cases bres)
    case (Inl err)
    then show ?thesis using that(1) b tx_begin_err [OF laws] assms(3) by (auto simp: WithinTx_def Let_def)
  next
    case (Inr tx)
    obtain fres w2 where f: "fn (WithTx ctx tx) w1 = (fres, w2)" by (metis surj_pair)
    obtain d where tx: "pw_txs w tx = None" and w1: "w1 = w\<lparr>pw_txs := (pw_txs w)(tx \<mapsto> pw_db w)\<rparr>"
      and w2: "w2 = w\<lparr>pw_txs := (pw_txs w)(tx \<mapsto> d)\<rparr>"
      and rb1: "snd (tx_Rollback (tm_pool m) tx w2) = w" and rb2: "snd (tx_Rollback (tm_pool m) tx w) = w"
      using tx_scope [OF laws assms(2) b [unfolded Inr] f] by metis
    note init = f [unfolded w1] and began = b [unfolded Inr w1]
    show ?thesis
    proof (cases fres)
      case (Panic p)
      then show ?thesis
        using that(2) [OF tx init _ _ _ _ _ began] assms(3) b Inr f rb1 by (auto simp: WithinTx_def Let_def)
    next
      case (Ret e)
      show ?thesis
      proof (cases e)
        case (Some err)
        obtain rbErr w3 where rb: "tx_Rollback (tm_pool m) tx w2 = (rbErr, w3)" by (metis surj_pair)
        with rb1 have "w3 = w" by simp
        have is_err: "errors_is (ErrJoin [err, x]) err" for x by (subst errors_is.simps) simp
        show ?thesis
          using that(2) [OF tx init _ _ _ _ _ began] assms(3) b Inr f Ret Some rb \<open>w3 = w\<close> rb2 is_err
          by (auto simp: WithinTx_def Let_def split: option.splits)
      next
        case None
        obtain cres w3 where c: "tx_Commit (tm_pool m) (WithTx ctx tx) tx w2 = (cres, w3)" by (metis surj_pair)
        have dd: "pw_txs w2 tx = Some d" by (simp add: w2)
        show ?thesis
        proof (cases cres)
          case (Some err)
          have "pw_txs w' = pw_txs w" "pw_db w' = pw_db w \<or> pw_db w' = d"
            using tx_commit_err [OF laws dd c [unfolded Some]] c Some assms(3) b Inr f Ret None tx
            by (auto simp: WithinTx_def Let_def tx_rollback [OF laws] w2 fun_eq_iff)
          then show ?thesis
            using that(3) [OF tx init [unfolded Ret None] dd _ _ _ began] assms(3) b Inr f Ret None c Some
            by (auto simp: WithinTx_def Let_def)
        next
          case N: None
          have "w' = w\<lparr>pw_db := d\<rparr>"
            using tx_commit_ok [OF laws dd c [unfolded N]] c N assms(3) b Inr f Ret None tx
            by (auto simp: WithinTx_def Let_def w2 intro!: pgworld.equality)
          then show ?thesis
            using that(4) [OF tx init [unfolded Ret None] dd _ _ began] assms(3) b Inr f Ret None c N
            by (auto simp: WithinTx_def Let_def)
        qed
      qed
    qed
  qed
qed


text \<open>
  A concrete pool: it numbers its transactions, refuses to open one in a cancelled context, and
  its commit fails when the working copy is \<open>refused\<close>.
\<close>

definition example_pool :: "('d \<Rightarrow> bool) \<Rightarrow> ('d, unit) tx_ops" where
  "example_pool refused = \<lparr>
     tx_Begin = (\<lambda>c opt w. case ctx_err c of
         Some e \<Rightarrow> (Inl e, w)
       | None \<Rightarrow> if pw_txs w 0 = None then (Inr 0, w\<lparr>pw_txs := (pw_txs w)(0 \<mapsto> pw_db w)\<rparr>)
                 else (Inl (Foreign False ''pool exhausted'' []), w)),
     tx_Commit = (\<lambda>c tx w. case pw_txs w tx of
         None \<Rightarrow> (Some ErrTxClosed, w)
       | Some d \<Rightarrow> if refused d then (Some (Foreign True ''conn reset'' []), w)
                   else (None, w\<lparr>pw_db := d, pw_txs := (pw_txs w)(tx := None)\<rparr>)),
     tx_Rollback = (\<lambda>tx w. (if pw_txs w tx = None then Some ErrTxClosed else None,
                             w\<lparr>pw_txs := (pw_txs w)(tx := None)\<rparr>))\<rparr>"

definition example_manager :: "('d \<Rightarrow> bool) \<Rightarrow> ('d, unit) tx_manager" where
  "example_manager refused = \<lparr>tm_pool = example_pool refused, tm_defaultTx = ()\<rparr>"

lemma example_pool_laws: "tx_laws (example_pool refused)"
  by (simp add: tx_laws_def tx_begin_law_def tx_commit_law_def tx_rollback_law_def example_pool_def
      split: option.split)

text \<open>A function that writes a value through its transaction and then returns \<open>res\<close>.\<close>

definition write_tx ::
  "'d \<Rightarrow> goerr option outcome \<Rightarrow> gctx \<Rightarrow> 'd pgworld \<Rightarrow> goerr option outcome \<times> 'd pgworld" where
  "write_tx d res c w =
     (case TxFromContext c of
        None \<Rightarrow> (Ret (Some ErrNoTx), w)
      | Some tx \<Rightarrow> (res, w\<lparr>pw_txs := (pw_txs w)(tx \<mapsto> d)\<rparr>))"

lemma write_tx_runs: "runs_in_tx (write_tx d res)"
  by (auto simp: runs_in_tx_def write_tx_def)


end
