(* ===== verification/Pgx_Outbox.thy ===== *)
theory Pgx_Outbox
  imports Relay Tx_Manager
begin

text \<open>
  The Postgres outbox of \<^verbatim>\<open>eventbus/outbox/pgx\<close>: the record id encoding, Stage inside the
  caller's transaction, and Fetch, MarkSent, MarkFailed and Terminate with the SQL of
  \<^verbatim>\<open>sql.go\<close> over the tables \<^verbatim>\<open>outbox_records\<close> and \<^verbatim>\<open>outbox_dead_letters\<close>. One statement is one
  step on the tables.

  What the server decides is in \<open>pg_env\<close>, numbered by the calls made so far: the random
  UUIDs, the clock readings, the rows other transactions hold locked, and whether a statement
  fails before it ran or after it took effect. The JSON routines and the time resolution of
  a TIMESTAMPTZ are functions of the environment too.
\<close>

section \<open>Record ids\<close>

definition ErrMalformedID :: goerr where
  "ErrMalformedID = ErrNew ''eventbus/outbox/pgx: malformed OutboxRecord.ID''"

definition is_hex :: "char \<Rightarrow> bool" where
  "is_hex c \<longleftrightarrow> is_digit c \<or> (let n = (of_char c :: nat) in 97 \<le> n \<and> n \<le> 102 \<or> 65 \<le> n \<and> n \<le> 70)"

definition uuidShape :: "string \<Rightarrow> bool" where
  "uuidShape s \<longleftrightarrow> length s = 36 \<and>
     (\<forall>i < 36. if i \<in> {8, 13, 18, 23} then s ! i = CHR ''-'' else is_hex (s ! i))"

definition encodeID :: "int \<Rightarrow> string \<Rightarrow> string" where
  "encodeID dbID token = format_int dbID @ CHR '':'' # token"

definition parseID :: "string \<Rightarrow> goerr + int \<times> string" where
  "parseID rid =
     (case last_index CHR '':'' rid of
        None \<Rightarrow> Inl ErrMalformedID
      | Some idx \<Rightarrow>
          if idx = 0 \<or> idx = length rid - 1 then Inl ErrMalformedID
          else case parse_int64 (take idx rid) of
                 None \<Rightarrow> Inl ErrMalformedID
               | Some dbID \<Rightarrow>
                   let token = drop (idx + 1) rid
                   in if \<not> uuidShape token then Inl ErrMalformedID else Inr (dbID, token))"

text \<open>The cast \<^verbatim>\<open>$2::uuid\<close> reads the digits without regard to case; \<^verbatim>\<open>::text\<close> prints lower case.\<close>

definition hex_lower :: "char \<Rightarrow> char" where
  "hex_lower c = (let n = (of_char c :: nat) in if 65 \<le> n \<and> n \<le> 70 then char_of (n + 32) else c)"

definition uuid_cast :: "string \<Rightarrow> string" where
  "uuid_cast s = map hex_lower s"

section \<open>Tables and statements\<close>

record pg_row =
  pr_id :: int
  pr_event_id :: string
  pr_topic :: string
  pr_event_name :: string
  pr_aggregate_id :: string
  pr_aggregate_type :: string
  pr_payload :: bytes
  pr_headers :: bytes
  pr_created_at :: time
  pr_available_at :: time
  pr_attempts :: int
  pr_last_error :: "string option"
  pr_claimed_until :: "time option"
  pr_claim_token :: "string option"

text \<open>A dead letter keeps the columns of the deleted row, with the columns of its own.\<close>

record pg_dead =
  pd_row :: pg_row
  pd_attempts :: int
  pd_reason :: string
  pd_failed_at :: time

record pgdb =
  db_rows :: "pg_row list"
  db_dead :: "pg_dead list"
  db_seq :: int
  db_uuids :: nat
  db_ticks :: nat
  db_stmts :: nat

record pg_env =
  pe_uuid :: "nat \<Rightarrow> string"
  pe_clock :: "nat \<Rightarrow> time"
  pe_fault :: "nat \<Rightarrow> fault"
  pe_locked :: "nat \<Rightarrow> int list"
  pe_scanFault :: "nat \<Rightarrow> pg_row \<Rightarrow> goerr option"
  pe_ts :: "time \<Rightarrow> time"
  pe_jsonMarshal :: "headers \<Rightarrow> goerr + bytes"
  pe_jsonb :: "bytes \<Rightarrow> bytes"
  pe_jsonUnmarshal :: "bytes \<Rightarrow> goerr + headers"

definition pg_run ::
  "pg_env \<Rightarrow> ('z pgdb_scheme \<Rightarrow> (goerr + 'a) \<times> 'z pgdb_scheme) \<Rightarrow> 'z pgdb_scheme \<Rightarrow>
   (goerr + 'a) \<times> 'z pgdb_scheme" where
  "pg_run env stmt db =
     (let db1 = db\<lparr>db_stmts := Suc (db_stmts db)\<rparr>
      in case pe_fault env (db_stmts db) of
           NoFault \<Rightarrow> stmt db1
         | FailBefore e \<Rightarrow> (Inl e, db1)
         | FailAfter e \<Rightarrow> (case stmt db1 of (Inl e', db2) \<Rightarrow> (Inl e', db2) | (Inr _, db2) \<Rightarrow> (Inl e, db2)))"

definition pg_now :: "pg_env \<Rightarrow> pgdb \<Rightarrow> time" where
  "pg_now env db = pe_clock env (db_ticks db)"

definition pg_tick :: "pgdb \<Rightarrow> pgdb" where
  "pg_tick db = db\<lparr>db_ticks := Suc (db_ticks db)\<rparr>"

definition pg_order :: "pg_row \<Rightarrow> time \<times> int" where
  "pg_order r = (pr_available_at r, pr_id r)"

definition pg_due :: "time \<Rightarrow> int list \<Rightarrow> int \<Rightarrow> pg_row list \<Rightarrow> pg_row list" where
  "pg_due now locked limit rs =
     take (nat limit) (sort_key pg_order (filter (\<lambda>r. pr_available_at r \<le> now \<and>
       (case pr_claimed_until r of None \<Rightarrow> True | Some t \<Rightarrow> t \<le> now) \<and> pr_id r \<notin> set locked) rs))"

definition pg_claim :: "pg_env \<Rightarrow> nat \<Rightarrow> time \<Rightarrow> pg_row list \<Rightarrow> pg_row list" where
  "pg_claim env n until due =
     map2 (\<lambda>k r. r\<lparr>pr_claimed_until := Some until, pr_claim_token := Some (pe_uuid env k)\<rparr>)
       [n ..< n + length due] due"

text \<open>The interval argument is rendered as whole milliseconds.\<close>

definition fetchSQL :: "pg_env \<Rightarrow> int \<Rightarrow> int \<Rightarrow> pgdb \<Rightarrow> (goerr + pg_row list) \<times> pgdb" where
  "fetchSQL env limit lease_ms db =
     (let now = pg_now env db;
          due = pg_due now (pe_locked env (db_stmts db)) limit (db_rows db);
          updated = pg_claim env (db_uuids db) (now + lease_ms * millisecond) due
      in (Inr (sort_key pg_order updated),
          (pg_tick db)\<lparr>db_rows := map (\<lambda>r. case find (\<lambda>u. pr_id u = pr_id r) updated of
                                              Some u \<Rightarrow> u | None \<Rightarrow> r) (db_rows db),
             db_uuids := db_uuids db + length due\<rparr>))"

definition pg_hit :: "int \<Rightarrow> string \<Rightarrow> pg_row \<Rightarrow> bool" where
  "pg_hit dbID token r \<longleftrightarrow> pr_id r = dbID \<and> pr_claim_token r = Some (uuid_cast token)"

definition markSentSQL :: "int \<Rightarrow> string \<Rightarrow> pgdb \<Rightarrow> (goerr + unit) \<times> pgdb" where
  "markSentSQL dbID token db =
     (Inr (), db\<lparr>db_rows := filter (\<lambda>r. \<not> pg_hit dbID token r) (db_rows db)\<rparr>)"

text \<open>\<^verbatim>\<open>attempts\<close> is an INTEGER column: a sum beyond 32 bits fails the statement.\<close>

definition int4_max :: int where "int4_max = 2147483647"

definition int4_out_of_range :: goerr where
  "int4_out_of_range = Foreign False ''integer out of range'' []"

definition markFailedSQL ::
  "pg_env \<Rightarrow> int \<Rightarrow> time \<Rightarrow> string \<Rightarrow> string \<Rightarrow> pgdb \<Rightarrow> (goerr + unit) \<times> pgdb" where
  "markFailedSQL env dbID nextAttemptAt reason token db =
     (if list_ex (\<lambda>r. pg_hit dbID token r \<and> pr_attempts r \<ge> int4_max) (db_rows db)
      then (Inl int4_out_of_range, db)
      else (Inr (), db\<lparr>db_rows := map (\<lambda>r. if pg_hit dbID token r
              then r\<lparr>pr_attempts := pr_attempts r + 1, pr_available_at := pe_ts env nextAttemptAt,
                     pr_last_error := Some reason, pr_claimed_until := None, pr_claim_token := None\<rparr>
              else r) (db_rows db)\<rparr>))"

definition terminateSQL ::
  "pg_env \<Rightarrow> int \<Rightarrow> string \<Rightarrow> string \<Rightarrow> pgdb \<Rightarrow> (goerr + unit) \<times> pgdb" where
  "terminateSQL env dbID token reason db =
     (let del = filter (pg_hit dbID token) (db_rows db)
      in if list_ex (\<lambda>r. pr_attempts r \<ge> int4_max) del then (Inl int4_out_of_range, pg_tick db)
         else (Inr (), (pg_tick db)\<lparr>
            db_rows := filter (\<lambda>r. \<not> pg_hit dbID token r) (db_rows db),
            db_dead := map (\<lambda>r. \<lparr>pd_row = r, pd_attempts = pr_attempts r + 1, pd_reason = reason,
                                  pd_failed_at = pg_now env db\<rparr>) del @ db_dead db\<rparr>))"

section \<open>The store\<close>

definition minClaimLease :: duration where "minClaimLease = 100 * millisecond"
definition defaultClaimLease :: duration where "defaultClaimLease = 5 * second"

record 'b pgx_store =
  ps_codec :: "'b codec"
  ps_claimLease :: duration

definition WithClaimLease :: "duration \<Rightarrow> 'b pgx_store \<Rightarrow> 'b pgx_store" where
  "WithClaimLease d s = s\<lparr>ps_claimLease := (if d < minClaimLease then minClaimLease else d)\<rparr>"

definition NewStore ::
  "bool \<Rightarrow> 'b codec option \<Rightarrow> ('b pgx_store \<Rightarrow> 'b pgx_store) list \<Rightarrow> goerr + 'b pgx_store" where
  "NewStore has_pool cfg_Codec opts =
     (if \<not> has_pool then Inl (ErrNew ''eventbus/outbox/pgx: Pool is required'')
      else case cfg_Codec of
             None \<Rightarrow> Inl (ErrNew ''eventbus/outbox/pgx: Codec is required'')
           | Some c \<Rightarrow> Inr (fold (\<lambda>opt. opt) opts \<lparr>ps_codec = c, ps_claimLease = defaultClaimLease\<rparr>))"

text \<open>
  Stage: all events are marshalled first, then one INSERT runs on the transaction's copy of
  the tables. Every row takes the next identity value and two clock readings.
\<close>

record pg_staged =
  sg_eventID :: string
  sg_eventName :: string
  sg_aggregateID :: string
  sg_aggregateType :: string
  sg_payload :: bytes
  sg_headers :: bytes

definition pgx_stage_one :: "pg_env \<Rightarrow> 'b codec \<Rightarrow> gctx \<Rightarrow> 'b devent \<Rightarrow> goerr + pg_staged" where
  "pgx_stage_one env cd ctx ev =
     (case cd_Marshal cd ctx ev of
        Inl err \<Rightarrow> Inl (Errorf (''eventbus/outbox/pgx: marshal '' @ ev_EventID ev) [err])
      | Inr msg \<Rightarrow>
          (case pe_jsonMarshal env (msg_Metadata msg) of
             Inl err \<Rightarrow> Inl (Errorf (''eventbus/outbox/pgx: marshal headers for '' @ ev_EventID ev) [err])
           | Inr headersJSON \<Rightarrow>
               Inr \<lparr>sg_eventID = ev_EventID ev, sg_eventName = ev_EventName ev,
                    sg_aggregateID = ev_AggregateID ev, sg_aggregateType = ev_AggregateType ev,
                    sg_payload = msg_Payload msg, sg_headers = headersJSON\<rparr>))"

definition pg_new_row :: "pg_env \<Rightarrow> string \<Rightarrow> int \<Rightarrow> nat \<Rightarrow> pg_staged \<Rightarrow> pg_row" where
  "pg_new_row env topic rid tick p =
     \<lparr>pr_id = rid, pr_event_id = sg_eventID p, pr_topic = topic, pr_event_name = sg_eventName p,
      pr_aggregate_id = sg_aggregateID p, pr_aggregate_type = sg_aggregateType p,
      pr_payload = sg_payload p, pr_headers = pe_jsonb env (sg_headers p),
      pr_created_at = pe_clock env tick, pr_available_at = pe_clock env (Suc tick),
      pr_attempts = 0, pr_last_error = None, pr_claimed_until = None, pr_claim_token = None\<rparr>"

fun pg_insert :: "pg_env \<Rightarrow> string \<Rightarrow> pg_staged list \<Rightarrow> 'z pgdb_scheme \<Rightarrow> 'z pgdb_scheme" where
  "pg_insert env topic [] db = db"
| "pg_insert env topic (p # ps) db =
     pg_insert env topic ps
       (db\<lparr>db_rows := db_rows db @ [pg_new_row env topic (db_seq db) (db_ticks db) p],
           db_seq := db_seq db + 1, db_ticks := db_ticks db + 2\<rparr>)"

definition pgx_Stage ::
  "pg_env \<Rightarrow> 'b pgx_store \<Rightarrow> gctx \<Rightarrow> string \<Rightarrow> 'b devent list \<Rightarrow> 'z pgdb_scheme pgworld \<Rightarrow>
   goerr option \<times> 'z pgdb_scheme pgworld" where
  "pgx_Stage env s ctx topic events w =
     (if events = [] then (None, w)
      else case TxFromContext ctx of
             None \<Rightarrow> (Some ErrNoTx, w)
           | Some tx \<Rightarrow>
               (case map_result (pgx_stage_one env (ps_codec s) ctx) events of
                  Inl err \<Rightarrow> (Some err, w)
                | Inr pending \<Rightarrow>
                    (case pw_txs w tx of
                       None \<Rightarrow> (Some (Errorf ''eventbus/outbox/pgx: insert outbox rows'' [ErrTxClosed]), w)
                     | Some db \<Rightarrow>
                         (case pg_run env (\<lambda>db. (Inr (), pg_insert env topic pending db)) db of
                            (Inl err, db') \<Rightarrow>
                              (Some (Errorf ''eventbus/outbox/pgx: insert outbox rows'' [err]),
                               w\<lparr>pw_txs := (pw_txs w)(tx \<mapsto> db')\<rparr>)
                          | (Inr _, db') \<Rightarrow> (None, w\<lparr>pw_txs := (pw_txs w)(tx \<mapsto> db')\<rparr>)))))"

text \<open>Fetch: the claim, then the conversion of every returned row.\<close>

definition pg_headers :: "pg_env \<Rightarrow> pg_row \<Rightarrow> goerr + headers" where
  "pg_headers env r =
     (if length (pr_headers r) > 0 then
        (case pe_jsonUnmarshal env (pr_headers r) of
           Inl err \<Rightarrow> Inl (Errorf (''eventbus/outbox/pgx: unmarshal headers for id='' @ format_int (pr_id r)) [err])
         | Inr h \<Rightarrow> Inr h)
      else Inr Map.empty)"

definition pg_record :: "pg_row \<Rightarrow> headers \<Rightarrow> orec" where
  "pg_record r h =
     \<lparr>rec_ID = encodeID (pr_id r) (case pr_claim_token r of Some t \<Rightarrow> t | None \<Rightarrow> []),
      rec_EventID = pr_event_id r, rec_Topic = pr_topic r, rec_EventName = pr_event_name r,
      rec_AggregateID = pr_aggregate_id r, rec_AggregateType = pr_aggregate_type r,
      rec_Payload = pr_payload r, rec_Headers = h, rec_CreatedAt = pr_created_at r,
      rec_AvailableAt = pr_available_at r, rec_Attempts = pr_attempts r\<rparr>"

definition pg_scan :: "pg_env \<Rightarrow> pg_row \<Rightarrow> goerr + orec" where
  "pg_scan env r = (case pg_headers env r of Inl err \<Rightarrow> Inl err | Inr h \<Rightarrow> Inr (pg_record r h))"

text \<open>One turn of the loop over the rows of statement \<open>n\<close>: rows.Scan may fail, by the driver.\<close>

definition pg_scan_row :: "pg_env \<Rightarrow> nat \<Rightarrow> pg_row \<Rightarrow> goerr + orec" where
  "pg_scan_row env n r =
     (case pe_scanFault env n r of
        Some err \<Rightarrow> Inl (Errorf ''eventbus/outbox/pgx: scan fetched row'' [err])
      | None \<Rightarrow> pg_scan env r)"

text \<open>An error after the claim took effect shows when the rows are read, any other in Query.\<close>

definition pg_fetch_label :: "fault \<Rightarrow> string" where
  "pg_fetch_label f =
     (case f of FailAfter _ \<Rightarrow> ''eventbus/outbox/pgx: iterate fetched rows'' | _ \<Rightarrow> ''eventbus/outbox/pgx: fetch'')"

definition pgx_Fetch ::
  "pg_env \<Rightarrow> 'b pgx_store \<Rightarrow> gctx \<Rightarrow> int \<Rightarrow> pgdb \<Rightarrow> (goerr + orec list) \<times> pgdb" where
  "pgx_Fetch env s ctx limit db =
     (if limit \<le> 0 then (Inr [], db)
      else case pg_run env (fetchSQL env limit (milliseconds (ps_claimLease s))) db of
             (Inl err, db') \<Rightarrow> (Inl (Errorf (pg_fetch_label (pe_fault env (db_stmts db))) [err]), db')
           | (Inr rows, db') \<Rightarrow> (map_result (pg_scan_row env (db_stmts db)) rows, db'))"

definition pgx_exec ::
  "pg_env \<Rightarrow> string \<Rightarrow> (int \<Rightarrow> string \<Rightarrow> pgdb \<Rightarrow> (goerr + unit) \<times> pgdb) \<Rightarrow> string \<Rightarrow> pgdb \<Rightarrow>
   goerr option \<times> pgdb" where
  "pgx_exec env what stmt rid db =
     (case parseID rid of
        Inl err \<Rightarrow> (Some err, db)
      | Inr (dbID, token) \<Rightarrow>
          (case pg_run env (stmt dbID token) db of
             (Inl err, db') \<Rightarrow> (Some (Errorf (''eventbus/outbox/pgx: '' @ what @ format_int dbID) [err]), db')
           | (Inr _, db') \<Rightarrow> (None, db')))"

definition pgx_MarkSent ::
  "pg_env \<Rightarrow> gctx \<Rightarrow> string \<Rightarrow> pgdb \<Rightarrow> goerr option \<times> pgdb" where
  "pgx_MarkSent env ctx rid db = pgx_exec env ''mark sent id='' markSentSQL rid db"

definition pgx_MarkFailed ::
  "pg_env \<Rightarrow> gctx \<Rightarrow> string \<Rightarrow> string \<Rightarrow> time \<Rightarrow> pgdb \<Rightarrow> goerr option \<times> pgdb" where
  "pgx_MarkFailed env ctx rid reason nextAttemptAt db =
     pgx_exec env ''mark failed id='' (\<lambda>dbID token. markFailedSQL env dbID nextAttemptAt reason token) rid db"

definition pgx_Terminate ::
  "pg_env \<Rightarrow> gctx \<Rightarrow> string \<Rightarrow> string \<Rightarrow> pgdb \<Rightarrow> goerr option \<times> pgdb" where
  "pgx_Terminate env ctx rid reason db =
     pgx_exec env ''terminate id='' (\<lambda>dbID token. terminateSQL env dbID token reason) rid db"

section \<open>Ids round-trip\<close>

lemma uuidShape_no_colon: "uuidShape t \<Longrightarrow> CHR '':'' \<notin> set t"
proof
  assume u: "uuidShape t" and "CHR '':'' \<in> set t"
  then obtain i where i: "i < length t" "t ! i = CHR '':''" by (metis in_set_conv_nth)
  with u have "i < 36" "is_hex (CHR '':'') \<or> CHR '':'' = CHR ''-''"
    unfolding uuidShape_def by (metis)+
  then show False by (simp add: is_hex_def is_digit_def)
qed

lemma uuidShape_nonempty: "uuidShape t \<Longrightarrow> t \<noteq> []"
  by (auto simp: uuidShape_def)

lemma parseID_encodeID:
  assumes "- (2 ^ 63) \<le> n" "n < 2 ^ 63" "uuidShape t"
  shows "parseID (encodeID n t) = Inr (n, t)"
proof -
  have "last_index CHR '':'' (encodeID n t) = Some (length (format_int n))"
    unfolding encodeID_def by (rule last_index_append_sep) (rule uuidShape_no_colon [OF assms(3)])
  moreover have "length (format_int n) \<noteq> length (encodeID n t) - 1"
    using uuidShape_nonempty [OF assms(3)] by (simp add: encodeID_def)
  ultimately show ?thesis
    using assms parse_int64_format_int [OF assms(1,2)] by (simp add: parseID_def encodeID_def Let_def)
qed

text \<open>
  Parsing inverts encoding: for every 64-bit row id and every canonical UUID, MarkSent,
  MarkFailed and Terminate recover exactly the row id and the claim token that Fetch put into
  the record id; and an id is accepted only if it splits at its last colon into a 64-bit
  decimal and a UUID.
\<close>

lemma pgx_id_roundtrip:
  "(\<forall>n t. - (2 ^ 63) \<le> n \<and> n < 2 ^ 63 \<and> uuidShape t \<longrightarrow> parseID (encodeID n t) = Inr (n, t)) \<and>
   (\<forall>rid n t. parseID rid = Inr (n, t) \<longrightarrow>
      uuidShape t \<and> (\<exists>s. rid = s @ CHR '':'' # t \<and> parse_int64 s = Some n))"
proof (intro conjI allI impI)
  fix rid n t
  assume "parseID rid = Inr (n, t)"
  then obtain idx where idx: "last_index CHR '':'' rid = Some idx" "parse_int64 (take idx rid) = Some n"
    "t = drop (idx + 1) rid" "uuidShape t"
    by (auto simp: parseID_def Let_def split: option.splits if_splits)
  then show "uuidShape t" "\<exists>s. rid = s @ CHR '':'' # t \<and> parse_int64 s = Some n"
    using last_index_split [OF idx(1)] by auto
qed (simp add: parseID_encodeID)

definition example_uuid :: string where
  "example_uuid = ''0a1b2c3d-0000-4000-8000-00000000000'' @ ''1''"

lemma example_uuid_shape: "uuidShape example_uuid"
  unfolding uuidShape_def example_uuid_def by code_simp

section \<open>The store contract\<close>

text \<open>
  A row as a record, the row a key names, and when a record id holds the claim of its row.
  A column that does not decode shows as no headers; Fetch never returns such a row.
\<close>

definition pg_view :: "pg_env \<Rightarrow> pg_row \<Rightarrow> orec" where
  "pg_view env r = pg_record r (case pg_headers env r of Inr h \<Rightarrow> h | Inl _ \<Rightarrow> Map.empty)"

definition pg_key :: "string \<Rightarrow> int option" where
  "pg_key rid = (case parseID rid of Inr (n, _) \<Rightarrow> Some n | Inl _ \<Rightarrow> None)"

definition pg_find :: "pgdb \<Rightarrow> int \<Rightarrow> pg_row option" where
  "pg_find db n = find (\<lambda>r. pr_id r = n) (db_rows db)"

definition pg_rows :: "pg_env \<Rightarrow> pgdb \<Rightarrow> int option \<Rightarrow> orec option" where
  "pg_rows env db k = (case k of None \<Rightarrow> None | Some n \<Rightarrow> map_option (pg_view env) (pg_find db n))"

definition pg_letter :: "pg_env \<Rightarrow> pg_dead \<Rightarrow> dead_letter" where
  "pg_letter env d = \<lparr>dl_Record = pg_view env (pd_row d), dl_Reason = pd_reason d,
     dl_FailedAt = pd_failed_at d, dl_Attempts = pd_attempts d\<rparr>"

definition pg_letters :: "pg_env \<Rightarrow> pgdb \<Rightarrow> int option \<Rightarrow> dead_letter option" where
  "pg_letters env db k = (case k of None \<Rightarrow> None
     | Some n \<Rightarrow> map_option (pg_letter env) (find (\<lambda>d. pr_id (pd_row d) = n) (db_dead db)))"

definition pg_owns :: "pgdb \<Rightarrow> string \<Rightarrow> bool" where
  "pg_owns db rid \<longleftrightarrow>
     (case parseID rid of Inl _ \<Rightarrow> False
      | Inr (n, t) \<Rightarrow> (case pg_find db n of None \<Rightarrow> False | Some r \<Rightarrow> pg_hit n t r))"

definition uuid_canonical :: "string \<Rightarrow> bool" where
  "uuid_canonical t \<longleftrightarrow> uuidShape t \<and> uuid_cast t = t"

text \<open>
  The invariant of the tables: ids are distinct 64-bit integers. The server's UUIDs are
  canonical, as \<^verbatim>\<open>::text\<close> prints them.
\<close>

definition pg_inv :: "pg_env \<Rightarrow> pgdb \<Rightarrow> bool" where
  "pg_inv env db \<longleftrightarrow>
     (\<forall>n. uuid_canonical (pe_uuid env n)) \<and> distinct (map pr_id (db_rows db)) \<and>
     (\<forall>r \<in> set (db_rows db). - (2 ^ 63) \<le> pr_id r \<and> pr_id r < 2 ^ 63)"

lemma pg_view_sel [simp]:
  "rec_Attempts (pg_view env r) = pr_attempts r"
  "rec_AvailableAt (pg_view env r) = pr_available_at r"
  by (simp_all add: pg_view_def pg_record_def)

lemma pg_view_same_event:
  "pr_event_id r = pr_event_id q \<Longrightarrow> pr_topic r = pr_topic q \<Longrightarrow> pr_event_name r = pr_event_name q \<Longrightarrow>
   pr_aggregate_id r = pr_aggregate_id q \<Longrightarrow> pr_aggregate_type r = pr_aggregate_type q \<Longrightarrow>
   pr_payload r = pr_payload q \<Longrightarrow> pr_headers r = pr_headers q \<Longrightarrow> pr_created_at r = pr_created_at q \<Longrightarrow>
   same_event (pg_view env r) (pg_view env q)"
  by (auto simp: pg_view_def pg_record_def same_event_def pg_headers_def split: sum.splits)

lemma find_filter_key:
  "distinct (map k xs) \<Longrightarrow>
     find (\<lambda>x. k x = m) (filter (\<lambda>x. \<not> (k x = n \<and> q x)) xs) =
       (case find (\<lambda>x. k x = m) xs of None \<Rightarrow> None | Some x \<Rightarrow> if m = n \<and> q x then None else Some x)"
proof (induction xs)
  case (Cons x xs)
  have "find (\<lambda>y. k y = k x) (filter (\<lambda>y. \<not> (k y = n \<and> q y)) xs) = None"
    using Cons.prems by (auto simp: find_None_iff image_iff)
  with Cons show ?case by auto
qed simp

lemma find_map_key:
  "(\<And>x. k (g x) = k x) \<Longrightarrow> find (\<lambda>x. k x = m) (map g xs) = map_option g (find (\<lambda>x. k x = m) xs)"
  by (induction xs) auto

lemma pg_hit_def': "pg_hit n t = (\<lambda>r. pr_id r = n \<and> pr_claim_token r = Some (uuid_cast t))"
  by (rule ext) (simp add: pg_hit_def)

lemma pg_find_id: "pg_find db n = Some r \<Longrightarrow> pr_id r = n \<and> r \<in> set (db_rows db)"
  by (auto simp: pg_find_def dest: find_Some_in)

lemma pg_owns_iff:
  "pg_owns db i \<longleftrightarrow> (\<exists>n t r. parseID i = Inr (n, t) \<and> pg_find db n = Some r \<and> pg_hit n t r)"
  by (auto simp: pg_owns_def split: sum.splits option.splits)

text \<open>A statement under a token, as the change it makes to the one row it may hit.\<close>

lemma pg_find_delete:
  assumes "distinct (map pr_id (db_rows db))"
  shows "find (\<lambda>r. pr_id r = m) (filter (\<lambda>r. \<not> pg_hit n t r) (db_rows db)) =
    (case pg_find db m of None \<Rightarrow> None | Some r \<Rightarrow> if m = n \<and> pg_hit n t r then None else Some r)"
  using find_filter_key [OF assms, where m = m and n = n and q = "\<lambda>r. pr_claim_token r = Some (uuid_cast t)"]
  by (auto simp: pg_find_def pg_hit_def' split: option.splits dest: find_Some_in)

lemma filter_hit_unique:
  assumes "distinct (map pr_id (db_rows db))" and "pg_find db n = Some r" and "pg_hit n t r"
  shows "filter (pg_hit n t) (db_rows db) = [r]"
proof -
  have "filter (\<lambda>x. k x = k y \<and> q x) xs = [y]" if "distinct (map k xs)" "y \<in> set xs" "q y"
    for k :: "pg_row \<Rightarrow> int" and q y xs
    using that
  proof (induction xs)
    case (Cons x xs)
    have "filter (\<lambda>z. k z = k x \<and> q z) xs = []"
      using Cons.prems(1) by (auto simp: filter_empty_conv image_iff)
    with Cons show ?case by auto
  qed simp
  from this [OF assms(1), of r] show ?thesis
    using pg_find_id [OF assms(2)] assms(3) by (auto simp: pg_hit_def')
qed

lemma filter_hit_none:
  assumes "distinct (map pr_id (db_rows db))" and "\<And>r. pg_find db n = Some r \<Longrightarrow> \<not> pg_hit n t r"
  shows "filter (pg_hit n t) (db_rows db) = []"
proof -
  have "\<not> pg_hit n t r" if "r \<in> set (db_rows db)" for r
  proof
    assume h: "pg_hit n t r"
    then have "pg_find db n = Some r"
      using find_key_distinct [OF assms(1) that] by (simp add: pg_find_def pg_hit_def)
    with h assms(2) show False by blast
  qed
  then show ?thesis by (auto simp: filter_empty_conv)
qed

lemma pg_letters_cong: "db_dead db' = db_dead db \<Longrightarrow> pg_letters env db' = pg_letters env db"
  by (rule ext) (simp add: pg_letters_def split: option.split)

lemma pg_letters_cons:
  "db_dead db' = d # db_dead db \<Longrightarrow>
     pg_letters env db' = (pg_letters env db)(Some (pr_id (pd_row d)) \<mapsto> pg_letter env d)"
  by (rule ext) (auto simp: pg_letters_def split: option.split)

lemma pg_view_simps [simp]:
  "pg_find (db\<lparr>db_stmts := a\<rparr>) = pg_find db" "pg_find (pg_tick db) = pg_find db"
  "pg_letters env (db\<lparr>db_stmts := a\<rparr>) = pg_letters env db"
  "pg_inv env (db\<lparr>db_stmts := a\<rparr>) = pg_inv env db" "pg_inv env (pg_tick db) = pg_inv env db"
  "pg_letters env (pg_tick db) = pg_letters env db"
  "db_rows (pg_tick db) = db_rows db" "db_dead (pg_tick db) = db_dead db"
  by (simp_all add: pg_find_def pg_inv_def pg_tick_def fun_eq_iff)
     (simp_all add: pg_letters_def split: option.split)

lemma pg_rows_upd:
  "pg_find db' = (pg_find db)(n := x) \<Longrightarrow>
     pg_rows env db' = (pg_rows env db)(Some n := map_option (pg_view env) x)"
  by (rule ext) (simp add: pg_rows_def split: option.split)

lemma pg_owns_upd:
  assumes "pg_find db' = (pg_find db)(n := x)" and "pg_key j \<noteq> Some n"
  shows "pg_owns db' j = pg_owns db j"
  using assms by (auto simp: pg_owns_iff pg_key_def)

lemma pg_find_same: "pg_find db' = pg_find db \<Longrightarrow> pg_rows env db' = pg_rows env db \<and> pg_owns db' = pg_owns db"
  by (auto simp: pg_rows_def pg_owns_iff fun_eq_iff split: option.split)

lemma pg_find_same_stmts:
  "pg_rows env (db\<lparr>db_stmts := a\<rparr>) = pg_rows env db" "pg_owns (db\<lparr>db_stmts := a\<rparr>) = pg_owns db"
  using pg_find_same [of "db\<lparr>db_stmts := a\<rparr>" db env] by simp_all

lemma pg_inv_subset:
  "pg_inv env db \<Longrightarrow> distinct (map pr_id (db_rows db')) \<Longrightarrow> pr_id ` set (db_rows db') \<subseteq> pr_id ` set (db_rows db) \<Longrightarrow>
     pg_inv env db'"
  by (fastforce simp: pg_inv_def)

text \<open>The row the token still claims, if any.\<close>

definition pg_claimed :: "pgdb \<Rightarrow> int \<Rightarrow> string \<Rightarrow> pg_row option" where
  "pg_claimed db n t = (case pg_find db n of None \<Rightarrow> None | Some r \<Rightarrow> if pg_hit n t r then Some r else None)"

lemma pg_claimed_owns: "parseID i = Inr (n, t) \<Longrightarrow> pg_owns db i \<longleftrightarrow> pg_claimed db n t \<noteq> None"
  by (auto simp: pg_owns_iff pg_claimed_def split: option.splits)

lemma pg_claimed_find: "pg_claimed db n t = Some r \<Longrightarrow> pg_find db n = Some r \<and> pg_hit n t r"
  by (auto simp: pg_claimed_def split: option.splits if_splits)

lemma pg_claimed_stmts [simp]: "pg_claimed (db\<lparr>db_stmts := a\<rparr>) n t = pg_claimed db n t"
  by (simp add: pg_claimed_def)

lemma pg_delete_effect:
  assumes "pg_inv env db" and "db_rows db' = filter (\<lambda>r. \<not> pg_hit n t r) (db_rows db)"
  shows "pg_inv env db'"
    and "pg_claimed db n t = None \<Longrightarrow> pg_find db' = pg_find db"
    and "pg_claimed db n t = Some r \<Longrightarrow> pg_find db' = (pg_find db)(n := None)"
proof -
  have dist: "distinct (map pr_id (db_rows db))" using assms(1) by (simp add: pg_inv_def)
  have fd: "pg_find db' m = (case pg_find db m of None \<Rightarrow> None
      | Some r \<Rightarrow> if m = n \<and> pg_hit n t r then None else Some r)" for m
    using pg_find_delete [OF dist] by (simp add: pg_find_def [of db'] assms(2))
  show "pg_inv env db'"
    by (rule pg_inv_subset [OF assms(1)]) (auto simp: assms(2) dist distinct_map_filter)
  show "pg_claimed db n t = None \<Longrightarrow> pg_find db' = pg_find db"
    by (rule ext) (auto simp: fd pg_claimed_def split: option.splits if_splits)
  show "pg_claimed db n t = Some r \<Longrightarrow> pg_find db' = (pg_find db)(n := None)"
    by (rule ext) (auto simp: fd pg_claimed_def split: option.splits if_splits)
qed

lemma markSentSQL_effect:
  assumes "pg_inv env db" and "markSentSQL n t db = (sr, db')"
  shows "pg_inv env db' \<and> pg_letters env db' = pg_letters env db \<and> sr = Inr () \<and>
    pg_find db' = (if pg_claimed db n t = None then pg_find db else (pg_find db)(n := None))"
  using assms(2) pg_delete_effect [OF assms(1), of db' n t]
  by (auto simp: markSentSQL_def intro!: pg_letters_cong)

lemma markFailedSQL_effect:
  assumes "pg_inv env db" and "markFailedSQL env n at reason t db = (sr, db')"
  shows "pg_inv env db' \<and> pg_letters env db' = pg_letters env db \<and>
    (case pg_claimed db n t of
       None \<Rightarrow> pg_find db' = pg_find db
     | Some r \<Rightarrow> (sr \<noteq> Inr () \<and> pg_find db' = pg_find db) \<or>
         pg_find db' = (pg_find db)(n \<mapsto> r\<lparr>pr_attempts := pr_attempts r + 1, pr_available_at := pe_ts env at,
            pr_last_error := Some reason, pr_claimed_until := None, pr_claim_token := None\<rparr>))"
proof (cases "list_ex (\<lambda>r. pg_hit n t r \<and> pr_attempts r \<ge> int4_max) (db_rows db)")
  case True
  then show ?thesis using assms by (auto simp: markFailedSQL_def split: option.split)
next
  case False
  let ?f = "\<lambda>r. r\<lparr>pr_attempts := pr_attempts r + 1, pr_available_at := pe_ts env at,
            pr_last_error := Some reason, pr_claimed_until := None, pr_claim_token := None\<rparr>"
  let ?g = "\<lambda>r. if pg_hit n t r then ?f r else r"
  have db': "db' = db\<lparr>db_rows := map ?g (db_rows db)\<rparr>" using False assms(2) by (simp add: markFailedSQL_def)
  have ids: "map pr_id (map ?g (db_rows db)) = map pr_id (db_rows db)" by simp
  have "pg_inv env db'"
    by (rule pg_inv_subset [OF assms(1)])
       (use assms(1) in \<open>auto simp: db' pg_inv_def comp_def if_distrib [of pr_id] cong: if_cong\<close>)
  moreover have fd: "pg_find db' m = map_option ?g (pg_find db m)" for m
    unfolding pg_find_def db' by (simp add: find_map_key [of pr_id ?g])
  moreover have "pg_letters env db' = pg_letters env db" by (rule pg_letters_cong) (simp add: db')
  moreover have "case pg_claimed db n t of None \<Rightarrow> pg_find db' = pg_find db
      | Some r \<Rightarrow> pg_find db' = (pg_find db)(n \<mapsto> ?f r)"
  proof (cases "pg_claimed db n t")
    case None
    have "pg_find db' m = pg_find db m" for m
    proof (cases "pg_find db m")
      case (Some r)
      then have "\<not> pg_hit n t r" using None pg_find_id [OF Some] by (auto simp: pg_claimed_def pg_hit_def split: if_splits)
      then show ?thesis using Some by (simp add: fd)
    qed (simp add: fd)
    then show ?thesis using None by (simp add: fun_eq_iff)
  next
    case (Some r)
    note r = pg_claimed_find [OF Some]
    have "pg_find db' m = ((pg_find db)(n \<mapsto> ?f r)) m" for m
    proof (cases "m = n")
      case True
      then show ?thesis using r by (simp add: fd)
    next
      case False
      then have "\<not> pg_hit n t q" if "pg_find db m = Some q" for q
        using pg_find_id [OF that] by (simp add: pg_hit_def)
      then show ?thesis using False by (cases "pg_find db m") (simp_all add: fd)
    qed
    then show ?thesis using Some by (simp add: fun_eq_iff)
  qed
  ultimately show ?thesis by (auto split: option.splits)
qed

lemma terminateSQL_effect:
  assumes "pg_inv env db" and "terminateSQL env n t reason db = (sr, db')"
  shows "pg_inv env db' \<and>
    (case pg_claimed db n t of
       None \<Rightarrow> pg_find db' = pg_find db \<and> pg_letters env db' = pg_letters env db
     | Some r \<Rightarrow>
         (sr \<noteq> Inr () \<and> pg_find db' = pg_find db \<and> pg_letters env db' = pg_letters env db) \<or>
         (pg_find db' = (pg_find db)(n := None) \<and>
          pg_letters env db' = (pg_letters env db)(Some n \<mapsto> \<lparr>dl_Record = pg_view env r, dl_Reason = reason,
             dl_FailedAt = pg_now env db, dl_Attempts = pr_attempts r + 1\<rparr>)))"
proof -
  have dist: "distinct (map pr_id (db_rows db))" using assms(1) by (simp add: pg_inv_def)
  let ?del = "filter (pg_hit n t) (db_rows db)"
  show ?thesis
  proof (cases "list_ex (\<lambda>r. pr_attempts r \<ge> int4_max) ?del")
    case True
    then show ?thesis using assms by (auto simp: terminateSQL_def Let_def split: option.split)
  next
    case False
    then have db': "db_rows db' = filter (\<lambda>r. \<not> pg_hit n t r) (db_rows db)"
      "db_dead db' = map (\<lambda>r. \<lparr>pd_row = r, pd_attempts = pr_attempts r + 1, pd_reason = reason,
          pd_failed_at = pg_now env db\<rparr>) ?del @ db_dead db"
      using assms(2) by (auto simp: terminateSQL_def Let_def)
    note del = pg_delete_effect [OF assms(1) db'(1)]
    show ?thesis
    proof (cases "pg_claimed db n t")
      case None
      have "?del = []"
        by (rule filter_hit_none [OF dist]) (use None in \<open>auto simp: pg_claimed_def split: if_splits\<close>)
      then show ?thesis using del(1) del(2) [OF None] db'(2) None pg_letters_cong [of db' db env] by simp
    next
      case (Some r)
      then have r: "pg_find db n = Some r" "pg_hit n t r" by (auto dest: pg_claimed_find)
      have "pr_id r = n" using r(2) by (simp add: pg_hit_def)
      then have "pg_letters env db' = (pg_letters env db)(Some n \<mapsto> \<lparr>dl_Record = pg_view env r,
          dl_Reason = reason, dl_FailedAt = pg_now env db, dl_Attempts = pr_attempts r + 1\<rparr>)"
        using pg_letters_cons [of db' _ db env] db'(2) filter_hit_unique [OF dist r]
        by (simp add: pg_letter_def)
      then show ?thesis using del(1) del(3) [OF Some] Some by simp
    qed
  qed
qed

text \<open>A claim: what Fetch writes into a due row.\<close>

definition claimed_as :: "pg_env \<Rightarrow> nat \<Rightarrow> pg_row \<Rightarrow> pg_row \<Rightarrow> bool" where
  "claimed_as env n r u \<longleftrightarrow>
     (\<exists>k until. n \<le> k \<and> u = r\<lparr>pr_claimed_until := Some until, pr_claim_token := Some (pe_uuid env k)\<rparr>)"

lemma claimed_as_view:
  assumes "claimed_as env n r u"
  shows "pr_id u = pr_id r" and "same_delivery (pg_view env r) (pg_view env u)"
  using assms by (auto simp: claimed_as_def same_delivery_def intro!: pg_view_same_event)

lemma pg_claim_elem: "u \<in> set (pg_claim env n until due) \<Longrightarrow> \<exists>r \<in> set due. claimed_as env n r u"
  by (fastforce simp: pg_claim_def claimed_as_def dest: set_zip_rightD set_zip_leftD)

lemma pg_claim_ids: "map pr_id (pg_claim env n until due) = map pr_id due"
  unfolding pg_claim_def by (rule nth_equalityI) simp_all

lemma pg_due_subset: "set (pg_due now locked limit rs) \<subseteq> set rs"
  unfolding pg_due_def by (auto dest: in_set_takeD)

lemma distinct_map_sort_key:
  assumes "distinct (map k xs)"
  shows "distinct (map k (sort_key f xs))"
proof -
  have "mset (map k (sort_key f xs)) = mset (map k xs)" by simp
  then show ?thesis using assms by (metis mset_eq_imp_distinct_iff)
qed

lemma pg_due_distinct:
  assumes "distinct (map pr_id rs)"
  shows "distinct (map pr_id (pg_due now locked limit rs))"
proof -
  have "distinct (map pr_id (sort_key pg_order (filter P rs)))" for P
    using assms by (intro distinct_map_sort_key) (simp add: distinct_map_filter)
  then show ?thesis unfolding pg_due_def by (simp flip: take_map)
qed

lemma fetchSQL_effect:
  assumes inv: "pg_inv env db" and f: "fetchSQL env limit ms db = (res, db')"
  obtains claimed g where "res = Inr claimed" and "pg_inv env db'"
    and "pg_letters env db' = pg_letters env db"
    and "\<And>m. pg_find db' m = map_option g (pg_find db m)"
    and "\<And>m r. pg_find db m = Some r \<Longrightarrow> g r = r \<or> claimed_as env (db_uuids db) r (g r)"
    and "distinct (map pr_id claimed)"
    and "\<And>u. u \<in> set claimed \<Longrightarrow> pg_find db' (pr_id u) = Some u \<and> (\<exists>k. pr_claim_token u = Some (pe_uuid env k))"
proof -
  define due where "due = pg_due (pg_now env db) (pe_locked env (db_stmts db)) limit (db_rows db)"
  define upd where "upd = pg_claim env (db_uuids db) (pg_now env db + ms * millisecond) due"
  define g where "g = (\<lambda>r. case find (\<lambda>u. pr_id u = pr_id r) upd of Some u \<Rightarrow> u | None \<Rightarrow> r)"
  have dist: "distinct (map pr_id (db_rows db))" using inv by (simp add: pg_inv_def)
  have db': "res = Inr (sort_key pg_order upd)"
    "db' = (pg_tick db)\<lparr>db_rows := map g (db_rows db), db_uuids := db_uuids db + length due\<rparr>"
    using f by (auto simp: fetchSQL_def Let_def due_def upd_def g_def)
  have ids: "distinct (map pr_id upd)"
    unfolding upd_def pg_claim_ids due_def by (rule pg_due_distinct [OF dist])
  have gid: "pr_id (g r) = pr_id r" for r
    by (auto simp: g_def split: option.split dest: find_Some_in)
  have src: "\<exists>r. pg_find db (pr_id u) = Some r \<and> claimed_as env (db_uuids db) r u" if u: "u \<in> set upd" for u
  proof -
    obtain r where r: "r \<in> set due" "claimed_as env (db_uuids db) r u" using pg_claim_elem u unfolding upd_def by blast
    then have "r \<in> set (db_rows db)" using pg_due_subset unfolding due_def by blast
    then show ?thesis
      using find_key_distinct [OF dist] r(2) claimed_as_view(1) [OF r(2)] by (auto simp: pg_find_def)
  qed
  have fd: "pg_find db' m = map_option g (pg_find db m)" for m
    by (simp add: pg_find_def db' find_map_key [of pr_id g, OF gid])
  have g_cases: "g r = r \<or> claimed_as env (db_uuids db) r (g r)" if "pg_find db m = Some r" for m r
  proof (cases "find (\<lambda>u. pr_id u = pr_id r) upd")
    case (Some u)
    then have u: "u \<in> set upd" "pr_id u = pr_id r" by (auto dest: find_Some_in)
    with src [of u] that pg_find_id [OF that] show ?thesis using Some by (auto simp: g_def)
  qed (simp add: g_def)
  have hit: "pg_find db' (pr_id u) = Some u" if u: "u \<in> set upd" for u
  proof -
    obtain r where r: "pg_find db (pr_id u) = Some r" "claimed_as env (db_uuids db) r u" using src [OF u] by blast
    moreover have "g r = u" using find_key_distinct [OF ids u] claimed_as_view(1) [OF r(2)] by (simp add: g_def)
    ultimately show ?thesis by (simp add: fd)
  qed
  have "pg_letters env db' = pg_letters env db" by (rule pg_letters_cong) (simp add: db')
  moreover have "pg_inv env db'"
    by (rule pg_inv_subset [OF inv]) (use dist in \<open>auto simp: db' gid comp_def\<close>)
  moreover have "\<exists>k. pr_claim_token u = Some (pe_uuid env k)" if "u \<in> set upd" for u
    using src [OF that] by (auto simp: claimed_as_def)
  ultimately show ?thesis
    by (intro that [of "sort_key pg_order upd" g] db'(1) fd g_cases distinct_map_sort_key [OF ids])
       (simp_all add: hit)
qed

lemma pg_scan_Inr: "pg_scan env u = Inr r \<Longrightarrow> r = pg_view env u"
  by (auto simp: pg_scan_def pg_view_def split: sum.splits)

lemma pg_scan_row_Inr: "pg_scan_row env n u = Inr r \<Longrightarrow> r = pg_view env u"
  by (auto simp: pg_scan_row_def pg_scan_Inr split: option.splits)

lemma pg_view_key:
  assumes "pg_inv env db" and "pg_find db (pr_id u) = Some u" and "pr_claim_token u = Some (pe_uuid env k)"
  shows "parseID (rec_ID (pg_view env u)) = Inr (pr_id u, pe_uuid env k)" and "pg_owns db (rec_ID (pg_view env u))"
proof -
  have "uuid_canonical (pe_uuid env k)" "- (2 ^ 63) \<le> pr_id u" "pr_id u < 2 ^ 63"
    using assms(1) pg_find_id [OF assms(2)] by (auto simp: pg_inv_def)
  then show *: "parseID (rec_ID (pg_view env u)) = Inr (pr_id u, pe_uuid env k)"
    using assms(3) by (simp add: pg_view_def pg_record_def parseID_encodeID uuid_canonical_def)
  show "pg_owns db (rec_ID (pg_view env u))"
    using * assms(2,3) \<open>uuid_canonical (pe_uuid env k)\<close> by (simp add: pg_owns_def pg_hit_def uuid_canonical_def)
qed

lemma pgx_Fetch_cases:
  assumes "pgx_Fetch env s ctx limit db = (res, db')"
  obtains (nothing) "res = Inr []" "db' = db"
  | (failed) e where "res = Inl e" "db' = db\<lparr>db_stmts := Suc (db_stmts db)\<rparr>"
  | (claimed_err) e q where "res = Inl e"
      "fetchSQL env limit (milliseconds (ps_claimLease s)) (db\<lparr>db_stmts := Suc (db_stmts db)\<rparr>) = (q, db')"
  | (claimed) rs where
      "fetchSQL env limit (milliseconds (ps_claimLease s)) (db\<lparr>db_stmts := Suc (db_stmts db)\<rparr>) = (Inr rs, db')"
      "res = map_result (pg_scan_row env (db_stmts db)) rs"
  using assms
  by (auto simp: pgx_Fetch_def pg_run_def Let_def split: if_splits fault.splits prod.splits sum.splits)

lemma pgx_exec_cases:
  assumes "pgx_exec env what stmt i db = (e, db')"
  obtains (malformed) err where "parseID i = Inl err" "e \<noteq> None" "db' = db"
  | (failed) n t where "parseID i = Inr (n, t)" "e \<noteq> None" "db' = db\<lparr>db_stmts := Suc (db_stmts db)\<rparr>"
  | (ran) n t sr where "parseID i = Inr (n, t)"
      "stmt n t (db\<lparr>db_stmts := Suc (db_stmts db)\<rparr>) = (sr, db')" "e = None \<Longrightarrow> sr = Inr ()"
  using assms
  by (auto simp: pgx_exec_def pg_run_def Let_def split: fault.splits prod.splits sum.splits)

text \<open>The three token-guarded writes, seen through the view.\<close>

lemma pgx_write_frame:
  assumes "pg_find db' = (pg_find db)(n := x)" and "parseID i = Inr (n, t)"
  shows "\<forall>j. pg_key j \<noteq> pg_key i \<longrightarrow> pg_owns db' j = pg_owns db j"
  using pg_owns_upd [OF assms(1)] assms(2) by (simp add: pg_key_def)

lemma pgx_MarkSent_law:
  assumes inv: "pg_inv env db" and op: "pgx_MarkSent env c i db = (e, db')"
  shows "pg_inv env db' \<and> pg_letters env db' = pg_letters env db \<and>
      (\<forall>j. pg_key j \<noteq> pg_key i \<longrightarrow> pg_owns db' j = pg_owns db j) \<and>
      (pg_rows env db' = pg_rows env db \<and> (pg_owns db i \<longrightarrow> e \<noteq> None) \<or>
       pg_owns db i \<and> pg_rows env db' = (pg_rows env db)(pg_key i := None))"
  using op [unfolded pgx_MarkSent_def]
proof (cases rule: pgx_exec_cases)
  case (ran n t sr)
  let ?db = "db\<lparr>db_stmts := Suc (db_stmts db)\<rparr>"
  have eff: "pg_inv env db' \<and> pg_letters env db' = pg_letters env db \<and>
      pg_find db' = (if pg_claimed db n t = None then pg_find db else (pg_find db)(n := None))"
    using markSentSQL_effect [OF _ ran(2)] inv by simp
  have key: "pg_key i = Some n" using ran(1) by (simp add: pg_key_def)
  note own = pg_claimed_owns [OF ran(1), of db]
  show ?thesis
  proof (cases "pg_claimed db n t")
    case None
    then show ?thesis using eff own pg_find_same [of db' db env] by auto
  next
    case (Some r)
    then have f: "pg_find db' = (pg_find db)(n := None)" using eff by simp
    then show ?thesis using eff own Some key pgx_write_frame [OF f ran(1)] pg_rows_upd [OF f, of env] by simp
  qed
qed (use inv in \<open>auto simp: pg_owns_def pg_find_same_stmts\<close>)

lemma pgx_MarkFailed_law:
  assumes inv: "pg_inv env db" and op: "pgx_MarkFailed env c i x at db = (e, db')"
  shows "pg_inv env db' \<and> pg_letters env db' = pg_letters env db \<and>
      (\<forall>j. pg_key j \<noteq> pg_key i \<longrightarrow> pg_owns db' j = pg_owns db j) \<and>
      (pg_rows env db' = pg_rows env db \<and> (pg_owns db i \<longrightarrow> e \<noteq> None) \<or>
       pg_owns db i \<and> (\<exists>r r'. pg_rows env db (pg_key i) = Some r \<and> deferred_row r (pe_ts env at) r' \<and>
                            pg_rows env db' = (pg_rows env db)(pg_key i := Some r')))"
  using op [unfolded pgx_MarkFailed_def]
proof (cases rule: pgx_exec_cases)
  case (ran n t sr)
  have eff: "pg_inv env db' \<and> pg_letters env db' = pg_letters env db \<and>
    (case pg_claimed db n t of
       None \<Rightarrow> pg_find db' = pg_find db
     | Some r \<Rightarrow> (sr \<noteq> Inr () \<and> pg_find db' = pg_find db) \<or>
         pg_find db' = (pg_find db)(n \<mapsto> r\<lparr>pr_attempts := pr_attempts r + 1, pr_available_at := pe_ts env at,
            pr_last_error := Some x, pr_claimed_until := None, pr_claim_token := None\<rparr>))"
    using markFailedSQL_effect [OF _ ran(2)] inv by (simp cong: option.case_cong)
  have key: "pg_key i = Some n" using ran(1) by (simp add: pg_key_def)
  note own = pg_claimed_owns [OF ran(1), of db]
  show ?thesis
  proof (cases "pg_claimed db n t")
    case None
    then show ?thesis using eff own pg_find_same [of db' db env] by auto
  next
    case (Some r)
    let ?r = "r\<lparr>pr_attempts := pr_attempts r + 1, pr_available_at := pe_ts env at,
            pr_last_error := Some x, pr_claimed_until := None, pr_claim_token := None\<rparr>"
    show ?thesis
    proof (cases "pg_find db' = pg_find db \<and> sr \<noteq> Inr ()")
      case True
      then show ?thesis using eff ran(3) pg_find_same [of db' db env] by auto
    next
      case False
      then have f: "pg_find db' = (pg_find db)(n \<mapsto> ?r)" using eff Some by auto
      have "deferred_row (pg_view env r) (pe_ts env at) (pg_view env ?r)"
        by (simp add: deferred_row_def) (rule pg_view_same_event; simp)
      moreover have "pg_rows env db (pg_key i) = Some (pg_view env r)"
        using pg_claimed_find [OF Some] by (simp add: key pg_rows_def)
      ultimately show ?thesis
        using eff own Some key pgx_write_frame [OF f ran(1)] pg_rows_upd [OF f, of env] by auto
    qed
  qed
qed (use inv in \<open>auto simp: pg_owns_def pg_find_same_stmts\<close>)

lemma pgx_Terminate_law:
  assumes inv: "pg_inv env db" and op: "pgx_Terminate env c i x db = (e, db')"
  shows "pg_inv env db' \<and>
      (\<forall>j. pg_key j \<noteq> pg_key i \<longrightarrow> pg_owns db' j = pg_owns db j) \<and>
      (pg_rows env db' = pg_rows env db \<and> pg_letters env db' = pg_letters env db \<and> (pg_owns db i \<longrightarrow> e \<noteq> None) \<or>
       pg_owns db i \<and> (\<exists>r d. pg_rows env db (pg_key i) = Some r \<and> dead_row r x d \<and>
                            pg_rows env db' = (pg_rows env db)(pg_key i := None) \<and>
                            pg_letters env db' = (pg_letters env db)(pg_key i := Some d)))"
  using op [unfolded pgx_Terminate_def]
proof (cases rule: pgx_exec_cases)
  case (ran n t sr)
  let ?db = "db\<lparr>db_stmts := Suc (db_stmts db)\<rparr>"
  let ?d = "\<lambda>r. \<lparr>dl_Record = pg_view env r, dl_Reason = x, dl_FailedAt = pg_now env ?db,
                 dl_Attempts = pr_attempts r + 1\<rparr>"
  have eff: "pg_inv env db' \<and>
    (case pg_claimed db n t of
       None \<Rightarrow> pg_find db' = pg_find db \<and> pg_letters env db' = pg_letters env db
     | Some r \<Rightarrow>
         (sr \<noteq> Inr () \<and> pg_find db' = pg_find db \<and> pg_letters env db' = pg_letters env db) \<or>
         (pg_find db' = (pg_find db)(n := None) \<and>
          pg_letters env db' = (pg_letters env db)(Some n \<mapsto> ?d r)))"
    using terminateSQL_effect [OF _ ran(2)] inv by (simp cong: option.case_cong)
  have key: "pg_key i = Some n" using ran(1) by (simp add: pg_key_def)
  note own = pg_claimed_owns [OF ran(1), of db]
  show ?thesis
  proof (cases "pg_claimed db n t")
    case None
    then show ?thesis using eff own pg_find_same [of db' db env] by auto
  next
    case (Some r)
    show ?thesis
    proof (cases "sr \<noteq> Inr () \<and> pg_find db' = pg_find db \<and> pg_letters env db' = pg_letters env db")
      case True
      then show ?thesis using eff ran(3) pg_find_same [of db' db env] by auto
    next
      case False
      then have f: "pg_find db' = (pg_find db)(n := None)"
        and l: "pg_letters env db' = (pg_letters env db)(Some n \<mapsto> ?d r)" using eff Some by auto
      have "dead_row (pg_view env r) x (?d r)" by (simp add: dead_row_def)
      moreover have "pg_rows env db (pg_key i) = Some (pg_view env r)"
        using pg_claimed_find [OF Some] by (simp add: key pg_rows_def)
      ultimately show ?thesis
        using eff own Some key pgx_write_frame [OF f ran(1)] pg_rows_upd [OF f, of env] l by auto
    qed
  qed
qed (use inv in \<open>auto simp: pg_owns_def pg_find_same_stmts\<close>)

lemma pgx_Fetch_law:
  assumes inv: "pg_inv env db" and op: "pgx_Fetch env s c n db = (res, db')"
  shows "pg_inv env db' \<and> pg_letters env db' = pg_letters env db \<and>
      (\<forall>k. rel_option same_delivery (pg_rows env db k) (pg_rows env db' k))"
proof -
  have claim: ?thesis
    if sql: "fetchSQL env n (milliseconds (ps_claimLease s)) (db\<lparr>db_stmts := Suc (db_stmts db)\<rparr>) = (q, db')" for q
  proof -
    have inv1: "pg_inv env (db\<lparr>db_stmts := Suc (db_stmts db)\<rparr>)" using inv by simp
    obtain claimed g where "pg_inv env db'" "pg_letters env db' = pg_letters env db"
      and fd: "\<And>m. pg_find db' m = map_option g (pg_find db m)"
      and gc: "\<And>m r. pg_find db m = Some r \<Longrightarrow> g r = r \<or> claimed_as env (db_uuids db) r (g r)"
      by (rule fetchSQL_effect [OF inv1 sql]) simp
    moreover have "rel_option same_delivery (pg_rows env db k) (pg_rows env db' k)" for k
    proof (cases k)
      case (Some m)
      show ?thesis
        using fd [of m] gc [of m] claimed_as_view(2)
        by (cases "pg_find db m") (fastforce simp: Some pg_rows_def)+
    qed (simp add: pg_rows_def)
    ultimately show ?thesis by blast
  qed
  from op show ?thesis
    by (cases rule: pgx_Fetch_cases)
       (use inv claim in \<open>auto simp: option.rel_refl pg_find_same_stmts\<close>)
qed

lemma pgx_Fetch_owned_law:
  assumes inv: "pg_inv env db" and op: "pgx_Fetch env s c n db = (Inr rs, db')"
  shows "distinct (map (pg_key \<circ> rec_ID) rs) \<and>
      (\<forall>r \<in> set rs. pg_owns db' (rec_ID r) \<and> pg_rows env db' (pg_key (rec_ID r)) = Some r)"
  using op
proof (cases rule: pgx_Fetch_cases)
  case (claimed us)
  have inv1: "pg_inv env (db\<lparr>db_stmts := Suc (db_stmts db)\<rparr>)" using inv by simp
  obtain dist: "distinct (map pr_id us)" and inv': "pg_inv env db'"
    and us: "\<And>u. u \<in> set us \<Longrightarrow> pg_find db' (pr_id u) = Some u \<and> (\<exists>k. pr_claim_token u = Some (pe_uuid env k))"
    by (rule fetchSQL_effect [OF inv1 claimed(1)]) simp
  have scan: "map_result (pg_scan_row env (db_stmts db)) us = Inr rs" using claimed(2) by simp
  have len: "length rs = length us" by (rule map_result_Inr_length [OF scan])
  have rs: "rs ! j = pg_view env (us ! j)" if "j < length us" for j
    using map_result_Inr_nth [OF scan that] by (rule pg_scan_row_Inr)
  have key: "pg_key (rec_ID (pg_view env u)) = Some (pr_id u)" "pg_owns db' (rec_ID (pg_view env u))"
    if "u \<in> set us" for u
    using us [OF that] pg_view_key [OF inv'] by (auto simp: pg_key_def)
  have "map (pg_key \<circ> rec_ID) rs = map (Some \<circ> pr_id) us"
  proof (rule nth_equalityI)
    fix j assume "j < length (map (pg_key \<circ> rec_ID) rs)"
    then have j: "j < length us" by (simp add: len)
    then show "map (pg_key \<circ> rec_ID) rs ! j = map (Some \<circ> pr_id) us ! j"
      using key(1) [of "us ! j"] by (simp add: len rs)
  qed (simp add: len)
  moreover have "distinct (map (Some \<circ> pr_id) us)"
    using dist by (simp add: distinct_map inj_on_def comp_def)
  moreover have "pg_owns db' (rec_ID r) \<and> pg_rows env db' (pg_key (rec_ID r)) = Some r" if r: "r \<in> set rs" for r
  proof -
    obtain j where "j < length us" "r = pg_view env (us ! j)" using r len rs by (auto simp: in_set_conv_nth)
    then show ?thesis using key [of "us ! j"] us [of "us ! j"] by (simp add: pg_rows_def)
  qed
  ultimately show ?thesis by simp
qed simp_all

interpretation pgx_store: outbox_store "pgx_Fetch env s" "pgx_MarkSent env" "pgx_MarkFailed env"
  "pgx_Terminate env" pg_key "pg_rows env" "pg_letters env" pg_owns "pg_inv env" "pe_ts env"
  for env :: pg_env and s :: "'b pgx_store"
proof (unfold_locales, goal_cases)
  case 1 then show ?case by (rule pgx_Fetch_law)
next
  case 2 then show ?case by (rule pgx_Fetch_owned_law)
next
  case 3 then show ?case using pgx_MarkSent_law by blast
next
  case 4 then show ?case using pgx_MarkSent_law [OF 4(1,3)] by blast
next
  case 5 then show ?case using pgx_MarkFailed_law [OF 5] by blast
next
  case 6 then show ?case using pgx_MarkFailed_law [OF 6(1,3)] by blast
next
  case 7 then show ?case using pgx_Terminate_law [OF 7] by blast
next
  case 8 then show ?case using pgx_Terminate_law [OF 8(1,3)] by blast
qed

interpretation pgx_relay: relayed_store "pgx_Fetch env s" "pgx_MarkSent env" "pgx_MarkFailed env"
  "pgx_Terminate env" pg_key "pg_rows env" "pg_letters env" pg_owns "pg_inv env" "pe_ts env"
  for env :: pg_env and s :: "'b pgx_store"
  by unfold_locales

end
