(* ===== verification/Pgx_Outbox_Props.thy ===== *)
theory Pgx_Outbox_Props
  imports Pgx_Outbox
begin

text \<open>
  Properties of the Postgres outbox: the relay loses no row whatever the database reports,
  a record id whose claim is lost never writes again, two workers do not claim the same row
  within a lease, and what Stage inserts is what Fetch returns.
\<close>

section \<open>The relay on the Postgres store\<close>

text \<open>
  One drain of a relay on the Postgres store loses no row, whichever statements fail
  before or after taking effect, whatever rows other workers hold locked, and whatever the
  codec and publisher do: every row is afterwards still there with the same event and at most
  one more attempt, or gone because its event was accepted by the publisher, or replaced by
  a dead letter with the same event after its last allowed attempt; and no row or dead
  letter appears that was not there.
\<close>

lemma pgx_drain_no_loss:
  assumes "pg_inv env db"
    and "relay_wired r (pgx_Fetch env s) (pgx_MarkSent env) (pgx_MarkFailed env) (pgx_Terminate env)"
    and "observes D r" and "drainOnce r ctx (db, w) = (res, (db', w'))"
  shows "pg_inv env db' \<and>
    (\<forall>k. pg_rows env db k = None \<longrightarrow> pg_rows env db' k = None \<and> pg_letters env db' k = pg_letters env db k) \<and>
    (\<forall>k rec. pg_rows env db k = Some rec \<longrightarrow>
       (\<exists>rec'. pg_rows env db' k = Some rec' \<and> same_event rec rec' \<and>
          rec_Attempts rec' \<in> {rec_Attempts rec, rec_Attempts rec + 1} \<and> pg_letters env db' k = pg_letters env db k) \<or>
       (pg_rows env db' k = None \<and> delivered D r ctx rec w' \<and> pg_letters env db' k = pg_letters env db k) \<or>
       (pg_rows env db' k = None \<and> (\<exists>d. pg_letters env db' k = Some d \<and> same_event rec (dl_Record d) \<and>
          dl_Attempts d = rec_Attempts rec + 1 \<and> 0 < rl_maxAttempts r \<and> rl_maxAttempts r \<le> dl_Attempts d)))"
proof -
  note da = pgx_relay.drain_accounts [OF assms]
  have "(\<exists>rec'. pg_rows env db' k = Some rec' \<and> same_event rec rec' \<and>
          rec_Attempts rec' \<in> {rec_Attempts rec, rec_Attempts rec + 1} \<and> pg_letters env db' k = pg_letters env db k) \<or>
       (pg_rows env db' k = None \<and> delivered D r ctx rec w' \<and> pg_letters env db' k = pg_letters env db k) \<or>
       (pg_rows env db' k = None \<and> (\<exists>d. pg_letters env db' k = Some d \<and> same_event rec (dl_Record d) \<and>
          dl_Attempts d = rec_Attempts rec + 1 \<and> 0 < rl_maxAttempts r \<and> rl_maxAttempts r \<le> dl_Attempts d))"
    if row: "pg_rows env db k = Some rec" for k rec
  proof -
    obtain q where q: "same_delivery rec q" and f: "fate False (rl_maxAttempts r) q (delivered D r ctx q w')
        (pg_letters env db k) (pg_rows env db' k) (pg_letters env db' k)"
      using da row by blast
    have e: "same_event rec q" "rec_Attempts q = rec_Attempts rec" using q by (auto simp: same_delivery_def)
    from f show ?thesis
      unfolding fate_def deferred_row_def dead_row_def delivered_same_event [OF e(1)]
      using e by (auto intro: same_event_trans)
  qed
  then show ?thesis using da by blast
qed

section \<open>Claims\<close>

text \<open>The steps of any number of workers, with leases of their own, and clients on the tables.\<close>

inductive pgx_step :: "pg_env \<Rightarrow> 'b codec \<Rightarrow> pgdb \<Rightarrow> pgdb \<Rightarrow> bool"
  for env :: pg_env and cd :: "'b codec" where
  pgx_fetch: "pgx_Fetch env \<lparr>ps_codec = cd, ps_claimLease = lease\<rparr> ctx limit db = (res, db') \<Longrightarrow> pgx_step env cd db db'"
| pgx_sent: "pgx_MarkSent env ctx rid db = (e, db') \<Longrightarrow> pgx_step env cd db db'"
| pgx_failed: "pgx_MarkFailed env ctx rid reason t db = (e, db') \<Longrightarrow> pgx_step env cd db db'"
| pgx_terminate: "pgx_Terminate env ctx rid reason db = (e, db') \<Longrightarrow> pgx_step env cd db db'"
| pgx_staged: "pgx_step env cd db (pg_insert env topic pending db)"

text \<open>The claim number \<open>k\<close> on row \<open>n\<close> is not in force, and its token has been issued.\<close>

definition claim_lost :: "pg_env \<Rightarrow> int \<Rightarrow> nat \<Rightarrow> pgdb \<Rightarrow> bool" where
  "claim_lost env n k db \<longleftrightarrow> k < db_uuids db \<and>
     (\<forall>r \<in> set (db_rows db). pr_id r = n \<longrightarrow> pr_claim_token r \<noteq> Some (pe_uuid env k))"

lemma claim_lost_stmts [simp]: "claim_lost env n k (db\<lparr>db_stmts := a\<rparr>) = claim_lost env n k db"
  by (simp add: claim_lost_def)

lemma pg_claim_token:
  "u \<in> set (pg_claim env n until due) \<Longrightarrow>
     \<exists>k. n \<le> k \<and> k < n + length due \<and> pr_claim_token u = Some (pe_uuid env k)"
  by (fastforce simp: pg_claim_def dest: set_zip_leftD)

lemma claim_lost_fetchSQL:
  assumes "claim_lost env n k db" and inj: "inj_on (pe_uuid env) {..< db_uuids db'}"
    and "fetchSQL env limit ms db = (res, db')"
  shows "claim_lost env n k db'"
proof -
  define due where "due = pg_due (pg_now env db) (pe_locked env (db_stmts db)) limit (db_rows db)"
  define upd where "upd = pg_claim env (db_uuids db) (pg_now env db + ms * millisecond) due"
  have db': "db_rows db' = map (\<lambda>r. case find (\<lambda>u. pr_id u = pr_id r) upd of Some u \<Rightarrow> u | None \<Rightarrow> r) (db_rows db)"
    "db_uuids db' = db_uuids db + length due"
    using assms(3) by (auto simp: fetchSQL_def Let_def due_def upd_def)
  have "pr_claim_token u \<noteq> Some (pe_uuid env k)" if u: "u \<in> set upd" for u
  proof -
    obtain j where "db_uuids db \<le> j" "j < db_uuids db'" "pr_claim_token u = Some (pe_uuid env j)"
      using pg_claim_token u unfolding upd_def db'(2) by blast
    moreover have "k < db_uuids db" using assms(1) by (simp add: claim_lost_def)
    ultimately show ?thesis using inj_onD [OF inj, of j k] by auto
  qed
  then show ?thesis
    using assms(1) by (auto simp: claim_lost_def db' split: option.splits dest: find_Some_in)
qed

lemma fetchSQL_uuids: "fetchSQL env limit ms db = (res, db') \<Longrightarrow> db_uuids db \<le> db_uuids db'"
  by (auto simp: fetchSQL_def Let_def)

lemma pgx_exec_uuids:
  assumes "pgx_exec env what stmt i db = (e, db')"
    and "\<And>m t d sr d'. stmt m t d = (sr, d') \<Longrightarrow> db_uuids d' = db_uuids d"
  shows "db_uuids db' = db_uuids db"
  using assms(1) by (cases rule: pgx_exec_cases) (auto dest!: assms(2))

lemma claim_lost_exec:
  assumes "claim_lost env n k db" and "pgx_exec env what stmt i db = (e, db')"
    and "\<And>m t d sr d'. claim_lost env n k d \<Longrightarrow> stmt m t d = (sr, d') \<Longrightarrow> claim_lost env n k d'"
  shows "claim_lost env n k db'"
  using assms(2) by (cases rule: pgx_exec_cases) (use assms(1,3) claim_lost_stmts in blast)+

text \<open>What the INSERT leaves behind, in closed form.\<close>

lemma pg_insert_spec:
  "pg_insert env topic ps db =
     db\<lparr>db_rows := db_rows db @ map (\<lambda>j. pg_new_row env topic (db_seq db + int j) (db_ticks db + 2 * j) (ps ! j))
                                   [0..<length ps],
        db_seq := db_seq db + int (length ps), db_ticks := db_ticks db + 2 * length ps\<rparr>"
proof (induction ps arbitrary: db)
  case (Cons p ps)
  have "map f [0..<Suc n] = f 0 # map (\<lambda>j. f (Suc j)) [0..<n]" for f :: "nat \<Rightarrow> pg_row" and n
    by (simp add: upt_conv_Cons map_Suc_upt [symmetric] comp_def del: upt_Suc)
  then show ?case by (simp add: Cons.IH algebra_simps del: upt_Suc)
qed simp

lemma pgx_step_uuids:
  assumes "pgx_step env cd db db'"
  shows "db_uuids db \<le> db_uuids db'"
  using assms
proof (induction rule: pgx_step.induct)
  case (pgx_fetch lease ctx limit db res db')
  from pgx_fetch(1) show ?case by (cases rule: pgx_Fetch_cases) (auto dest!: fetchSQL_uuids)
next
  case (pgx_sent ctx rid db e db')
  then show ?case
    unfolding pgx_MarkSent_def by (auto simp: markSentSQL_def dest!: pgx_exec_uuids)
next
  case (pgx_failed ctx rid reason t db e db')
  then have "db_uuids db' = db_uuids db"
    unfolding pgx_MarkFailed_def by (rule pgx_exec_uuids) (auto simp: markFailedSQL_def split: if_splits)
  then show ?case by simp
next
  case (pgx_terminate ctx rid reason db e db')
  then have "db_uuids db' = db_uuids db"
    unfolding pgx_Terminate_def
    by (rule pgx_exec_uuids) (auto simp: terminateSQL_def Let_def pg_tick_def split: if_splits)
  then show ?case by simp
qed (simp add: pg_insert_spec)

lemma claim_lost_step:
  assumes "pgx_step env cd db db'" and "claim_lost env n k db" and "inj_on (pe_uuid env) {..< db_uuids db'}"
  shows "claim_lost env n k db'"
  using assms
proof (induction rule: pgx_step.induct)
  case (pgx_fetch lease ctx limit db res db')
  from pgx_fetch(1) show ?case
    by (cases rule: pgx_Fetch_cases) (use pgx_fetch claim_lost_fetchSQL claim_lost_stmts in blast)+
next
  case (pgx_sent ctx rid db e db')
  from pgx_sent(1) [unfolded pgx_MarkSent_def] show ?case
    by (rule claim_lost_exec [OF pgx_sent(2)]) (auto simp: markSentSQL_def claim_lost_def)
next
  case (pgx_failed ctx rid reason t db e db')
  from pgx_failed(1) [unfolded pgx_MarkFailed_def] show ?case
    by (rule claim_lost_exec [OF pgx_failed(2)]) (auto simp: markFailedSQL_def claim_lost_def split: if_splits)
next
  case (pgx_terminate ctx rid reason db e db')
  from pgx_terminate(1) [unfolded pgx_Terminate_def] show ?case
    by (rule claim_lost_exec [OF pgx_terminate(2)])
       (auto simp: terminateSQL_def claim_lost_def Let_def pg_tick_def split: if_splits)
next
  case (pgx_staged db topic pending)
  then show ?case by (auto simp: claim_lost_def pg_insert_spec pg_new_row_def)
qed

lemma claim_lost_steps:
  assumes "(pgx_step env cd)\<^sup>*\<^sup>* db db'" and "claim_lost env n k db"
    and "inj_on (pe_uuid env) {..< db_uuids db'}"
  shows "claim_lost env n k db'"
  using assms
proof (induction rule: rtranclp_induct)
  case (step y z)
  have "inj_on (pe_uuid env) {..< db_uuids y}"
    using step.prems(2) pgx_step_uuids [OF step.hyps(2)] by (auto intro: inj_on_subset)
  then show ?case using step claim_lost_step by blast
qed

text \<open>
  C10: A lost claim stays lost. Once the row of a record id that Fetch handed out no longer
  carries its token (because the row was sent, failed, terminated, or claimed again after the
  lease ran out), then after any further steps of any workers and clients, MarkSent,
  MarkFailed and Terminate under that id change no row and no dead letter. So a stale worker
  cannot delete, delay or dead-letter a row another worker has since claimed, and a row is
  dead-lettered at most once. (The server has not repeated a UUID.)
\<close>

theorem pgx_lost_claim_never_writes:
  assumes "claim_lost env n k db" and "(pgx_step env cd)\<^sup>*\<^sup>* db db'"
    and "inj_on (pe_uuid env) {..< db_uuids db'}" and "pg_inv env db'" and "- (2 ^ 63) \<le> n" and "n < 2 ^ 63"
    and "rid = encodeID n (pe_uuid env k)"
    and "db'' \<in> {snd (pgx_MarkSent env ctx rid db'), snd (pgx_MarkFailed env ctx rid reason t db'),
                snd (pgx_Terminate env ctx rid reason db')}"
  shows "pg_rows env db'' = pg_rows env db' \<and> pg_letters env db'' = pg_letters env db'"
proof -
  have canon: "uuid_canonical (pe_uuid env k)" using assms(4) by (simp add: pg_inv_def)
  then have parse: "parseID rid = Inr (n, pe_uuid env k)"
    using parseID_encodeID [OF assms(5,6)] by (simp add: assms(7) uuid_canonical_def)
  have lost: "claim_lost env n k db'" by (rule claim_lost_steps [OF assms(2,1,3)])
  have "pg_claimed db' n (pe_uuid env k) = None"
    using lost canon
    by (auto simp: claim_lost_def pg_claimed_def pg_hit_def uuid_canonical_def split: option.splits dest: pg_find_id)
  then have own: "\<not> pg_owns db' rid" using pg_claimed_owns [OF parse] by blast
  show ?thesis
    using assms(8) own pgx_MarkSent_law [OF assms(4), of ctx rid] pgx_MarkFailed_law [OF assms(4), of ctx rid reason t]
      pgx_Terminate_law [OF assms(4), of ctx rid reason]
    by (metis empty_iff insert_iff prod.collapse)
qed

text \<open>A small server for concrete evaluations: two UUIDs, a clock that ticks once per second, no faults.\<close>

definition example_env :: pg_env where
  "example_env = \<lparr>
     pe_uuid = (\<lambda>n. if n = 0 then ''00000000-0000-4000-8000-000000000001'' else ''00000000-0000-4000-8000-000000000002''),
     pe_clock = (\<lambda>n. int n * second), pe_fault = (\<lambda>n. NoFault), pe_locked = (\<lambda>n. []), pe_scanFault = (\<lambda>n r. None),
     pe_ts = (\<lambda>t. t div 1000 * 1000), pe_jsonMarshal = (\<lambda>h. Inr ''{}''), pe_jsonb = (\<lambda>b. b),
     pe_jsonUnmarshal = (\<lambda>b. Inr Map.empty)\<rparr>"

definition example_row :: pg_row where
  "example_row = \<lparr>pr_id = 7, pr_event_id = ''e1'', pr_topic = ''t'', pr_event_name = ''order.placed'',
     pr_aggregate_id = ''o1'', pr_aggregate_type = ''Order'', pr_payload = ''x'', pr_headers = ''{}'',
     pr_created_at = 0, pr_available_at = 0, pr_attempts = 0, pr_last_error = None,
     pr_claimed_until = None, pr_claim_token = None\<rparr>"

definition example_db :: pgdb where
  "example_db = \<lparr>db_rows = [example_row], db_dead = [], db_seq = 8, db_uuids = 1, db_ticks = 10, db_stmts = 0\<rparr>"

lemma example_uuids_canonical:
  "uuid_canonical ''00000000-0000-4000-8000-000000000001''"
  "uuid_canonical ''00000000-0000-4000-8000-000000000002''"
  unfolding uuid_canonical_def uuidShape_def by code_simp+

lemma example_db_inv: "pg_inv example_env (example_db\<lparr>db_uuids := u, db_rows := [example_row\<lparr>pr_claim_token := t\<rparr>]\<rparr>)"
  by (simp add: pg_inv_def example_env_def example_db_def example_row_def example_uuids_canonical)

lemma example_db_inv0: "pg_inv example_env example_db"
  by (simp add: pg_inv_def example_env_def example_db_def example_row_def example_uuids_canonical)

text \<open>The row was claimed under the first UUID, then claimed again under the second.\<close>

theorem pgx_lost_claim_never_writes_witness:
  "let db = example_db\<lparr>db_uuids := 2, db_rows := [example_row\<lparr>pr_claim_token := Some (pe_uuid example_env 1)\<rparr>]\<rparr>;
       rid = encodeID 7 (pe_uuid example_env 0)
   in pg_rows example_env (snd (pgx_Terminate example_env background rid ''gone'' db)) = pg_rows example_env db"
proof -
  let ?db = "example_db\<lparr>db_uuids := 2, db_rows := [example_row\<lparr>pr_claim_token := Some (pe_uuid example_env 1)\<rparr>]\<rparr>"
  let ?rid = "encodeID 7 (pe_uuid example_env 0)"
  have lost: "claim_lost example_env 7 0 ?db"
    by (simp add: claim_lost_def example_env_def example_row_def)
  have inj: "inj_on (pe_uuid example_env) {..< db_uuids ?db}"
    by (auto simp: inj_on_def example_env_def numeral_2_eq_2 less_Suc_eq)
  show ?thesis
    using pgx_lost_claim_never_writes [OF lost rtranclp.rtrancl_refl inj example_db_inv _ _ refl,
        of "snd (pgx_Terminate example_env background ?rid ''gone'' ?db)" background "''gone''" 0]
    by (simp add: Let_def)
qed

section \<open>What Fetch claims\<close>

lemma pg_claim_order: "map pg_order (pg_claim env n until due) = map pg_order due"
  unfolding pg_claim_def by (rule nth_equalityI) (simp_all add: pg_order_def)

lemma pg_due_sorted: "sorted (map pg_order (pg_due now locked limit rs))"
  unfolding pg_due_def by (simp add: sorted_wrt_take flip: take_map)

lemma pg_claim_until: "u \<in> set (pg_claim env n until due) \<Longrightarrow> pr_claimed_until u = Some until"
  by (auto simp: pg_claim_def)

lemma pg_due_elem:
  "r \<in> set (pg_due now locked limit rs) \<Longrightarrow>
     r \<in> set rs \<and> pr_available_at r \<le> now \<and> pr_id r \<notin> set locked \<and>
     (case pr_claimed_until r of None \<Rightarrow> True | Some t \<Rightarrow> t \<le> now)"
  unfolding pg_due_def by (auto dest!: in_set_takeD)

text \<open>The statement behind a successful Fetch, and the rows it claimed.\<close>

lemma pgx_Fetch_rows:
  assumes inv: "pg_inv env db" and op: "pgx_Fetch env s c n db = (Inr rs, db')" and "0 < n"
  defines "due \<equiv> pg_due (pg_now env db) (pe_locked env (Suc (db_stmts db))) n (db_rows db)"
  shows "map (pg_key \<circ> rec_ID) rs = map (Some \<circ> pr_id) due"
    and "rec \<in> set rs \<Longrightarrow> \<exists>u k. parseID (rec_ID rec) = Inr (pr_id u, pe_uuid env k) \<and> pg_find db' (pr_id u) = Some u \<and>
           pr_claim_token u = Some (pe_uuid env k) \<and>
           pr_claimed_until u = Some (pg_now env db + milliseconds (ps_claimLease s) * millisecond)"
proof -
  let ?db = "db\<lparr>db_stmts := Suc (db_stmts db)\<rparr>"
  let ?until = "pg_now env db + milliseconds (ps_claimLease s) * millisecond"
  define upd where "upd = pg_claim env (db_uuids db) ?until due"
  have sorted: "sort_key pg_order upd = upd"
    by (rule sort_key_id_if_sorted) (simp add: upd_def pg_claim_order due_def pg_due_sorted)
  have now: "pg_now env ?db = pg_now env db" by (simp add: pg_now_def)
  obtain us where us: "fetchSQL env n (milliseconds (ps_claimLease s)) ?db = (Inr us, db')"
    and scan: "map_result (pg_scan_row env (db_stmts db)) us = Inr rs"
    using op \<open>0 < n\<close>
    by (auto simp: pgx_Fetch_def pg_run_def Let_def split: fault.splits prod.splits sum.splits)
  have us_eq: "us = upd"
    using us sorted by (auto simp: fetchSQL_def Let_def now due_def upd_def)
  have inv1: "pg_inv env ?db" using inv by simp
  obtain inv': "pg_inv env db'" and hit: "\<And>u. u \<in> set us \<Longrightarrow> pg_find db' (pr_id u) = Some u \<and>
      (\<exists>k. pr_claim_token u = Some (pe_uuid env k))"
    by (rule fetchSQL_effect [OF inv1 us]) simp
  have len: "length rs = length us" by (rule map_result_Inr_length [OF scan])
  have rec: "\<exists>k. parseID (rec_ID (rs ! j)) = Inr (pr_id (us ! j), pe_uuid env k) \<and> pr_claim_token (us ! j) = Some (pe_uuid env k)"
    if j: "j < length us" for j
    using map_result_Inr_nth [OF scan j, THEN pg_scan_row_Inr] hit [of "us ! j"] j pg_view_key(1) [OF inv'] by auto
  then have key: "pg_key (rec_ID (rs ! j)) = Some (pr_id (us ! j))" if "j < length us" for j
    using that by (fastforce simp: pg_key_def)
  have "map (pg_key \<circ> rec_ID) rs = map Some (map pr_id us)"
    by (rule nth_equalityI) (simp_all add: len key)
  then show "map (pg_key \<circ> rec_ID) rs = map (Some \<circ> pr_id) due"
    by (simp add: us_eq upd_def pg_claim_ids flip: map_map)
  assume "rec \<in> set rs"
  then obtain j where j: "j < length us" "rec = rs ! j" by (auto simp: in_set_conv_nth len)
  moreover have "pg_find db' (pr_id (us ! j)) = Some (us ! j)" using hit j by simp
  moreover have "pr_claimed_until (us ! j) = Some ?until"
    using pg_claim_until [of "us ! j" env "db_uuids db" ?until due] j us_eq unfolding upd_def by simp
  ultimately show "\<exists>u k. parseID (rec_ID rec) = Inr (pr_id u, pe_uuid env k) \<and> pg_find db' (pr_id u) = Some u \<and>
      pr_claim_token u = Some (pe_uuid env k) \<and> pr_claimed_until u = Some ?until"
    using rec [OF j(1)] by blast
qed

text \<open>
  What others may do while a worker holds the claims \<open>H\<close>: anything but MarkFailed under one of these
  claims, by which their holder gives one back. Two record ids name the same claim if they carry the
  same row id and the same UUID.
\<close>

definition same_claim :: "string \<Rightarrow> string \<Rightarrow> bool" where
  "same_claim i j \<longleftrightarrow> (\<exists>n t t'. parseID i = Inr (n, t) \<and> parseID j = Inr (n, t') \<and> uuid_cast t = uuid_cast t')"

inductive pgx_step_sparing :: "pg_env \<Rightarrow> 'b codec \<Rightarrow> string set \<Rightarrow> pgdb \<Rightarrow> pgdb \<Rightarrow> bool"
  for env :: pg_env and cd :: "'b codec" and H :: "string set" where
  spare_fetch: "pgx_Fetch env \<lparr>ps_codec = cd, ps_claimLease = lease\<rparr> ctx limit db = (res, db') \<Longrightarrow> pgx_step_sparing env cd H db db'"
| spare_sent: "pgx_MarkSent env ctx rid db = (e, db') \<Longrightarrow> pgx_step_sparing env cd H db db'"
| spare_failed: "pgx_MarkFailed env ctx rid reason t db = (e, db') \<Longrightarrow> \<forall>h \<in> H. \<not> same_claim rid h \<Longrightarrow>
    pgx_step_sparing env cd H db db'"
| spare_terminate: "pgx_Terminate env ctx rid reason db = (e, db') \<Longrightarrow> pgx_step_sparing env cd H db db'"
| spare_staged: "pgx_step_sparing env cd H db (pg_insert env topic pending db)"

text \<open>The claim of row \<open>n\<close> with the UUID \<open>tok\<close> until \<open>t\<close> is in force, or the row is gone.\<close>

definition leased :: "int \<Rightarrow> string \<Rightarrow> time \<Rightarrow> pgdb \<Rightarrow> bool" where
  "leased n tok t db \<longleftrightarrow> n < db_seq db \<and>
     (\<forall>r \<in> set (db_rows db). pr_id r = n \<longrightarrow> pr_claim_token r = Some tok \<and> pr_claimed_until r = Some t)"

lemma leased_stmts [simp]: "leased n tok t (db\<lparr>db_stmts := a\<rparr>) = leased n tok t db"
  by (simp add: leased_def)

lemma leased_fetchSQL:
  assumes "leased n tok t db" and "pg_now env db < t" and "fetchSQL env limit ms db = (res, db')"
  shows "leased n tok t db'"
proof -
  define due where "due = pg_due (pg_now env db) (pe_locked env (db_stmts db)) limit (db_rows db)"
  define upd where "upd = pg_claim env (db_uuids db) (pg_now env db + ms * millisecond) due"
  have db': "db_rows db' = map (\<lambda>r. case find (\<lambda>u. pr_id u = pr_id r) upd of Some u \<Rightarrow> u | None \<Rightarrow> r) (db_rows db)"
    "db_seq db' = db_seq db"
    using assms(3) by (auto simp: fetchSQL_def Let_def due_def upd_def pg_tick_def)
  have "pr_id r \<noteq> n" if "r \<in> set due" for r
    using pg_due_elem [OF that [unfolded due_def]] assms(1,2) by (auto simp: leased_def)
  then have "n \<notin> set (map pr_id upd)" unfolding upd_def pg_claim_ids by auto
  then have "pr_id u \<noteq> n" if "u \<in> set upd" for u using that by auto
  then show ?thesis
    using assms(1) by (auto simp: leased_def db' split: option.splits dest: find_Some_in)
qed

lemma leased_exec:
  assumes "leased n tok t db" and "pgx_exec env what stmt i db = (e, db')"
    and "\<And>m c d sr d'. parseID i = Inr (m, c) \<Longrightarrow> leased n tok t d \<Longrightarrow> stmt m c d = (sr, d') \<Longrightarrow> leased n tok t d'"
  shows "leased n tok t db'"
  using assms(2) by (cases rule: pgx_exec_cases) (use assms(1,3) leased_stmts in blast)+

lemma pgx_exec_ticks:
  assumes "pgx_exec env what stmt i db = (e, db')"
    and "\<And>m t d sr d'. stmt m t d = (sr, d') \<Longrightarrow> db_ticks d \<le> db_ticks d'"
  shows "db_ticks db \<le> db_ticks db'"
  using assms(1) by (cases rule: pgx_exec_cases) (auto dest!: assms(2))

lemma sparing_ticks: "pgx_step_sparing env cd H db db' \<Longrightarrow> db_ticks db \<le> db_ticks db'"
proof (induction rule: pgx_step_sparing.induct)
  case (spare_fetch lease ctx limit db res db')
  then show ?case by (cases rule: pgx_Fetch_cases) (auto simp: fetchSQL_def Let_def pg_tick_def)
next
  case (spare_sent ctx rid db e db')
  then show ?case unfolding pgx_MarkSent_def by (rule pgx_exec_ticks) (auto simp: markSentSQL_def)
next
  case (spare_failed ctx rid reason t db e db')
  from spare_failed(1) show ?case
    unfolding pgx_MarkFailed_def by (rule pgx_exec_ticks) (auto simp: markFailedSQL_def split: if_splits)
next
  case (spare_terminate ctx rid reason db e db')
  then show ?case
    unfolding pgx_Terminate_def
    by (rule pgx_exec_ticks) (auto simp: terminateSQL_def Let_def pg_tick_def split: if_splits)
qed (simp add: pg_insert_spec)

lemma leased_step:
  assumes "pgx_step_sparing env cd H db db'" and "leased n tok t db" and "pg_now env db < t"
    and h: "h \<in> H" "parseID h = Inr (n, tok)" "uuid_cast tok = tok"
  shows "leased n tok t db'"
  using assms(1-3)
proof (induction rule: pgx_step_sparing.induct)
  case (spare_fetch lease ctx limit db res db')
  have "leased n tok t (db\<lparr>db_stmts := Suc (db_stmts db)\<rparr>)" "pg_now env (db\<lparr>db_stmts := Suc (db_stmts db)\<rparr>) < t"
    using spare_fetch(2,3) by (simp_all add: pg_now_def)
  note sql = leased_fetchSQL [OF this]
  from spare_fetch(1) show ?case by (cases rule: pgx_Fetch_cases) (use spare_fetch(2) sql in auto)
next
  case (spare_sent ctx rid db e db')
  from spare_sent(1) [unfolded pgx_MarkSent_def] show ?case
    by (rule leased_exec [OF spare_sent(2)]) (auto simp: markSentSQL_def leased_def)
next
  case (spare_failed ctx rid reason x db e db')
  have other: "\<not> (m = n \<and> uuid_cast c = tok)" if "parseID rid = Inr (m, c)" for m c
    using spare_failed(2) h that by (auto simp: same_claim_def)
  from spare_failed(1) [unfolded pgx_MarkFailed_def] show ?case
    by (rule leased_exec [OF spare_failed(3)])
       (use other in \<open>fastforce simp: markFailedSQL_def leased_def pg_hit_def split: if_splits\<close>)
next
  case (spare_terminate ctx rid reason db e db')
  from spare_terminate(1) [unfolded pgx_Terminate_def] show ?case
    by (rule leased_exec [OF spare_terminate(2)])
       (auto simp: terminateSQL_def leased_def Let_def pg_tick_def split: if_splits)
next
  case (spare_staged db topic pending)
  then show ?case by (auto simp: leased_def pg_insert_spec pg_new_row_def)
qed

lemma leased_steps:
  assumes "(pgx_step_sparing env cd H)\<^sup>*\<^sup>* db db'" and "mono (pe_clock env)" and "leased n tok t db" and "pg_now env db' < t"
    and h: "h \<in> H" "parseID h = Inr (n, tok)" "uuid_cast tok = tok"
  shows "leased n tok t db'"
  using assms(1,3,4)
proof (induction rule: rtranclp_induct)
  case (step y z)
  have "pg_now env y \<le> pg_now env z"
    using sparing_ticks [OF step.hyps(2)] assms(2) by (simp add: pg_now_def monoD)
  then show ?case using step leased_step [OF step.hyps(2) _ _ h] by auto
qed

text \<open>
  C19: A row that a Fetch has handed out is not handed out again within its lease, unless its
  holder gives it back. After a Fetch, let any workers and clients do anything (fetch with
  leases of their own, mark sent, terminate, stage, and fail rows under other claims), as long
  as no MarkFailed is made under a claim of this Fetch: every later Fetch that runs before the
  lease has ended on the server's clock returns none of its rows. Every Fetch returns at most its
  limit of rows, each due, not leased and not locked by another transaction, in the order of
  (available_at, id). (Row ids come from the sequence, the server's clock does not go back.)
\<close>

theorem pgx_Fetch_exclusive:
  assumes "pg_inv env db" and "\<forall>r \<in> set (db_rows db). pr_id r < db_seq db" and "mono (pe_clock env)"
    and "0 < n" and "0 < n'"
    and "pgx_Fetch env s ctx n db = (Inr rs, db1)"
    and "(pgx_step_sparing env cd (rec_ID ` set rs))\<^sup>*\<^sup>* db1 db2" and "pg_inv env db2"
    and "pgx_Fetch env s' ctx' n' db2 = (Inr rs', db3)"
    and "pg_now env db2 < pg_now env db + milliseconds (ps_claimLease s) * millisecond"
  shows "pg_key ` rec_ID ` set rs \<inter> pg_key ` rec_ID ` set rs' = {} \<and> int (length rs) \<le> n \<and>
    (\<exists>due. map (pg_key \<circ> rec_ID) rs = map (Some \<circ> pr_id) due \<and> sorted (map pg_order due) \<and>
       (\<forall>r \<in> set due. r \<in> set (db_rows db) \<and> pr_available_at r \<le> pg_now env db \<and>
          pr_id r \<notin> set (pe_locked env (Suc (db_stmts db))) \<and>
          (case pr_claimed_until r of None \<Rightarrow> True | Some t \<Rightarrow> t \<le> pg_now env db)))"
proof -
  let ?due = "pg_due (pg_now env db) (pe_locked env (Suc (db_stmts db))) n (db_rows db)"
  let ?due2 = "pg_due (pg_now env db2) (pe_locked env (Suc (db_stmts db2))) n' (db_rows db2)"
  let ?until = "pg_now env db + milliseconds (ps_claimLease s) * millisecond"
  note one = pgx_Fetch_rows [OF assms(1,6,4)] and two = pgx_Fetch_rows [OF assms(8,9,5)]
  have inv1: "pg_inv env db1" using pgx_Fetch_law [OF assms(1,6)] by simp
  have ids: "map pr_id (db_rows db1) = map pr_id (db_rows db)" "db_seq db1 = db_seq db"
    by (rule pgx_Fetch_cases [OF assms(6)]; auto simp: fetchSQL_def Let_def pg_tick_def split: option.split dest: find_Some_in)+
  have "pg_key (rec_ID q) \<noteq> pg_key (rec_ID rec)" if "rec \<in> set rs" and "q \<in> set rs'" for rec q
  proof
    assume eq: "pg_key (rec_ID q) = pg_key (rec_ID rec)"
    obtain u k where u: "parseID (rec_ID rec) = Inr (pr_id u, pe_uuid env k)" "pg_find db1 (pr_id u) = Some u"
      "pr_claim_token u = Some (pe_uuid env k)" "pr_claimed_until u = Some ?until"
      using one(2) [OF \<open>rec \<in> set rs\<close>] by blast
    have "uuid_cast (pe_uuid env k) = pe_uuid env k" using inv1 by (simp add: pg_inv_def uuid_canonical_def)
    have "r = u" if "r \<in> set (db_rows db1)" "pr_id r = pr_id u" for r
      using that u(2) inv1 find_key_distinct [of pr_id "db_rows db1" r] by (simp add: pg_find_def pg_inv_def)
    moreover have "pr_id u < db_seq db1"
      using pg_find_id [OF u(2)] assms(2) ids by (metis (no_types, lifting) imageE image_eqI list.set_map)
    ultimately have "leased (pr_id u) (pe_uuid env k) ?until db1" using u(3,4) by (auto simp: leased_def)
    then have kept: "leased (pr_id u) (pe_uuid env k) ?until db2"
      by (rule leased_steps [OF assms(7,3) _ assms(10) imageI [OF \<open>rec \<in> set rs\<close>] u(1)])
         fact
    have "Some (pr_id u) \<in> set (map (pg_key \<circ> rec_ID) rs')"
      using eq u(1) \<open>q \<in> set rs'\<close> by (force simp: pg_key_def)
    then obtain r where r: "r \<in> set ?due2" "pr_id r = pr_id u" unfolding two(1) by auto
    with pg_due_elem [OF r(1)] kept assms(10) show False by (auto simp: leased_def)
  qed
  then have "pg_key ` rec_ID ` set rs \<inter> pg_key ` rec_ID ` set rs' = {}" by (auto dest: sym)
  moreover have "length rs = length ?due" using arg_cong [OF one(1), of length] by simp
  then have "int (length rs) \<le> n" using assms(4) by (simp add: pg_due_def)
  ultimately show ?thesis
    using one(1) pg_due_elem [where rs = "db_rows db"]
    by (intro conjI exI [of _ ?due] ballI pg_due_sorted) auto
qed

text \<open>A second worker stages an event and then fetches, within the lease of the first.\<close>

definition example_staged where
  "example_staged = \<lparr>sg_eventID = ''e2'', sg_eventName = ''order.placed'', sg_aggregateID = ''o2'', sg_aggregateType = ''Order'',
     sg_payload = ''y'', sg_headers = ''{}''\<rparr>"

theorem pgx_Fetch_exclusive_witness:
  "let s = \<lparr>ps_codec = example_codec, ps_claimLease = defaultClaimLease\<rparr>;
       (rs, db1) = pgx_Fetch example_env s background 10 example_db;
       db2 = pg_insert example_env ''t'' [example_staged] db1;
       (rs', db3) = pgx_Fetch example_env s background 10 db2
   in map_sum id (map rec_EventID) rs = Inr [''e1''] \<and>
      (\<forall>q. rs' = Inr q \<longrightarrow> pg_key ` rec_ID ` set (projr rs) \<inter> pg_key ` rec_ID ` set q = {})"
proof -
  let ?s = "\<lparr>ps_codec = example_codec, ps_claimLease = defaultClaimLease\<rparr>"
  let ?u = "example_row\<lparr>pr_claimed_until := Some (15 * second), pr_claim_token := Some (pe_uuid example_env 1)\<rparr>"
  let ?db1 = "example_db\<lparr>db_stmts := 1, db_ticks := 11, db_uuids := 2, db_rows := [?u]\<rparr>"
  let ?db2 = "pg_insert example_env ''t'' [example_staged] ?db1"
  have lease: "milliseconds defaultClaimLease * millisecond = 5 * second"
    by (simp add: defaultClaimLease_def milliseconds_def millisecond_def second_def)
  have f1: "pgx_Fetch example_env ?s background 10 example_db = (Inr [pg_record ?u Map.empty], ?db1)"
    by (simp add: pgx_Fetch_def pg_run_def fetchSQL_def pg_now_def pg_tick_def pg_due_def pg_claim_def
        pg_scan_row_def pg_scan_def pg_headers_def example_db_def example_row_def example_env_def lease)
       (simp add: second_def Let_def pg_scan_row_def pg_scan_def pg_headers_def)
  obtain rs' db3 where f2: "pgx_Fetch example_env ?s background 10 ?db2 = (rs', db3)" by (metis surj_pair)
  have steps: "(pgx_step_sparing example_env example_codec (rec_ID ` set [pg_record ?u Map.empty]))\<^sup>*\<^sup>* ?db1 ?db2"
    by (rule r_into_rtranclp) (rule spare_staged)
  have now: "pg_now example_env ?db2 < pg_now example_env example_db + milliseconds (ps_claimLease ?s) * millisecond"
    using lease by (simp add: pg_now_def example_env_def example_db_def second_def)
  have seq: "\<forall>r \<in> set (db_rows example_db). pr_id r < db_seq example_db" by (simp add: example_db_def example_row_def)
  have mono: "mono (pe_clock example_env)" by (simp add: mono_def example_env_def second_def)
  have inv2: "pg_inv example_env ?db2"
    by (simp add: pg_inv_def example_env_def example_db_def example_row_def pg_new_row_def example_uuids_canonical)
  have "pg_key ` rec_ID ` set [pg_record ?u Map.empty] \<inter> pg_key ` rec_ID ` set q = {}" if "rs' = Inr q" for q
    using pgx_Fetch_exclusive [OF example_db_inv0 seq mono _ _ f1 steps inv2 f2 [unfolded that] now] by simp
  then show ?thesis unfolding Let_def f1 prod.case f2 by (simp add: pg_record_def example_row_def)
qed

section \<open>Staging in a transaction\<close>

lemma pgx_stage_one_Inr:
  assumes "pgx_stage_one env cd ctx ev = Inr p"
  obtains msg j where "cd_Marshal cd ctx ev = Inr msg" "pe_jsonMarshal env (msg_Metadata msg) = Inr j"
    "p = \<lparr>sg_eventID = ev_EventID ev, sg_eventName = ev_EventName ev, sg_aggregateID = ev_AggregateID ev,
          sg_aggregateType = ev_AggregateType ev, sg_payload = msg_Payload msg, sg_headers = j\<rparr>"
  using assms by (auto simp: pgx_stage_one_def split: sum.splits)

text \<open>The JSON of a header map survives the JSONB column.\<close>

definition json_survives :: "pg_env \<Rightarrow> headers \<Rightarrow> bool" where
  "json_survives env h \<longleftrightarrow>
     (\<forall>j. pe_jsonMarshal env h = Inr j \<longrightarrow>
        pe_jsonb env j \<noteq> [] \<and> pe_jsonUnmarshal env (pe_jsonb env j) = Inr h)"

lemma pg_scan_new_row:
  assumes "pgx_stage_one env cd ctx ev = Inr p" and "cd_Marshal cd ctx ev = Inr msg"
    and "json_survives env (msg_Metadata msg)"
  shows "\<exists>rec. pg_scan env (pg_new_row env topic rid tick p) = Inr rec \<and>
     rec_EventID rec = ev_EventID ev \<and> rec_Topic rec = topic \<and> rec_EventName rec = ev_EventName ev \<and>
     rec_AggregateID rec = ev_AggregateID ev \<and> rec_AggregateType rec = ev_AggregateType ev \<and>
     rec_Payload rec = msg_Payload msg \<and> rec_Headers rec = msg_Metadata msg \<and> rec_Attempts rec = 0"
  using assms
  by (auto simp: pg_scan_def pg_headers_def pg_record_def pg_new_row_def json_survives_def
      elim!: pgx_stage_one_Inr)

lemma pgx_Stage_runs_in_tx:
  "runs_in_tx (\<lambda>c w. let (e, w') = pgx_Stage env s c topic events w in (Ret e, w'))"
  unfolding runs_in_tx_def
proof (intro allI impI, goal_cases)
  case (1 c tx w d res w')
  have "w = w\<lparr>pw_txs := (pw_txs w)(tx \<mapsto> d)\<rparr>" using 1(2) by (simp add: fun_upd_idem)
  with 1 show ?case
    by (fastforce simp: pgx_Stage_def Let_def split: if_splits sum.splits prod.splits)
qed

text \<open>The rows are those of the events, in order: each scans to the event's own record.\<close>

definition staged_as ::
  "pg_env \<Rightarrow> 'b codec \<Rightarrow> gctx \<Rightarrow> string \<Rightarrow> 'b devent list \<Rightarrow> pg_row list \<Rightarrow> bool" where
  "staged_as env cd c topic events new \<longleftrightarrow> length new = length events \<and>
     (\<forall>j < length events. \<exists>rec msg. cd_Marshal cd c (events ! j) = Inr msg \<and>
        pg_scan env (new ! j) = Inr rec \<and> rec_EventID rec = ev_EventID (events ! j) \<and> rec_Topic rec = topic \<and>
        rec_EventName rec = ev_EventName (events ! j) \<and> rec_AggregateID rec = ev_AggregateID (events ! j) \<and>
        rec_AggregateType rec = ev_AggregateType (events ! j) \<and> rec_Payload rec = msg_Payload msg \<and>
        rec_Headers rec = msg_Metadata msg \<and> rec_Attempts rec = 0)"

lemma pgx_Stage_nil:
  assumes "pgx_Stage env s c topic events w = (None, w2)" and "events \<noteq> []"
    and tx: "TxFromContext c = Some tx" "pw_txs w tx = Some db"
    and json: "\<And>ev msg. ev \<in> set events \<Longrightarrow> cd_Marshal (ps_codec s) c ev = Inr msg \<Longrightarrow>
      json_survives env (msg_Metadata msg)"
  shows "\<exists>db' new. pw_txs w2 tx = Some db' \<and> db_rows db' = db_rows db @ new \<and>
           staged_as env (ps_codec s) c topic events new"
proof -
  obtain pending where p: "map_result (pgx_stage_one env (ps_codec s) c) events = Inr pending"
    and w2: "pw_txs w2 tx = Some (pg_insert env topic pending (db\<lparr>db_stmts := Suc (db_stmts db)\<rparr>))"
    using assms(1,2) tx
    by (auto simp: pgx_Stage_def pg_run_def Let_def split: sum.splits fault.splits prod.splits)
  let ?new = "map (\<lambda>j. pg_new_row env topic (db_seq db + int j) (db_ticks db + 2 * j) (pending ! j)) [0..<length pending]"
  have len: "length pending = length events" by (rule map_result_Inr_length [OF p])
  have "\<exists>rec msg. cd_Marshal (ps_codec s) c (events ! j) = Inr msg \<and>
        pg_scan env (?new ! j) = Inr rec \<and> rec_EventID rec = ev_EventID (events ! j) \<and> rec_Topic rec = topic \<and>
        rec_EventName rec = ev_EventName (events ! j) \<and> rec_AggregateID rec = ev_AggregateID (events ! j) \<and>
        rec_AggregateType rec = ev_AggregateType (events ! j) \<and> rec_Payload rec = msg_Payload msg \<and>
        rec_Headers rec = msg_Metadata msg \<and> rec_Attempts rec = 0" if j: "j < length events" for j
  proof -
    note one = map_result_Inr_nth [OF p j]
    then obtain msg where m: "cd_Marshal (ps_codec s) c (events ! j) = Inr msg" by (elim pgx_stage_one_Inr)
    have "json_survives env (msg_Metadata msg)" by (rule json [OF nth_mem [OF j] m])
    from pg_scan_new_row [OF one m this] show ?thesis using m j len by simp
  qed
  then show ?thesis
    using w2 len by (auto simp: pg_insert_spec staged_as_def intro!: exI [of _ ?new])
qed

text \<open>
  C18: Staging is transactional and faithful. Stage without a transaction in its context
  refuses with ErrNoTx and writes nothing. WithinTx around Stage never leaves a part of the
  batch: the committed table is as before, or it has exactly one new row per event, in the
  order of the events, each of which Fetch would read back as a record with the event's own
  id, name, aggregate and topic, the payload and headers the codec produced, and no attempts.
  If it returns nil, the rows are there. (The headers survive the JSONB column.)
\<close>

theorem pgx_Stage_transactional:
  assumes "tx_laws (tm_pool m)" and "events \<noteq> []"
    and json: "\<forall>c. \<forall>ev \<in> set events. \<forall>msg. cd_Marshal (ps_codec s) c ev = Inr msg \<longrightarrow> json_survives env (msg_Metadata msg)"
    and op: "WithinTx m ctx (\<lambda>c w. let (e, w') = pgx_Stage env s c topic events w in (Ret e, w')) w = (res, w')"
  shows "(TxFromContext c0 = None \<longrightarrow> pgx_Stage env s c0 topic events w0 = (Some ErrNoTx, w0)) \<and>
    (db_rows (pw_db w') = db_rows (pw_db w) \<and> res \<noteq> Ret None \<or>
     (\<exists>new c. db_rows (pw_db w') = db_rows (pw_db w) @ new \<and> staged_as env (ps_codec s) c topic events new))"
proof -
  have all: "\<exists>new c. db_rows d = db_rows (pw_db w) @ new \<and> staged_as env (ps_codec s) c topic events new"
    if st: "(let (e, w') = pgx_Stage env s (WithTx ctx tx) topic events (w\<lparr>pw_txs := (pw_txs w)(tx \<mapsto> pw_db w)\<rparr>)
          in (Ret e, w')) = (Ret None, w2)" and d: "pw_txs w2 tx = Some d" for tx w2 d
  proof -
    let ?w = "w\<lparr>pw_txs := (pw_txs w)(tx \<mapsto> pw_db w)\<rparr>"
    have "pgx_Stage env s (WithTx ctx tx) topic events ?w = (None, w2)" using st by (auto split: prod.splits)
    from pgx_Stage_nil [OF this assms(2), of tx "pw_db w"] json d show ?thesis by auto
  qed
  have "db_rows (pw_db w') = db_rows (pw_db w) \<and> res \<noteq> Ret None \<or>
     (\<exists>new c. db_rows (pw_db w') = db_rows (pw_db w) @ new \<and> staged_as env (ps_codec s) c topic events new)"
    using assms(1) pgx_Stage_runs_in_tx op
  proof (cases rule: WithinTx_cases)
    case (unsure tx w2 d err)
    then show ?thesis using all [OF unsure(2,3)] by auto
  next
    case (committed tx w2 d)
    then show ?thesis using all [OF committed(2,3)] by simp
  qed simp_all
  moreover have "TxFromContext c0 = None \<Longrightarrow> pgx_Stage env s c0 topic events w0 = (Some ErrNoTx, w0)"
    using assms(2) by (simp add: pgx_Stage_def)
  ultimately show ?thesis by blast
qed

theorem pgx_Stage_transactional_witness:
  "let w = \<lparr>pw_db = example_db, pw_txs = Map.empty\<rparr>;
       s = \<lparr>ps_codec = example_codec, ps_claimLease = defaultClaimLease\<rparr>;
       (res, w') = WithinTx (example_manager (\<lambda>d. False)) background
         (\<lambda>c w. let (e, w') = pgx_Stage example_env s c ''t'' [example_event ''a''] w in (Ret e, w')) w
   in \<exists>new c. db_rows (pw_db w') = db_rows example_db @ new \<and>
        staged_as example_env example_codec c ''t'' [example_event ''a''] new"
proof -
  let ?w = "\<lparr>pw_db = example_db, pw_txs = Map.empty\<rparr>"
  let ?s = "\<lparr>ps_codec = example_codec, ps_claimLease = defaultClaimLease\<rparr>"
  let ?m = "example_manager (\<lambda>d. False)"
  let ?fn = "\<lambda>c w. let (e, w') = pgx_Stage example_env ?s c ''t'' [example_event ''a''] w in (Ret e, w')"
  obtain res w' where r: "WithinTx ?m background ?fn ?w = (res, w')" by (metis surj_pair)
  have laws: "tx_laws (tm_pool ?m)" by (simp add: example_manager_def example_pool_laws)
  have json: "\<forall>c. \<forall>ev \<in> set [example_event ''a'']. \<forall>msg. cd_Marshal (ps_codec ?s) c ev = Inr msg \<longrightarrow>
      json_survives example_env (msg_Metadata msg)"
    by (auto simp: example_codec_def json_survives_def example_env_def)
  have "res = Ret None"
    using r by (simp add: WithinTx_def example_manager_def example_pool_def background_def pgx_Stage_def
        pgx_stage_one_def example_codec_def example_event_def example_env_def pg_run_def WithTx_def TxFromContext_def)
  with pgx_Stage_transactional [OF laws _ json r, of background ?w] show ?thesis by (simp add: r [simplified Let_def])
qed

text \<open>A relay on the example server whose publisher accepts everything.\<close>

definition example_pgx_relay :: "(pgdb, (string \<times> unit devent) list, unit) relay" where
  "example_pgx_relay = \<lparr>rl_Fetch = pgx_Fetch example_env \<lparr>ps_codec = example_codec, ps_claimLease = defaultClaimLease\<rparr>,
     rl_MarkSent = pgx_MarkSent example_env, rl_MarkFailed = pgx_MarkFailed example_env,
     rl_Terminate = Some (pgx_Terminate example_env),
     rl_Publish = (\<lambda>c t evs w. (Ret None, w @ map (Pair t) evs)), rl_codec = example_codec,
     rl_log = (\<lambda>msg f w. w), rl_errText = (\<lambda>e. ''error''), rl_pollInterval = second, rl_batchSize = 100,
     rl_maxAttempts = 2, rl_backoff = (\<lambda>n w. (defaultBackoff n 0, w)), rl_now = (\<lambda>w. (0, w)),
     rl_headerRestorer = None\<rparr>"

end
