(* ===== verification/Memory_Inbox.thy ===== *)
theory Memory_Inbox
  imports Prelude
begin

text \<open>
  The in-process inbox of \<^verbatim>\<open>eventbus/inbox/memory.go\<close>, which remembers the (consumer, event
  id) pairs already processed: construction, Seen, Record, Size and the eviction of the
  oldest half with its in-place insertion sort. The map is an association list without
  repeated keys; the order in which \<^verbatim>\<open>range\<close> visits a map is not fixed by Go, so it is a function
  the inbox holds, applied to the entries at every iteration.
\<close>

section \<open>State and operations\<close>

type_synonym inbox_key = "string \<times> string"
type_synonym inbox_entry = "inbox_key \<times> time"

record inbox =
  ib_seenAt :: "inbox_entry list"
  ib_now :: "nat \<Rightarrow> time"
  ib_ticks :: nat
  ib_maxSize :: int
  ib_ttl :: duration
  ib_range :: "nat \<Rightarrow> inbox_entry list \<Rightarrow> inbox_entry list"
  ib_ranges :: nat

type_synonym inbox_option = "inbox \<Rightarrow> inbox"

definition inbox_WithClock :: "(nat \<Rightarrow> time) \<Rightarrow> inbox_option" where
  "inbox_WithClock now m = m\<lparr>ib_now := now\<rparr>"

definition inbox_WithMaxSize :: "int \<Rightarrow> inbox_option" where
  "inbox_WithMaxSize limit m = m\<lparr>ib_maxSize := limit\<rparr>"

definition inbox_WithTTL :: "duration \<Rightarrow> inbox_option" where
  "inbox_WithTTL d m = m\<lparr>ib_ttl := d\<rparr>"

definition inbox_NewMemory ::
  "(nat \<Rightarrow> time) \<Rightarrow> (nat \<Rightarrow> inbox_entry list \<Rightarrow> inbox_entry list) \<Rightarrow> inbox_option list \<Rightarrow> inbox" where
  "inbox_NewMemory time_Now order opts =
     fold (\<lambda>opt. opt) opts
       \<lparr>ib_seenAt = [], ib_now = time_Now, ib_ticks = 0, ib_maxSize = 0, ib_ttl = 0,
        ib_range = order, ib_ranges = 0\<rparr>"

definition inbox_call_now :: "inbox \<Rightarrow> time \<times> inbox" where
  "inbox_call_now m = (ib_now m (ib_ticks m), m\<lparr>ib_ticks := Suc (ib_ticks m)\<rparr>)"

definition inbox_Seen :: "gctx \<Rightarrow> inbox_key \<Rightarrow> inbox \<Rightarrow> (goerr + bool) \<times> inbox" where
  "inbox_Seen ctx key m =
     (case map_of (ib_seenAt m) key of
        None \<Rightarrow> (Inr False, m)
      | Some seenAt \<Rightarrow>
          if ib_ttl m > 0 then
            let (now, m1) = inbox_call_now m
            in if time_sub now seenAt > ib_ttl m then (Inr False, m1) else (Inr True, m1)
          else (Inr True, m))"

text \<open>
  The insertion sort of the eviction: the inner loop swaps the element at \<open>j\<close> down while its
  left neighbour is later, the outer loop runs over the positions from 1.
\<close>

fun sift_down :: "nat \<Rightarrow> inbox_entry list \<Rightarrow> inbox_entry list" where
  "sift_down 0 all = all"
| "sift_down (Suc j) all =
     (if snd (all ! j) > snd (all ! Suc j)
      then sift_down j (all[j := all ! Suc j, Suc j := all ! j])
      else all)"

definition inbox_sort :: "inbox_entry list \<Rightarrow> inbox_entry list" where
  "inbox_sort all = fold sift_down [1..<length all] all"

definition evictOldestHalf :: "inbox \<Rightarrow> inbox" where
  "evictOldestHalf m =
     (let all = inbox_sort (ib_range m (ib_ranges m) (ib_seenAt m));
          cutoff = length all div 2
      in m\<lparr>ib_seenAt := filter (\<lambda>(k, _). k \<notin> fst ` set (take cutoff all)) (ib_seenAt m),
           ib_ranges := Suc (ib_ranges m)\<rparr>)"

definition inbox_put :: "inbox_key \<Rightarrow> time \<Rightarrow> inbox_entry list \<Rightarrow> inbox_entry list" where
  "inbox_put key t es = filter (\<lambda>(k, _). k \<noteq> key) es @ [(key, t)]"

definition inbox_store :: "inbox_key \<Rightarrow> inbox \<Rightarrow> inbox" where
  "inbox_store key m =
     (let (now, m1) = inbox_call_now m;
          m2 = m1\<lparr>ib_seenAt := inbox_put key now (ib_seenAt m1)\<rparr>
      in if ib_maxSize m2 > 0 \<and> int (length (ib_seenAt m2)) > ib_maxSize m2
         then evictOldestHalf m2 else m2)"

definition inbox_Record :: "gctx \<Rightarrow> inbox_key \<Rightarrow> inbox \<Rightarrow> goerr option \<times> inbox" where
  "inbox_Record ctx key m =
     (case map_of (ib_seenAt m) key of
        None \<Rightarrow> (None, inbox_store key m)
      | Some seenAt \<Rightarrow>
          if ib_ttl m = 0 then (None, m)
          else let (now, m1) = inbox_call_now m
               in if time_sub now seenAt \<le> ib_ttl m then (None, m1)
                  else (None, inbox_store key m1))"

definition inbox_Size :: "inbox \<Rightarrow> nat" where
  "inbox_Size m = length (ib_seenAt m)"

section \<open>The insertion sort\<close>

lemma sift_down_spec:
  "sorted (map snd xs) \<Longrightarrow>
     sift_down (length xs) (xs @ e # ys) =
       takeWhile (\<lambda>x. snd x \<le> snd e) xs @ e # dropWhile (\<lambda>x. snd x \<le> snd e) xs @ ys"
proof (induction xs arbitrary: ys rule: rev_induct)
  case (snoc a xs)
  have sorted: "sorted (map snd xs)" and le: "\<forall>x \<in> set xs. snd x \<le> snd a"
    using snoc.prems by (auto simp: sorted_append)
  show ?case
  proof (cases "snd a > snd e")
    case True
    have "sift_down (length (xs @ [a])) ((xs @ [a]) @ e # ys) = sift_down (length xs) (xs @ e # a # ys)"
      using True by (simp add: nth_append list_update_append)
    also have "\<dots> = takeWhile (\<lambda>x. snd x \<le> snd e) xs @ e # dropWhile (\<lambda>x. snd x \<le> snd e) xs @ a # ys"
      by (rule snoc.IH [OF sorted])
    finally show ?thesis using True
      by (auto simp: takeWhile_append dropWhile_append)
  next
    case False
    then have "\<forall>x \<in> set (xs @ [a]). snd x \<le> snd e" using le by auto
    then show ?thesis using False by (simp add: nth_append takeWhile_append dropWhile_append)
  qed
qed simp

text \<open>One pass of the outer loop extends the sorted prefix and only permutes it.\<close>

lemma sift_down_step:
  assumes "i < length all" and "sorted (map snd (take i all))"
  shows "length (sift_down i all) = length all \<and> mset (sift_down i all) = mset all \<and>
         sorted (map snd (take (Suc i) (sift_down i all)))"
proof -
  let ?xs = "take i all" and ?e = "all ! i" and ?ys = "drop (Suc i) all"
  let ?P = "\<lambda>x. snd x \<le> snd ?e"
  have all: "all = ?xs @ ?e # ?ys" using assms(1) by (rule id_take_nth_drop)
  have len: "length ?xs = i" using assms(1) by simp
  have eq: "sift_down i all = takeWhile ?P ?xs @ ?e # dropWhile ?P ?xs @ ?ys"
    using sift_down_spec [OF assms(2), of ?e ?ys] by (simp only: len flip: all)
  have split: "takeWhile ?P ?xs @ dropWhile ?P ?xs = ?xs" by simp
  have "mset (takeWhile ?P ?xs @ ?e # dropWhile ?P ?xs @ ?ys) = mset (?xs @ ?e # ?ys)"
    by (subst (3) split [symmetric]) (simp only: mset_append mset.simps ac_simps union_mset_add_mset_left union_mset_add_mset_right)
  then have m: "mset (sift_down i all) = mset all" by (simp only: eq flip: all)
  have tk: "take (Suc i) (sift_down i all) = takeWhile ?P ?xs @ ?e # dropWhile ?P ?xs"
  proof -
    have "length (takeWhile ?P ?xs @ ?e # dropWhile ?P ?xs) = Suc i"
      using arg_cong [OF split, of length] len unfolding length_append by simp
    moreover have "sift_down i all = (takeWhile ?P ?xs @ ?e # dropWhile ?P ?xs) @ ?ys" by (simp add: eq)
    ultimately show ?thesis by (metis append_eq_conv_conj)
  qed
  have "sorted (map snd (takeWhile ?P ?xs @ dropWhile ?P ?xs))" using assms(2) by simp
  then have parts: "sorted (map snd (takeWhile ?P ?xs))" "sorted (map snd (dropWhile ?P ?xs))"
    by (simp_all only: map_append sorted_append)
  have "snd ?e \<le> snd y" if y: "y \<in> set (dropWhile ?P ?xs)" for y
  proof -
    obtain z zs where z: "dropWhile ?P ?xs = z # zs" using y by (cases "dropWhile ?P ?xs") auto
    then have "\<not> ?P z" by (metis hd_dropWhile list.discI list.sel(1))
    moreover have "snd z \<le> snd y" using parts(2) y z by auto
    ultimately show ?thesis by simp
  qed
  moreover have "\<forall>x \<in> set (takeWhile ?P ?xs). snd x \<le> snd ?e" by (auto dest: set_takeWhileD)
  ultimately have "sorted (map snd (take (Suc i) (sift_down i all)))"
    unfolding tk using parts by (fastforce simp: sorted_append)
  then show ?thesis using m by (metis size_mset)
qed

lemma sorted_map_split:
  "sorted (map f (xs @ ys)) \<Longrightarrow> x \<in> set xs \<Longrightarrow> y \<in> set ys \<Longrightarrow> f x \<le> f y"
  by (auto simp: sorted_append)

lemma inbox_sort_prefix:
  "n \<le> length all \<Longrightarrow>
     length (fold sift_down [1..<n] all) = length all \<and> mset (fold sift_down [1..<n] all) = mset all \<and>
     sorted (map snd (take n (fold sift_down [1..<n] all)))"
proof (induction n)
  case (Suc n)
  show ?case
  proof (cases "n = 0")
    case True
    then show ?thesis by (cases all) auto
  next
    case False
    then have "[1..<Suc n] = [1..<n] @ [n]" by simp
    then show ?thesis using Suc sift_down_step [of n "fold sift_down [1..<n] all"] by simp
  qed
qed simp

lemma inbox_sort_correct: "mset (inbox_sort all) = mset all \<and> sorted (map snd (inbox_sort all))"
  using inbox_sort_prefix [OF order_refl, of all] unfolding inbox_sort_def by (metis take_all order_refl)

text \<open>
  A swap of neighbours with different times keeps the order among entries of equal time, so the
  sort is stable: it is the library's sort by time.
\<close>

lemma swap_filter:
  assumes "Suc j < length all" and "\<not> (P (all ! j) \<and> P (all ! Suc j))"
  shows "filter P (all[j := all ! Suc j, Suc j := all ! j]) = filter P all"
proof -
  let ?xs = "take j all" and ?a = "all ! j" and ?b = "all ! Suc j" and ?ys = "drop (Suc (Suc j)) all"
  have all: "all = ?xs @ ?a # ?b # ?ys"
    using assms(1) by (metis Cons_nth_drop_Suc Suc_lessD append_take_drop_id)
  have len: "length ?xs = j" using assms(1) by simp
  have "(?xs @ ?a # ?b # ?ys)[j := ?b, Suc j := ?a] = ?xs @ ?b # ?a # ?ys"
    using len by (simp add: list_update_append)
  then have "all[j := ?b, Suc j := ?a] = ?xs @ ?b # ?a # ?ys" by (simp only: flip: all)
  moreover have "filter P all = filter P (?xs @ ?a # ?b # ?ys)" by (simp only: flip: all)
  ultimately show ?thesis using assms(2) by auto
qed

lemma sift_down_stable:
  "i < length all \<Longrightarrow> filter (\<lambda>x. t = snd x) (sift_down i all) = filter (\<lambda>x. t = snd x) all"
proof (induction i all rule: sift_down.induct)
  case (2 j all)
  then show ?case using swap_filter [of j all "\<lambda>x. t = snd x"] by auto
qed simp

lemma inbox_sort_stable:
  "n \<le> length all \<Longrightarrow> filter (\<lambda>x. t = snd x) (fold sift_down [1..<n] all) = filter (\<lambda>x. t = snd x) all"
proof (induction n)
  case (Suc n)
  then have "length (fold sift_down [1..<n] all) = length all" using inbox_sort_prefix [of n all] by simp
  with Suc show ?case by (cases "n = 0") (auto simp: sift_down_stable)
qed simp

lemma inbox_sort_is_sort_key: "inbox_sort all = sort_key snd all"
proof (rule properties_for_sort_key [symmetric])
  show "filter (\<lambda>x. snd k = snd x) (inbox_sort all) = filter (\<lambda>x. snd k = snd x) all" for k
    unfolding inbox_sort_def by (rule inbox_sort_stable) simp
qed (use inbox_sort_correct in auto)

section \<open>Eviction and the size bound\<close>

text \<open>Ranging over the map visits every entry once.\<close>

definition ranges_all :: "inbox \<Rightarrow> bool" where
  "ranges_all m \<longleftrightarrow> (\<forall>n es. mset (ib_range m n es) = mset es)"

definition inbox_inv :: "inbox \<Rightarrow> bool" where
  "inbox_inv m \<longleftrightarrow> ranges_all m \<and> distinct (map fst (ib_seenAt m)) \<and>
     (ib_maxSize m > 0 \<longrightarrow> int (length (ib_seenAt m)) \<le> ib_maxSize m)"

lemma evict_sorted:
  assumes "ranges_all m"
  defines "all \<equiv> inbox_sort (ib_range m (ib_ranges m) (ib_seenAt m))"
  shows "mset all = mset (ib_seenAt m)" and "sorted (map snd all)"
  using assms inbox_sort_correct by (auto simp: ranges_all_def)

text \<open>What is left is the later half: the entries of the sorted list from the cutoff on.\<close>

lemma evict_mset:
  assumes "ranges_all m" and "distinct (map fst (ib_seenAt m))"
  defines "all \<equiv> inbox_sort (ib_range m (ib_ranges m) (ib_seenAt m))"
  shows "mset (ib_seenAt (evictOldestHalf m)) = mset (drop (length all div 2) all)"
proof -
  let ?c = "length all div 2"
  have ms: "mset all = mset (ib_seenAt m)" using evict_sorted(1) [OF assms(1)] by (simp add: all_def)
  have "mset (map fst all) = mset (map fst (ib_seenAt m))" using ms by simp
  then have dist: "distinct (map fst all)" using assms(2) by (metis mset_eq_imp_distinct_iff)
  have td: "take ?c all @ drop ?c all = all" by simp
  then have disj: "fst ` set (take ?c all) \<inter> fst ` set (drop ?c all) = {}"
    using dist by (metis distinct_append map_append set_map)
  have "filter (\<lambda>(k, _). k \<notin> fst ` set (take ?c all)) all = drop ?c all"
  proof -
    have "filter (\<lambda>(k, _). k \<notin> fst ` set (take ?c all)) (take ?c all) = []"
      by (force simp: filter_empty_conv)
    moreover have "filter (\<lambda>(k, _). k \<notin> fst ` set (take ?c all)) (drop ?c all) = drop ?c all"
      using disj by (force simp: filter_id_conv)
    ultimately show ?thesis using td by (metis append_Nil filter_append)
  qed
  moreover have "mset (filter (\<lambda>(k, _). k \<notin> fst ` set (take ?c all)) (ib_seenAt m)) =
      mset (filter (\<lambda>(k, _). k \<notin> fst ` set (take ?c all)) all)" by (simp only: mset_filter ms)
  ultimately show ?thesis by (simp add: evictOldestHalf_def Let_def all_def [symmetric])
qed

lemma evict_length:
  assumes "ranges_all m" and "distinct (map fst (ib_seenAt m))"
  shows "length (ib_seenAt (evictOldestHalf m)) = length (ib_seenAt m) - length (ib_seenAt m) div 2"
proof -
  let ?all = "inbox_sort (ib_range m (ib_ranges m) (ib_seenAt m))"
  have "length ?all = length (ib_seenAt m)" using evict_sorted(1) [OF assms(1)] by (metis size_mset)
  moreover have "length (ib_seenAt (evictOldestHalf m)) = length (drop (length ?all div 2) ?all)"
    using evict_mset [OF assms] by (metis size_mset)
  ultimately show ?thesis by simp
qed

lemma evict_fields [simp]:
  "ib_ttl (evictOldestHalf m) = ib_ttl m" "ib_maxSize (evictOldestHalf m) = ib_maxSize m"
  "ib_now (evictOldestHalf m) = ib_now m" "ib_ticks (evictOldestHalf m) = ib_ticks m"
  "ib_range (evictOldestHalf m) = ib_range m" "ranges_all (evictOldestHalf m) = ranges_all m"
  by (simp_all add: evictOldestHalf_def Let_def ranges_all_def)

lemma evict_distinct:
  "distinct (map fst (ib_seenAt m)) \<Longrightarrow> distinct (map fst (ib_seenAt (evictOldestHalf m)))"
  by (simp add: evictOldestHalf_def Let_def distinct_map_filter)

lemma put_distinct: "distinct (map fst es) \<Longrightarrow> distinct (map fst (inbox_put k t es))"
  by (auto simp: inbox_put_def distinct_map_filter)

lemma put_length:
  assumes "distinct (map fst es)"
  shows "length (inbox_put k t es) \<le> Suc (length es)"
  by (simp add: inbox_put_def)

lemma inbox_inv_store: "inbox_inv m \<Longrightarrow> inbox_inv (inbox_store k m)"
proof -
  assume inv: "inbox_inv m"
  define m2 where "m2 = m\<lparr>ib_ticks := Suc (ib_ticks m), ib_seenAt := inbox_put k (ib_now m (ib_ticks m)) (ib_seenAt m)\<rparr>"
  have st: "inbox_store k m = (if ib_maxSize m2 > 0 \<and> int (length (ib_seenAt m2)) > ib_maxSize m2
      then evictOldestHalf m2 else m2)"
    by (simp add: inbox_store_def inbox_call_now_def m2_def Let_def)
  have r: "ranges_all m2" and d: "distinct (map fst (ib_seenAt m2))"
    using inv by (auto simp: inbox_inv_def m2_def ranges_all_def put_distinct)
  have "length (ib_seenAt m2) \<le> Suc (length (ib_seenAt m))"
    using inv put_length by (simp add: m2_def inbox_inv_def)
  moreover have "ib_maxSize m2 = ib_maxSize m" by (simp add: m2_def)
  ultimately have "ib_maxSize m2 > 0 \<Longrightarrow> int (length (ib_seenAt m2) - length (ib_seenAt m2) div 2) \<le> ib_maxSize m2"
    using inv by (cases "length (ib_seenAt m2)") (auto simp: inbox_inv_def)
  then show ?thesis
    using r d by (auto simp: st inbox_inv_def evict_length evict_distinct)
qed

lemma inbox_inv_ticks [simp]: "inbox_inv (m\<lparr>ib_ticks := t\<rparr>) = inbox_inv m"
  by (simp add: inbox_inv_def ranges_all_def)

lemma inbox_inv_Record: "inbox_inv m \<Longrightarrow> inbox_inv (snd (inbox_Record c k m))"
  by (auto simp: inbox_Record_def inbox_call_now_def inbox_inv_store split: option.split)

lemma inbox_inv_Seen: "inbox_inv m \<Longrightarrow> inbox_inv (snd (inbox_Seen c k m))"
  by (auto simp: inbox_Seen_def inbox_call_now_def split: option.split)

text \<open>
  C37: The eviction is the simple specification it stands for. The in-place insertion sort computes
  the library's stable sort by time, for every list; and for whatever order the map iteration
  has, the entries left by an eviction are exactly the later half of the sorted entries: half of
  them (rounded down) are gone, each kept entry is kept once and with its time, and no dropped
  entry is later than a kept one.
\<close>

theorem evictOldestHalf_eq_reference:
  assumes "ranges_all m" and "distinct (map fst (ib_seenAt m))"
  shows "inbox_sort es = sort_key snd es \<and>
    (let sorted_all = sort_key snd (ib_range m (ib_ranges m) (ib_seenAt m)); c = length (ib_seenAt m) div 2
     in mset (ib_seenAt (evictOldestHalf m)) = mset (drop c sorted_all) \<and>
        mset sorted_all = mset (ib_seenAt m) \<and>
        (\<forall>g \<in> set (take c sorted_all). \<forall>e \<in> set (ib_seenAt (evictOldestHalf m)). snd g \<le> snd e))"
proof -
  let ?all = "sort_key snd (ib_range m (ib_ranges m) (ib_seenAt m))" and ?c = "length (ib_seenAt m) div 2"
  have perm: "mset ?all = mset (ib_seenAt m)" using assms(1) by (simp add: ranges_all_def)
  then have len: "length ?all = length (ib_seenAt m)" by (metis size_mset)
  have kept: "mset (ib_seenAt (evictOldestHalf m)) = mset (drop ?c ?all)"
    using evict_mset [OF assms] len by (simp add: inbox_sort_is_sort_key)
  then have keep: "set (ib_seenAt (evictOldestHalf m)) = set (drop ?c ?all)" by (metis mset_eq_setD)
  have "snd g \<le> snd e" if "g \<in> set (take ?c ?all)" "e \<in> set (ib_seenAt (evictOldestHalf m))" for g e
    using sorted_map_split [of snd "take ?c ?all" "drop ?c ?all" g e] that by (simp add: keep)
  then show ?thesis using perm kept by (simp add: inbox_sort_is_sort_key Let_def)
qed

text \<open>Histories of calls on an inbox.\<close>

inductive inbox_step :: "inbox \<Rightarrow> inbox \<Rightarrow> bool" where
  inbox_seen: "inbox_Seen ctx key m = (res, m') \<Longrightarrow> inbox_step m m'"
| inbox_record: "inbox_Record ctx key m = (res, m') \<Longrightarrow> inbox_step m m'"

definition inbox_option :: "inbox_option \<Rightarrow> bool" where
  "inbox_option opt \<longleftrightarrow> (\<exists>now. opt = inbox_WithClock now) \<or> (\<exists>n. opt = inbox_WithMaxSize n) \<or>
     (\<exists>d. opt = inbox_WithTTL d)"

lemma inbox_New_inv:
  assumes "\<forall>opt \<in> set opts. inbox_option opt" and "\<forall>n es. mset (order n es) = mset es"
  shows "inbox_inv (inbox_NewMemory now order opts)"
proof -
  have "ib_seenAt (fold (\<lambda>opt. opt) opts m) = ib_seenAt m \<and> ib_range (fold (\<lambda>opt. opt) opts m) = ib_range m" for m
    using assms(1)
    by (induction opts arbitrary: m)
       (auto simp: inbox_option_def inbox_WithClock_def inbox_WithMaxSize_def inbox_WithTTL_def)
  then show ?thesis using assms(2) by (simp add: inbox_inv_def inbox_NewMemory_def ranges_all_def)
qed

text \<open>
  In every history of Seen and Record calls on an inbox from NewMemory, no key has two
  entries and the configured size is never exceeded. (The limit itself may be reached; the
  eviction starts only beyond it.)
\<close>

lemma inbox_reachable_bounded:
  assumes "\<forall>opt \<in> set opts. inbox_option opt" and "\<forall>n es. mset (order n es) = mset es"
    and "inbox_step\<^sup>*\<^sup>* (inbox_NewMemory now order opts) m"
  shows "distinct (map fst (ib_seenAt m)) \<and>
    (ib_maxSize m > 0 \<longrightarrow> int (inbox_Size m) \<le> ib_maxSize m)"
proof -
  from assms(3) have "inbox_inv m"
  proof (induction rule: rtranclp_induct)
    case base
    then show ?case by (rule inbox_New_inv [OF assms(1,2)])
  next
    case (step m m')
    from step.hyps(2) show ?case
      by cases (use step.IH inbox_inv_Seen inbox_inv_Record in \<open>metis snd_conv\<close>)+
  qed
  then show ?thesis by (simp add: inbox_inv_def inbox_Size_def)
qed

section \<open>Record, then Seen\<close>

lemma put_map_of [simp]: "map_of (inbox_put k t es) j = (if j = k then Some t else map_of es j)"
proof -
  have "map_of (filter (\<lambda>(k', _). k' \<noteq> k) es) j = (if j = k then None else map_of es j)"
    by (induction es) auto
  then show ?thesis by (auto simp: inbox_put_def map_add_def split: option.split)
qed

lemma set_put: "set (inbox_put k t es) = {e \<in> set es. fst e \<noteq> k} \<union> {(k, t)}"
  by (auto simp: inbox_put_def)

text \<open>The newest entry survives an eviction.\<close>

lemma evict_keeps_newest:
  assumes "ranges_all m" and "distinct (map fst (ib_seenAt m))" and "(k, t) \<in> set (ib_seenAt m)"
    and newest: "\<And>e. e \<in> set (ib_seenAt m) \<Longrightarrow> e \<noteq> (k, t) \<Longrightarrow> snd e < t"
  shows "map_of (ib_seenAt (evictOldestHalf m)) k = Some t"
proof -
  define all where "all = inbox_sort (ib_range m (ib_ranges m) (ib_seenAt m))"
  define c where "c = length all div 2"
  have ms: "mset all = mset (ib_seenAt m)" and sorted: "sorted (map snd all)"
    using evict_sorted [OF assms(1)] by (simp_all add: all_def)
  have kept: "mset (ib_seenAt (evictOldestHalf m)) = mset (drop c all)"
    using evict_mset [OF assms(1,2)] by (simp add: all_def c_def)
  have td: "take c all @ drop c all = all" by simp
  have set: "set all = set (ib_seenAt m)" using ms by (metis mset_eq_setD)
  then have "all \<noteq> []" using assms(3) by auto
  then have "drop c all \<noteq> []" by (cases all) (simp_all add: c_def)
  then obtain y where y: "y \<in> set (drop c all)" by (meson list.set_sel(1))
  have "(k, t) \<in> set (drop c all)"
  proof (rule ccontr)
    assume n: "(k, t) \<notin> set (drop c all)"
    then have "(k, t) \<in> set (take c all)" using assms(3) set td by (metis Un_iff set_append)
    then have "t \<le> snd y"
      using sorted_map_split [of snd "take c all" "drop c all" "(k, t)" y] sorted y by simp
    moreover have "y \<in> set (ib_seenAt m)" using y set by (metis in_set_dropD)
    ultimately show False using newest [of y] n y by fastforce
  qed
  then have "(k, t) \<in> set (ib_seenAt (evictOldestHalf m))" using kept by (metis mset_eq_setD)
  then show ?thesis using evict_distinct [OF assms(2)] by (simp add: map_of_eq_Some_iff)
qed

lemma inbox_store_has:
  assumes "inbox_inv m" and "\<forall>e \<in> set (ib_seenAt m). snd e < ib_now m (ib_ticks m)"
  shows "map_of (ib_seenAt (inbox_store k m)) k = Some (ib_now m (ib_ticks m))"
proof -
  let ?t = "ib_now m (ib_ticks m)"
  let ?m2 = "m\<lparr>ib_ticks := Suc (ib_ticks m), ib_seenAt := inbox_put k ?t (ib_seenAt m)\<rparr>"
  have "map_of (ib_seenAt (evictOldestHalf ?m2)) k = Some ?t"
    by (rule evict_keeps_newest)
       (use assms in \<open>auto simp: inbox_inv_def ranges_all_def put_distinct set_put\<close>)
  then show ?thesis by (simp add: inbox_store_def inbox_call_now_def Let_def)
qed

text \<open>Later calls, of any consumer on any keys.\<close>

datatype inbox_op = CallSeen inbox_key | CallRecord inbox_key

fun inbox_call :: "gctx \<Rightarrow> inbox_op \<Rightarrow> inbox \<Rightarrow> inbox" where
  "inbox_call ctx (CallSeen k) m = snd (inbox_Seen ctx k m)"
| "inbox_call ctx (CallRecord k) m = snd (inbox_Record ctx k m)"

definition inbox_run :: "gctx \<Rightarrow> inbox_op list \<Rightarrow> inbox \<Rightarrow> inbox" where
  "inbox_run ctx ops m = fold (inbox_call ctx) ops m"

definition records :: "inbox_op list \<Rightarrow> nat" where
  "records ops = length (filter (\<lambda>op. \<exists>k. op = CallRecord k) ops)"

lemma inbox_store_room:
  assumes "ib_maxSize m \<le> 0 \<or> int (inbox_Size m) < ib_maxSize m"
  shows "inbox_store k m = m\<lparr>ib_ticks := Suc (ib_ticks m), ib_seenAt := inbox_put k (ib_now m (ib_ticks m)) (ib_seenAt m)\<rparr>"
proof -
  let ?es = "inbox_put k (ib_now m (ib_ticks m)) (ib_seenAt m)"
  have "length ?es \<le> Suc (inbox_Size m)" by (simp add: inbox_put_def inbox_Size_def)
  then have "\<not> (ib_maxSize m > 0 \<and> int (length ?es) > ib_maxSize m)" using assms by linarith
  then show ?thesis by (auto simp add: inbox_store_def inbox_call_now_def Let_def)
qed

text \<open>As long as there is room, a call keeps a key, at its time or a later one.\<close>

lemma inbox_call_keeps:
  assumes "map_of (ib_seenAt m) key = Some t" and "ib_maxSize m \<le> 0 \<or> int (inbox_Size m) < ib_maxSize m"
    and "mono (ib_now m)" and "t \<le> ib_now m (ib_ticks m)"
  shows "\<exists>t'. map_of (ib_seenAt (inbox_call ctx op m)) key = Some t' \<and> t \<le> t' \<and>
    t' \<le> ib_now m (ib_ticks (inbox_call ctx op m))"
    and "ib_ttl (inbox_call ctx op m) = ib_ttl m" "ib_maxSize (inbox_call ctx op m) = ib_maxSize m"
    and "ib_now (inbox_call ctx op m) = ib_now m"
    and "inbox_Size (inbox_call ctx op m) \<le> inbox_Size m + records [op]"
proof -
  let ?m1 = "m\<lparr>ib_ticks := Suc (ib_ticks m)\<rparr>"
  have le: "ib_now m n \<le> ib_now m (Suc n)" for n using assms(3) by (simp add: monoD)
  have t: "t \<le> ib_now m (Suc (ib_ticks m))" "t \<le> ib_now m (Suc (Suc (ib_ticks m)))"
    using assms(4) le [of "ib_ticks m"] le [of "Suc (ib_ticks m)"] by linarith+
  have room: "ib_maxSize ?m1 \<le> 0 \<or> int (inbox_Size ?m1) < ib_maxSize ?m1" using assms(2) by (simp add: inbox_Size_def)
  note store = inbox_store_room [OF assms(2)] inbox_store_room [OF room]
  show "\<exists>t'. map_of (ib_seenAt (inbox_call ctx op m)) key = Some t' \<and> t \<le> t' \<and>
      t' \<le> ib_now m (ib_ticks (inbox_call ctx op m))"
    by (cases op) (use assms(1,4) t le in \<open>auto simp: inbox_Seen_def inbox_Record_def inbox_call_now_def store split: option.split\<close>)
  show "ib_ttl (inbox_call ctx op m) = ib_ttl m" "ib_maxSize (inbox_call ctx op m) = ib_maxSize m"
    "ib_now (inbox_call ctx op m) = ib_now m"
    by (cases op; auto simp: inbox_Seen_def inbox_Record_def inbox_call_now_def store split: option.split)+
  show "inbox_Size (inbox_call ctx op m) \<le> inbox_Size m + records [op]"
    by (cases op) (auto simp: inbox_Seen_def inbox_Record_def inbox_call_now_def store inbox_Size_def records_def inbox_put_def
        split: option.split)
qed

lemma inbox_run_keeps:
  assumes "map_of (ib_seenAt m) key = Some t" and "ib_maxSize m \<le> 0 \<or> int (inbox_Size m) + int (records ops) < ib_maxSize m"
    and "mono (ib_now m)" and "t \<le> ib_now m (ib_ticks m)"
  shows "(\<exists>t'. map_of (ib_seenAt (inbox_run ctx ops m)) key = Some t' \<and> t \<le> t') \<and>
    ib_ttl (inbox_run ctx ops m) = ib_ttl m \<and> ib_now (inbox_run ctx ops m) = ib_now m"
  using assms
proof (induction ops arbitrary: m t)
  case (Cons op ops)
  let ?m = "inbox_call ctx op m"
  have rec: "records (op # ops) = records [op] + records ops" by (simp add: records_def)
  have room: "ib_maxSize m \<le> 0 \<or> int (inbox_Size m) < ib_maxSize m" using Cons.prems(2) by linarith
  note step = inbox_call_keeps [OF Cons.prems(1) room Cons.prems(3,4), of ctx op]
  obtain t' where t': "map_of (ib_seenAt ?m) key = Some t'" "t \<le> t'" "t' \<le> ib_now m (ib_ticks ?m)" using step(1) by blast
  have "ib_maxSize ?m \<le> 0 \<or> int (inbox_Size ?m) + int (records ops) < ib_maxSize ?m"
    using Cons.prems(2) step(3,5) by (auto simp: rec)
  from Cons.IH [OF t'(1) this] Cons.prems(3) t' step(2,4) show ?case
    by (auto simp: inbox_run_def intro: order_trans)
qed (auto simp: inbox_run_def)

lemma time_sub_antimono: "t \<le> t' \<Longrightarrow> time_sub n t' \<le> time_sub n t"
  by (auto simp: time_sub_def max_duration_def min_duration_def)

text \<open>What Record leaves for its key, on each of its branches.\<close>

lemma inbox_Record_result:
  assumes "inbox_inv m" and "\<forall>e \<in> set (ib_seenAt m). snd e < ib_now m (ib_ticks m)" and "mono (ib_now m)"
    and "inbox_Record ctx key m = (res, m')"
  shows "\<exists>t. res = None \<and> map_of (ib_seenAt m') key = Some t \<and> t \<le> ib_now m (ib_ticks m') \<and>
    ib_ttl m' = ib_ttl m \<and> ib_now m' = ib_now m \<and> ib_maxSize m' = ib_maxSize m \<and>
    (case map_of (ib_seenAt m) key of
       None \<Rightarrow> t = ib_now m (ib_ticks m)
     | Some t0 \<Rightarrow>
         if ib_ttl m = 0 \<or> time_sub (ib_now m (ib_ticks m)) t0 \<le> ib_ttl m then t = t0 \<and> ib_seenAt m' = ib_seenAt m
         else t = ib_now m (Suc (ib_ticks m)))"
proof -
  let ?m1 = "m\<lparr>ib_ticks := Suc (ib_ticks m)\<rparr>"
  have le: "ib_now m n \<le> ib_now m (Suc n)" for n using assms(3) by (simp add: monoD)
  have has: "map_of (ib_seenAt (inbox_store key m)) key = Some (ib_now m (ib_ticks m))"
    by (rule inbox_store_has [OF assms(1,2)])
  have "\<forall>e \<in> set (ib_seenAt m). snd e < ib_now m (Suc (ib_ticks m))" using assms(2) le by (meson less_le_trans)
  then have has1: "map_of (ib_seenAt (inbox_store key ?m1)) key = Some (ib_now m (Suc (ib_ticks m)))"
    using inbox_store_has [of ?m1 key] assms(1) by simp
  have fields: "ib_ttl (inbox_store key n) = ib_ttl n" "ib_now (inbox_store key n) = ib_now n"
    "ib_maxSize (inbox_store key n) = ib_maxSize n" "ib_ticks (inbox_store key n) = Suc (ib_ticks n)" for n
    by (simp_all add: inbox_store_def inbox_call_now_def Let_def)
  show ?thesis
  proof (cases "map_of (ib_seenAt m) key")
    case None
    with assms(4) has le fields show ?thesis by (auto simp: inbox_Record_def)
  next
    case (Some t0)
    then have "t0 \<le> ib_now m (ib_ticks m)" using assms(2) by (fastforce dest: map_of_SomeD)
    with Some assms(4) has1 le fields show ?thesis
      by (auto simp: inbox_Record_def inbox_call_now_def intro: order_trans split: if_splits)
  qed
qed

text \<open>
  C36: A processed event stays processed for its window. Record of a key that was not in the inbox
  notes the time; of a key within its TTL (or without a TTL) it changes nothing; of an expired
  key it restarts the window at the current time. In each case the key is in the inbox
  afterwards, also when this Record had to evict. From then on, after any further calls of Seen
  and Record on any keys that stay below the size limit (or without a limit), Seen answers
  true as long as the TTL has not passed since that time (always, without a TTL). Right
  after Record, Seen answers false if it has. (The clock does not go back and is past every
  time recorded before.)
\<close>

theorem inbox_Record_then_Seen:
  assumes "inbox_inv m" and "\<forall>e \<in> set (ib_seenAt m). snd e < ib_now m (ib_ticks m)" and "mono (ib_now m)"
    and "inbox_Record ctx key m = (res, m')"
    and "ib_maxSize m \<le> 0 \<or> int (inbox_Size m') + int (records ops) < ib_maxSize m"
  shows "\<exists>t. res = None \<and> map_of (ib_seenAt m') key = Some t \<and>
    (case map_of (ib_seenAt m) key of
       None \<Rightarrow> t = ib_now m (ib_ticks m)
     | Some t0 \<Rightarrow>
         if ib_ttl m = 0 \<or> time_sub (ib_now m (ib_ticks m)) t0 \<le> ib_ttl m then t = t0 \<and> ib_seenAt m' = ib_seenAt m
         else t = ib_now m (Suc (ib_ticks m))) \<and>
    fst (inbox_Seen ctx' key m') = Inr (ib_ttl m \<le> 0 \<or> time_sub (ib_now m (ib_ticks m')) t \<le> ib_ttl m) \<and>
    (ib_ttl m \<le> 0 \<or> time_sub (ib_now m (ib_ticks (inbox_run ctx ops m'))) t \<le> ib_ttl m \<longrightarrow>
       fst (inbox_Seen ctx' key (inbox_run ctx ops m')) = Inr True)"
proof -
  obtain t where t: "res = None" "map_of (ib_seenAt m') key = Some t" "t \<le> ib_now m (ib_ticks m')"
    and fields: "ib_ttl m' = ib_ttl m" "ib_now m' = ib_now m" "ib_maxSize m' = ib_maxSize m"
    and branch: "case map_of (ib_seenAt m) key of None \<Rightarrow> t = ib_now m (ib_ticks m)
      | Some t0 \<Rightarrow> if ib_ttl m = 0 \<or> time_sub (ib_now m (ib_ticks m)) t0 \<le> ib_ttl m then t = t0 \<and> ib_seenAt m' = ib_seenAt m
          else t = ib_now m (Suc (ib_ticks m))"
    using inbox_Record_result [OF assms(1-4)] by blast
  let ?m = "inbox_run ctx ops m'"
  obtain t' where t': "map_of (ib_seenAt ?m) key = Some t'" "t \<le> t'" and f': "ib_ttl ?m = ib_ttl m" "ib_now ?m = ib_now m"
    using inbox_run_keeps [OF t(2), of ops ctx] assms(3,5) t(3) fields by auto
  have "fst (inbox_Seen ctx' key ?m) = Inr True"
    if "ib_ttl m \<le> 0 \<or> time_sub (ib_now m (ib_ticks ?m)) t \<le> ib_ttl m"
    using that t' f' time_sub_antimono [OF t'(2), of "ib_now m (ib_ticks ?m)"]
    by (auto simp: inbox_Seen_def inbox_call_now_def)
  then show ?thesis
    using t branch fields by (intro exI [of _ t]) (auto simp: inbox_Seen_def inbox_call_now_def)
qed

text \<open>An inbox of size 2 for concrete evaluations; its iteration order is the reverse.\<close>

definition example_inbox :: inbox where
  "example_inbox = inbox_NewMemory (\<lambda>n. 10 + int n) (\<lambda>n. rev) [inbox_WithMaxSize 2]"

definition example_inbox2 :: inbox where
  "example_inbox2 = snd (inbox_Record background (''c'', ''e2'') (snd (inbox_Record background (''c'', ''e1'') example_inbox)))"

lemma example_inbox2_eq:
  "example_inbox2 = \<lparr>ib_seenAt = [((''c'', ''e1''), 10), ((''c'', ''e2''), 11)], ib_now = (\<lambda>n. 10 + int n), ib_ticks = 2,
     ib_maxSize = 2, ib_ttl = 0, ib_range = (\<lambda>n. rev), ib_ranges = 0\<rparr>"
  by (simp add: example_inbox2_def example_inbox_def inbox_NewMemory_def inbox_WithMaxSize_def inbox_Record_def
      inbox_store_def inbox_call_now_def inbox_put_def Let_def)

text \<open>The eviction keeps the later entry.\<close>

theorem evictOldestHalf_eq_reference_witness:
  "mset (ib_seenAt (evictOldestHalf example_inbox2)) = {#((''c'', ''e2''), 11)#}"
proof -
  have "ranges_all example_inbox2" "distinct (map fst (ib_seenAt example_inbox2))"
    by (simp_all add: ranges_all_def example_inbox2_eq)
  from evictOldestHalf_eq_reference [OF this, of "[]"] show ?thesis
    by (simp add: Let_def example_inbox2_eq)
qed

lemma example_inbox_opts: "\<forall>opt \<in> set [inbox_WithMaxSize 2]. inbox_option opt"
  by (auto simp: inbox_option_def)

text \<open>An inbox with room for ten and a window of five: Record of an expired key, then Seen after other calls.\<close>

definition example_inbox3 :: inbox where
  "example_inbox3 = \<lparr>ib_seenAt = [((''c'', ''e1''), 1)], ib_now = (\<lambda>n. 10 + int n), ib_ticks = 0,
     ib_maxSize = 10, ib_ttl = 5, ib_range = (\<lambda>n. rev), ib_ranges = 0\<rparr>"

theorem inbox_Record_then_Seen_witness:
  "fst (inbox_Seen background (''c'', ''e1'') (inbox_run background [CallRecord (''c'', ''e2''), CallSeen (''c'', ''e1'')]
     (snd (inbox_Record background (''c'', ''e1'') example_inbox3)))) = Inr True"
proof -
  let ?m = example_inbox3 and ?k = "(''c'', ''e1'')" and ?ops = "[CallRecord (''c'', ''e2''), CallSeen (''c'', ''e1'')]"
  let ?m' = "snd (inbox_Record background ?k ?m)"
  have inv: "inbox_inv ?m" by (simp add: inbox_inv_def ranges_all_def example_inbox3_def)
  have past: "\<forall>e \<in> set (ib_seenAt ?m). snd e < ib_now ?m (ib_ticks ?m)" and mono: "mono (ib_now ?m)"
    by (simp_all add: example_inbox3_def mono_def)
  have m': "?m' = ?m\<lparr>ib_seenAt := [(?k, 11)], ib_ticks := 2\<rparr>"
    by (simp add: example_inbox3_def inbox_Record_def inbox_store_def inbox_call_now_def inbox_put_def time_sub_def
        max_duration_def min_duration_def Let_def)
  have room: "ib_maxSize ?m \<le> 0 \<or> int (inbox_Size ?m') + int (records ?ops) < ib_maxSize ?m"
    unfolding m' by (simp add: inbox_Size_def records_def example_inbox3_def)
  have late: "time_sub (ib_now ?m (ib_ticks (inbox_run background ?ops ?m'))) 11 \<le> ib_ttl ?m"
    unfolding m' by (simp add: inbox_run_def example_inbox3_def inbox_Record_def inbox_Seen_def inbox_store_def
        inbox_call_now_def inbox_put_def time_sub_def max_duration_def min_duration_def Let_def)
  from inbox_Record_then_Seen [OF inv past mono prod.collapse [symmetric] room, of background]
  show ?thesis using late m' by auto
qed

end
