(* ===== verification/Backend.thy ===== *)
theory Backend
  imports Prelude
begin

text \<open>
  What the Redis-backed adapters (\<^verbatim>\<open>cache/redis\<close>, \<^verbatim>\<open>ratelimit/redisrate\<close>, \<^verbatim>\<open>idempotency/redis\<close>,
  \<^verbatim>\<open>jobs/asynq\<close>) share: the nil check on the client, the classification of backend errors,
  and length-prefixed keys. The contract of such a key encoding is the locale \<open>key_codec\<close>.
\<close>

section \<open>Clients\<close>

text \<open>
  The client argument of a constructor: a nil interface, one of the three documented
  go-redis types with its pointer possibly nil, or another implementation.
\<close>

datatype 'c client_arg = NilInterface | GoRedisClient "'c option" | GoRedisCluster "'c option"
  | GoRedisRing "'c option" | CustomClient 'c

fun client_of :: "'c client_arg \<Rightarrow> 'c option" where
  "client_of NilInterface = None"
| "client_of (GoRedisClient c) = c"
| "client_of (GoRedisCluster c) = c"
| "client_of (GoRedisRing c) = c"
| "client_of (CustomClient c) = Some c"

section \<open>Backend errors\<close>

definition transport_markers :: "string list" where
  "transport_markers = [''connection refused'', ''no such host'', ''i/o timeout'', ''dial tcp'',
     ''connect:'', ''EOF'', ''broken pipe'', ''reset by peer'']"

text \<open>\<^verbatim>\<open>err.Error()\<close> is the argument \<open>errtext\<close>.\<close>

definition classifyBackendErr :: "(goerr \<Rightarrow> string) \<Rightarrow> goerr \<Rightarrow> errcode" where
  "classifyBackendErr errtext err =
     (if as_net_error err then CodeUnavailable
      else if list_ex (str_contains (errtext err)) transport_markers then CodeUnavailable
      else CodeInternal)"

definition map_backend_err :: "(goerr \<Rightarrow> string) \<Rightarrow> string \<Rightarrow> goerr \<Rightarrow> goerr" where
  "map_backend_err errtext msg err =
     (if is_ctx_err err then err else ErrxWrap (classifyBackendErr errtext err) msg err)"

text \<open>
  What a caller can rely on: the error is the context's, unchanged, or it carries a code
  other than CodeUnknown.
\<close>

definition well_coded :: "goerr \<Rightarrow> bool" where
  "well_coded e \<longleftrightarrow> is_ctx_err e \<or> (\<exists>c. as_coded e = Some c \<and> c \<noteq> CodeUnknown)"

lemma classify_not_unknown:
  "classifyBackendErr errtext err = CodeUnavailable \<or> classifyBackendErr errtext err = CodeInternal"
  by (simp add: classifyBackendErr_def)

lemma map_backend_err_well_coded: "well_coded (map_backend_err errtext msg err)"
  using classify_not_unknown [of errtext err] by (auto simp: map_backend_err_def well_coded_def)

lemma ErrxNew_well_coded [simp]: "c \<noteq> CodeUnknown \<Longrightarrow> well_coded (ErrxNew c m)"
  by (simp add: well_coded_def)

lemma ErrxWrap_well_coded [simp]: "c \<noteq> CodeUnknown \<Longrightarrow> well_coded (ErrxWrap c m e)"
  by (simp add: well_coded_def)

lemma ctx_err_well_coded [simp]: "is_ctx_err e \<Longrightarrow> well_coded e"
  by (simp add: well_coded_def)

text \<open>A context reports only its own two errors.\<close>

definition proper_ctx :: "gctx \<Rightarrow> bool" where
  "proper_ctx ctx \<longleftrightarrow> ctx_err ctx \<in> {None, Some CtxCanceled, Some CtxDeadlineExceeded}"

lemma proper_ctx_err: "proper_ctx ctx \<Longrightarrow> ctx_err ctx = Some e \<Longrightarrow> is_ctx_err e"
  by (auto simp: proper_ctx_def is_ctx_err_def)

section \<open>Keys\<close>

text \<open>
  Distinct logical keys have distinct encodings. A keyspace seen through the encoding then
  behaves as a map from logical keys: what is written under one key is invisible under any
  other, of this namespace or another one.
\<close>

locale key_codec =
  fixes enc :: "'a \<Rightarrow> string"
  assumes enc_inj: "enc a = enc b \<Longrightarrow> a = b"
begin

definition view :: "(string \<rightharpoonup> 'v) \<Rightarrow> 'a \<rightharpoonup> 'v" where
  "view m = (\<lambda>a. m (enc a))"

lemma enc_eq_iff: "enc a = enc b \<longleftrightarrow> a = b"
  using enc_inj by blast

lemma view_update: "view (m(enc a \<mapsto> v)) = (view m)(a \<mapsto> v)"
  by (auto simp: view_def fun_eq_iff enc_eq_iff)

lemma view_delete: "view (m(enc a := None)) = (view m)(a := None)"
  by (auto simp: view_def fun_eq_iff enc_eq_iff)

end

text \<open>\<^verbatim>\<open>encode\<close> of \<^verbatim>\<open>cache/redis/key.go\<close> and \<^verbatim>\<open>ratelimit/redisrate/key.go\<close>: \<^verbatim>\<open>%d:%s:%s\<close>.\<close>

definition encode_key :: "string \<Rightarrow> string \<Rightarrow> string" where
  "encode_key keyPrefix key = decimal (length keyPrefix) @ '':'' @ keyPrefix @ '':'' @ key"

lemma encode_key_inj: "encode_key p k = encode_key p' k' \<Longrightarrow> p = p' \<and> k = k'"
proof -
  assume eq: "encode_key p k = encode_key p' k'"
  then have "decimal (length p) @ CHR '':'' # (p @ CHR '':'' # k) = decimal (length p') @ CHR '':'' # (p' @ CHR '':'' # k')"
    by (simp add: encode_key_def)
  then have "length p = length p' \<and> p @ CHR '':'' # k = p' @ CHR '':'' # k'"
    by (subst (asm) sep_append_inj) auto
  then show ?thesis by auto
qed

interpretation flat_keys: key_codec "\<lambda>(p, k). encode_key p k"
  by unfold_locales (auto dest: encode_key_inj)

end
