(* ===== verification/Redis_Cache.thy ===== *)
theory Redis_Cache
  imports Backend
begin

text \<open>
  The cache of \<^verbatim>\<open>cache/redis\<close>: construction, Get, Set, Delete, Exists and the health probe.
  The go-redis client is a parameter, the record \<open>redis_cmd\<close> of the commands the adapter
  sends, acting on a world \<open>'w\<close>; \<open>redis_laws\<close> states what the commands do to the visible
  contents. \<^verbatim>\<open>redis.Nil\<close> and \<^verbatim>\<open>cache.ErrMiss\<close> are sentinels of the libraries.
\<close>

record 'w redis_cmd =
  rc_Get :: "gctx \<Rightarrow> string \<Rightarrow> 'w \<Rightarrow> (goerr + bytes) \<times> 'w"
  rc_Set :: "gctx \<Rightarrow> string \<Rightarrow> bytes \<Rightarrow> duration \<Rightarrow> 'w \<Rightarrow> goerr option \<times> 'w"
  rc_Del :: "gctx \<Rightarrow> string \<Rightarrow> 'w \<Rightarrow> goerr option \<times> 'w"
  rc_Exists :: "gctx \<Rightarrow> string \<Rightarrow> 'w \<Rightarrow> (goerr + int) \<times> 'w"
  rc_Ping :: "gctx \<Rightarrow> 'w \<Rightarrow> goerr option \<times> 'w"
  rc_Nil :: goerr
  rc_text :: "goerr \<Rightarrow> string"

record 'w cache =
  ca_client :: "'w redis_cmd"
  ca_keyPrefix :: string
  ca_ErrMiss :: goerr

definition cache_ErrNilClient :: goerr where
  "cache_ErrNilClient = ErrxNew CodeInvalidArgument ''rediscache: nil redis client''"

definition cache_WithKeyPrefix :: "string \<Rightarrow> string \<Rightarrow> string" where
  "cache_WithKeyPrefix prefix cfg = prefix"

definition cache_New ::
  "goerr \<Rightarrow> 'w redis_cmd client_arg \<Rightarrow> (string \<Rightarrow> string) list \<Rightarrow> goerr + 'w cache" where
  "cache_New errMiss client opts =
     (case client_of client of
        None \<Rightarrow> Inl cache_ErrNilClient
      | Some c \<Rightarrow> Inr \<lparr>ca_client = c, ca_keyPrefix = fold (\<lambda>opt. opt) opts ''cache'', ca_ErrMiss = errMiss\<rparr>)"

definition errInvalidKey :: goerr where
  "errInvalidKey = ErrxNew CodeInvalidArgument ''rediscache: empty key''"

definition mapBackendErr :: "'w cache \<Rightarrow> string \<Rightarrow> goerr \<Rightarrow> goerr" where
  "mapBackendErr c op err = map_backend_err (rc_text (ca_client c)) (''rediscache: '' @ op) err"

definition cache_Get :: "'w cache \<Rightarrow> gctx \<Rightarrow> string \<Rightarrow> 'w \<Rightarrow> (goerr + bytes) \<times> 'w" where
  "cache_Get c ctx key w =
     (if key = [] then (Inl errInvalidKey, w)
      else case ctx_err ctx of Some err \<Rightarrow> (Inl err, w) | None \<Rightarrow>
        (case rc_Get (ca_client c) ctx (encode_key (ca_keyPrefix c) key) w of
           (Inl err, w') \<Rightarrow>
             if errors_is err (rc_Nil (ca_client c)) then (Inl (ca_ErrMiss c), w')
             else (Inl (mapBackendErr c ''get'' err), w')
         | (Inr b, w') \<Rightarrow> (Inr b, w')))"

definition cache_Set ::
  "'w cache \<Rightarrow> gctx \<Rightarrow> string \<Rightarrow> bytes \<Rightarrow> duration \<Rightarrow> 'w \<Rightarrow> goerr option \<times> 'w" where
  "cache_Set c ctx key value ttl w =
     (if key = [] then (Some errInvalidKey, w)
      else if ttl < 0 then (Some (ErrxNew CodeInvalidArgument ''rediscache: negative ttl''), w)
      else case ctx_err ctx of Some err \<Rightarrow> (Some err, w) | None \<Rightarrow>
        (case rc_Set (ca_client c) ctx (encode_key (ca_keyPrefix c) key) value ttl w of
           (Some err, w') \<Rightarrow> (Some (mapBackendErr c ''set'' err), w')
         | (None, w') \<Rightarrow> (None, w')))"

definition cache_Delete :: "'w cache \<Rightarrow> gctx \<Rightarrow> string \<Rightarrow> 'w \<Rightarrow> goerr option \<times> 'w" where
  "cache_Delete c ctx key w =
     (if key = [] then (Some errInvalidKey, w)
      else case ctx_err ctx of Some err \<Rightarrow> (Some err, w) | None \<Rightarrow>
        (case rc_Del (ca_client c) ctx (encode_key (ca_keyPrefix c) key) w of
           (Some err, w') \<Rightarrow> (Some (mapBackendErr c ''delete'' err), w')
         | (None, w') \<Rightarrow> (None, w')))"

definition cache_Exists :: "'w cache \<Rightarrow> gctx \<Rightarrow> string \<Rightarrow> 'w \<Rightarrow> (goerr + bool) \<times> 'w" where
  "cache_Exists c ctx key w =
     (if key = [] then (Inl errInvalidKey, w)
      else case ctx_err ctx of Some err \<Rightarrow> (Inl err, w) | None \<Rightarrow>
        (case rc_Exists (ca_client c) ctx (encode_key (ca_keyPrefix c) key) w of
           (Inl err, w') \<Rightarrow> (Inl (mapBackendErr c ''exists'' err), w')
         | (Inr n, w') \<Rightarrow> (Inr (n > 0), w')))"

text \<open>HealthCheck: the name of the probe, and the probe.\<close>

definition cache_HealthCheck ::
  "'w cache \<Rightarrow> string \<Rightarrow> string \<times> (gctx \<Rightarrow> 'w \<Rightarrow> goerr option \<times> 'w)" where
  "cache_HealthCheck c name = (if name = [] then ''cache-redis'' else name, rc_Ping (ca_client c))"

section \<open>Properties\<close>

text \<open>
  What Redis documents of the commands, on the contents visible at the moment: Get answers
  with the value or with \<^verbatim>\<open>redis.Nil\<close> for an absent key, Set and Del that report success have
  changed exactly their key, Exists counts it, and no other reply is \<^verbatim>\<open>redis.Nil\<close>. (Expiry
  happens between commands; it is not part of a command's own effect.)
\<close>

definition redis_get_law :: "'w redis_cmd \<Rightarrow> ('w \<Rightarrow> string \<rightharpoonup> bytes) \<Rightarrow> bool" where
  "redis_get_law cmd content \<longleftrightarrow>
     (\<forall>c k w. case rc_Get cmd c k w of
        (Inr b, w') \<Rightarrow> content w' = content w \<and> content w k = Some b
      | (Inl e, w') \<Rightarrow> content w' = content w \<and> (errors_is e (rc_Nil cmd) \<longrightarrow> content w k = None))"

definition redis_write_law :: "'w redis_cmd \<Rightarrow> ('w \<Rightarrow> string \<rightharpoonup> bytes) \<Rightarrow> bool" where
  "redis_write_law cmd content \<longleftrightarrow>
     (\<forall>c k v ttl w w'. rc_Set cmd c k v ttl w = (None, w') \<longrightarrow> content w' = (content w)(k \<mapsto> v)) \<and>
     (\<forall>c k w w'. rc_Del cmd c k w = (None, w') \<longrightarrow> content w' = (content w)(k := None))"

definition redis_exists_law :: "'w redis_cmd \<Rightarrow> ('w \<Rightarrow> string \<rightharpoonup> bytes) \<Rightarrow> bool" where
  "redis_exists_law cmd content \<longleftrightarrow>
     (\<forall>c k w n w'. rc_Exists cmd c k w = (Inr n, w') \<longrightarrow>
        content w' = content w \<and> n = (if content w k = None then 0 else 1))"

definition redis_laws :: "'w redis_cmd \<Rightarrow> ('w \<Rightarrow> string \<rightharpoonup> bytes) \<Rightarrow> bool" where
  "redis_laws cmd content \<longleftrightarrow>
     redis_get_law cmd content \<and> redis_write_law cmd content \<and> redis_exists_law cmd content"

text \<open>The contents as the caches of all prefixes see them.\<close>

abbreviation entries :: "('w \<Rightarrow> string \<rightharpoonup> bytes) \<Rightarrow> 'w \<Rightarrow> string \<times> string \<rightharpoonup> bytes" where
  "entries content w \<equiv> flat_keys.view (content w)"

lemma redis_laws_Get:
  assumes "redis_laws cmd content" "rc_Get cmd c k w = (res, w')"
  shows "content w' = content w" "res = Inr b \<Longrightarrow> content w k = Some b"
    "res = Inl e \<Longrightarrow> errors_is e (rc_Nil cmd) \<Longrightarrow> content w k = None"
proof -
  have "case rc_Get cmd c k w of
        (Inr b, w') \<Rightarrow> content w' = content w \<and> content w k = Some b
      | (Inl e, w') \<Rightarrow> content w' = content w \<and> (errors_is e (rc_Nil cmd) \<longrightarrow> content w k = None)"
    using assms(1) [unfolded redis_laws_def redis_get_law_def, THEN conjunct1, rule_format] .
  with assms(2) show "content w' = content w" "res = Inr b \<Longrightarrow> content w k = Some b"
    "res = Inl e \<Longrightarrow> errors_is e (rc_Nil cmd) \<Longrightarrow> content w k = None"
    by (auto split: sum.splits)
qed

lemma redis_laws_write:
  "redis_laws cmd content \<Longrightarrow> rc_Set cmd c k v ttl w = (None, w') \<Longrightarrow> content w' = (content w)(k \<mapsto> v)"
  "redis_laws cmd content \<Longrightarrow> rc_Del cmd c k w = (None, w') \<Longrightarrow> content w' = (content w)(k := None)"
  by (simp_all add: redis_laws_def redis_write_law_def)

lemma redis_laws_exists:
  "redis_laws cmd content \<Longrightarrow> rc_Exists cmd c k w = (Inr n, w') \<Longrightarrow>
     content w' = content w \<and> n = (if content w k = None then 0 else 1)"
  unfolding redis_laws_def redis_exists_law_def by blast

text \<open>\<^verbatim>\<open>cache.ErrMiss\<close> is a sentinel of its own: no context error and no coded error equals it.\<close>

definition miss_sentinel :: "goerr \<Rightarrow> bool" where
  "miss_sentinel e \<longleftrightarrow> \<not> is_ctx_err e \<and> as_coded e = None"

lemma miss_not_mapped:
  assumes "miss_sentinel e"
  shows "map_backend_err errtext msg err \<noteq> e" "ErrxNew code m \<noteq> e"
  using assms by (auto simp: miss_sentinel_def map_backend_err_def)

lemma cache_Get_law:
  assumes laws: "redis_laws (ca_client c) content" and op: "cache_Get c ctx key w = (res, w')"
    and miss: "miss_sentinel (ca_ErrMiss c)" and "proper_ctx ctx"
  shows "content w' = content w \<and> (\<forall>b. res = Inr b \<longrightarrow> entries content w (ca_keyPrefix c, key) = Some b) \<and>
         (res = Inl (ca_ErrMiss c) \<longrightarrow> entries content w (ca_keyPrefix c, key) = None)"
proof (cases "key = [] \<or> ctx_err ctx \<noteq> None")
  case True
  then show ?thesis
    using op miss_not_mapped(2) [OF miss] proper_ctx_err [OF assms(4)] miss
    by (auto simp: cache_Get_def errInvalidKey_def miss_sentinel_def split: if_splits)
next
  case False
  obtain gres w1 where g: "rc_Get (ca_client c) ctx (encode_key (ca_keyPrefix c) key) w = (gres, w1)"
    by (metis surj_pair)
  note law = redis_laws_Get [OF laws g]
  show ?thesis
  proof (cases gres)
    case (Inl e)
    then show ?thesis
      using op g False law(1) law(3) [OF Inl] miss_not_mapped(1) [OF miss]
      by (auto simp: cache_Get_def flat_keys.view_def mapBackendErr_def split: if_splits)
  next
    case (Inr b)
    then show ?thesis using op g False law(1) law(2) [OF Inr] by (auto simp: cache_Get_def flat_keys.view_def)
  qed
qed

lemma cache_Set_nil:
  assumes "redis_laws (ca_client c) content" "cache_Set c ctx key v ttl w = (None, w')"
  shows "entries content w' = (entries content w)((ca_keyPrefix c, key) \<mapsto> v) \<and> key \<noteq> [] \<and> 0 \<le> ttl"
proof -
  have "rc_Set (ca_client c) ctx (encode_key (ca_keyPrefix c) key) v ttl w = (None, w')" "key \<noteq> []" "0 \<le> ttl"
    using assms(2) by (auto simp: cache_Set_def split: if_splits option.splits prod.splits)
  then show ?thesis
    using redis_laws_write(1) [OF assms(1)] flat_keys.view_update [of "content w" "(ca_keyPrefix c, key)"] by simp
qed

lemma cache_Delete_nil:
  assumes "redis_laws (ca_client c) content" "cache_Delete c ctx key w = (None, w')"
  shows "entries content w' = (entries content w)((ca_keyPrefix c, key) := None)"
proof -
  have "rc_Del (ca_client c) ctx (encode_key (ca_keyPrefix c) key) w = (None, w')"
    using assms(2) by (auto simp: cache_Delete_def split: if_splits option.splits prod.splits)
  then show ?thesis
    using redis_laws_write(2) [OF assms(1)] flat_keys.view_delete [of "content w" "(ca_keyPrefix c, key)"] by simp
qed

lemma cache_Exists_Inr:
  assumes "redis_laws (ca_client c) content" "cache_Exists c ctx key w = (Inr b, w')"
  shows "b \<longleftrightarrow> entries content w (ca_keyPrefix c, key) \<noteq> None"
proof -
  obtain n where n: "rc_Exists (ca_client c) ctx (encode_key (ca_keyPrefix c) key) w = (Inr n, w')" "b \<longleftrightarrow> n > 0"
    using assms(2) by (auto simp: cache_Exists_def split: if_splits option.splits prod.splits sum.splits)
  then show ?thesis using redis_laws_exists [OF assms(1) n(1)] by (auto simp: flat_keys.view_def)
qed

text \<open>
  C38: The cache is a map per namespace. After a Set that reports success, a Get through any
  cache over the same Redis that returns a value returns the value just set if it has the
  same prefix and key, and the value from before otherwise, whatever the prefixes and keys
  contain; ErrMiss after the Set is only answered for another prefix or key that had no
  entry. A successful Delete removes exactly its own entry, and Exists tells whether there is one.
\<close>

theorem cache_namespaces:
  assumes "redis_laws (ca_client c) content" and "ca_client c' = ca_client c"
    and "miss_sentinel (ca_ErrMiss c')" and "proper_ctx ctx'"
    and "cache_Set c ctx key v ttl w = (None, w1)" and "cache_Get c' ctx' key' w1 = (res, w2)"
    and "cache_Delete c ctx key w1 = (None, w3)" and "cache_Exists c' ctx' key' w3 = (Inr found, w4)"
  shows "(\<forall>b. res = Inr b \<longrightarrow> (if (ca_keyPrefix c', key') = (ca_keyPrefix c, key) then b = v
                 else entries content w (ca_keyPrefix c', key') = Some b)) \<and>
    (res = Inl (ca_ErrMiss c') \<longrightarrow> (ca_keyPrefix c', key') \<noteq> (ca_keyPrefix c, key) \<and>
        entries content w (ca_keyPrefix c', key') = None) \<and>
    (found \<longleftrightarrow> (ca_keyPrefix c', key') \<noteq> (ca_keyPrefix c, key) \<and> entries content w (ca_keyPrefix c', key') \<noteq> None)"
proof -
  have laws': "redis_laws (ca_client c') content" using assms(1,2) by simp
  note set = cache_Set_nil [OF assms(1,5)]
  note get = cache_Get_law [OF laws' assms(6,3,4)]
  note del = cache_Delete_nil [OF assms(1,7)]
  note ex = cache_Exists_Inr [OF laws' assms(8)]
  show ?thesis using set get del ex by (auto split: if_splits)
qed

text \<open>
  Every error of the cache is well coded, and the checks come in a fixed order. An empty
  key, then a negative TTL, then an ended context are refused before Redis is contacted, with
  CodeInvalidArgument or the context's own error. Any other error is ErrMiss (from Get), a
  context error unchanged, or carries CodeUnavailable or CodeInternal; never CodeUnknown.
\<close>

lemma cache_errors_coded:
  assumes "proper_ctx ctx"
  shows "(key = [] \<longrightarrow> cache_Get c ctx key w = (Inl errInvalidKey, w) \<and> cache_Set c ctx key v ttl w = (Some errInvalidKey, w)
            \<and> cache_Delete c ctx key w = (Some errInvalidKey, w) \<and> cache_Exists c ctx key w = (Inl errInvalidKey, w)) \<and>
    (key \<noteq> [] \<and> ttl < 0 \<longrightarrow> cache_Set c ctx key v ttl w = (Some (ErrxNew CodeInvalidArgument ''rediscache: negative ttl''), w)) \<and>
    (\<forall>e. key \<noteq> [] \<and> ctx_err ctx = Some e \<longrightarrow> cache_Get c ctx key w = (Inl e, w) \<and>
       (0 \<le> ttl \<longrightarrow> cache_Set c ctx key v ttl w = (Some e, w)) \<and> cache_Delete c ctx key w = (Some e, w) \<and>
       cache_Exists c ctx key w = (Inl e, w)) \<and>
    (\<forall>e. fst (cache_Get c ctx key w) = Inl e \<longrightarrow> e = ca_ErrMiss c \<or> well_coded e) \<and>
    (\<forall>e. fst (cache_Set c ctx key v ttl w) = Some e \<or> fst (cache_Delete c ctx key w) = Some e \<or>
         fst (cache_Exists c ctx key w) = Inl e \<longrightarrow> well_coded e)"
proof (intro conjI)
  note coded = map_backend_err_well_coded proper_ctx_err [OF assms, THEN ctx_err_well_coded]
  show "\<forall>e. fst (cache_Get c ctx key w) = Inl e \<longrightarrow> e = ca_ErrMiss c \<or> well_coded e"
    by (auto simp: cache_Get_def errInvalidKey_def mapBackendErr_def intro: coded split: if_splits option.splits prod.splits sum.splits)
  show "\<forall>e. fst (cache_Set c ctx key v ttl w) = Some e \<or> fst (cache_Delete c ctx key w) = Some e \<or>
         fst (cache_Exists c ctx key w) = Inl e \<longrightarrow> well_coded e"
    by (auto simp: cache_Set_def cache_Delete_def cache_Exists_def errInvalidKey_def mapBackendErr_def
        intro: coded split: if_splits option.splits prod.splits sum.splits)
qed (auto simp: cache_Get_def cache_Set_def cache_Delete_def cache_Exists_def)

text \<open>A server for concrete evaluations: the world is its contents.\<close>

definition example_redis :: "(string \<rightharpoonup> bytes) redis_cmd" where
  "example_redis = \<lparr>
     rc_Get = (\<lambda>c k w. (case w k of None \<Rightarrow> Inl (Foreign False ''redis: nil'' []) | Some b \<Rightarrow> Inr b, w)),
     rc_Set = (\<lambda>c k v ttl w. (None, w(k \<mapsto> v))), rc_Del = (\<lambda>c k w. (None, w(k := None))),
     rc_Exists = (\<lambda>c k w. (Inr (if w k = None then 0 else 1), w)), rc_Ping = (\<lambda>c w. (None, w)),
     rc_Nil = Foreign False ''redis: nil'' [], rc_text = (\<lambda>e. ''error'')\<rparr>"

lemma example_redis_laws: "redis_laws example_redis (\<lambda>w. w)"
  by (simp add: redis_laws_def redis_get_law_def redis_write_law_def redis_exists_law_def example_redis_def
      split: option.split)

definition example_cache :: "string \<Rightarrow> (string \<rightharpoonup> bytes) cache" where
  "example_cache p = \<lparr>ca_client = example_redis, ca_keyPrefix = p, ca_ErrMiss = ErrNew ''cache: miss''\<rparr>"

lemma example_miss: "miss_sentinel (ErrNew ''cache: miss'')"
  by (simp add: miss_sentinel_def is_ctx_err_def)

lemma background_proper: "proper_ctx background"
  by (simp add: proper_ctx_def background_def)

theorem cache_namespaces_witness:
  "let w1 = snd (cache_Set (example_cache ''a'') background ''b:c'' ''v'' 0 Map.empty)
   in fst (cache_Get (example_cache ''a:b'') background ''c'' w1) = Inl (ErrNew ''cache: miss'')"
proof -
  let ?c = "example_cache ''a''" and ?c' = "example_cache ''a:b''"
  obtain w1 where s: "cache_Set ?c background ''b:c'' ''v'' 0 Map.empty = (None, w1)"
    by (simp add: cache_Set_def example_cache_def example_redis_def background_def)
  obtain res w2 where g: "cache_Get ?c' background ''c'' w1 = (res, w2)" by (metis surj_pair)
  obtain w3 where d: "cache_Delete ?c background ''b:c'' w1 = (None, w3)"
    by (simp add: cache_Delete_def example_cache_def example_redis_def background_def)
  obtain f w4 where e: "cache_Exists ?c' background ''c'' w3 = (Inr f, w4)"
    by (simp add: cache_Exists_def example_cache_def example_redis_def background_def)
  have "redis_laws (ca_client ?c) (\<lambda>w. w)" "ca_client ?c' = ca_client ?c" "miss_sentinel (ca_ErrMiss ?c')"
    by (simp_all add: example_cache_def example_redis_laws example_miss)
  from cache_namespaces [OF this background_proper s g d e]
  have "res \<noteq> Inr b" for b by (auto simp: flat_keys.view_def example_cache_def)
  moreover have "\<exists>b. res = Inr b \<or> res = Inl (ErrNew ''cache: miss'')"
    using g by (auto simp: cache_Get_def example_cache_def example_redis_def background_def split: option.splits if_splits)
  ultimately show ?thesis using s g by auto
qed

end
