(* ===== verification/Rate_Limit.thy ===== *)
theory Rate_Limit
  imports Backend
begin

text \<open>
  The rate limiter of \<^verbatim>\<open>ratelimit/redisrate\<close>: construction with its validation, the
  projection of a redis_rate result, the error mapping and Allow. The redis_rate library is a
  parameter: its Allow on a world \<open>'w\<close>, with the documented shape of its results stated as
  \<open>gcra_laws\<close>.
\<close>

record rr_limit =
  lim_Rate :: int
  lim_Burst :: int
  lim_Period :: duration

record rr_result =
  rr_Allowed :: int
  rr_Remaining :: int
  rr_RetryAfter :: duration

record rl_result =
  res_Allowed :: bool
  res_Limit :: int
  res_Remaining :: int
  res_RetryAfter :: duration
  res_ResetAt :: time

record 'w rate_client =
  rr_Allow :: "gctx \<Rightarrow> string \<Rightarrow> rr_limit \<Rightarrow> 'w \<Rightarrow> (goerr + rr_result) \<times> 'w"
  rr_text :: "goerr \<Rightarrow> string"

record 'w limiter =
  lm_limiter :: "'w rate_client"
  lm_limit :: rr_limit
  lm_keyPrefix :: string

definition limiter_ErrNilClient :: goerr where
  "limiter_ErrNilClient = ErrxNew CodeInvalidArgument ''redisratelimit: nil Redis client''"

definition ErrInvalidLimit :: goerr where
  "ErrInvalidLimit = ErrxNew CodeInvalidArgument ''redisratelimit: limit must have positive Rate, Burst, and Period''"

definition limiter_defaultKeyPrefix :: string where "limiter_defaultKeyPrefix = ''ratelimit''"

definition limiter_WithKeyPrefix :: "string \<Rightarrow> string \<Rightarrow> string" where
  "limiter_WithKeyPrefix prefix cfg = prefix"

definition limiter_New ::
  "'w rate_client client_arg \<Rightarrow> rr_limit \<Rightarrow> (string \<Rightarrow> string) list \<Rightarrow> goerr + 'w limiter" where
  "limiter_New client limit opts =
     (case client_of client of
        None \<Rightarrow> Inl limiter_ErrNilClient
      | Some c \<Rightarrow>
          if lim_Rate limit \<le> 0 \<or> lim_Burst limit \<le> 0 \<or> lim_Period limit \<le> 0 then Inl ErrInvalidLimit
          else Inr \<lparr>lm_limiter = c, lm_limit = limit, lm_keyPrefix = fold (\<lambda>opt. opt) opts limiter_defaultKeyPrefix\<rparr>)"

text \<open>The zero value of a result; its ResetAt is the zero time.\<close>

definition zero_result :: rl_result where
  "zero_result = \<lparr>res_Allowed = False, res_Limit = 0, res_Remaining = 0, res_RetryAfter = 0, res_ResetAt = zero_time\<rparr>"

definition mapResult :: "rr_result \<Rightarrow> rr_limit \<Rightarrow> rl_result" where
  "mapResult res limit =
     (let out = zero_result\<lparr>res_Allowed := rr_Allowed res > 0, res_Limit := lim_Burst limit,
                            res_Remaining := rr_Remaining res\<rparr>
      in if \<not> res_Allowed out then out\<lparr>res_RetryAfter := rr_RetryAfter res\<rparr> else out)"

text \<open>The package's own classification and key encoding, copies of those in \<^verbatim>\<open>cache/redis\<close>.\<close>

definition limiter_transport_markers :: "string list" where
  "limiter_transport_markers = [''connection refused'', ''no such host'', ''i/o timeout'', ''dial tcp'',
     ''connect:'', ''EOF'', ''broken pipe'', ''reset by peer'']"

definition limiter_classifyBackendErr :: "(goerr \<Rightarrow> string) \<Rightarrow> goerr \<Rightarrow> errcode" where
  "limiter_classifyBackendErr errtext err =
     (if as_net_error err then CodeUnavailable
      else if list_ex (str_contains (errtext err)) limiter_transport_markers then CodeUnavailable
      else CodeInternal)"

definition limiter_encode :: "string \<Rightarrow> string \<Rightarrow> string" where
  "limiter_encode keyPrefix key = decimal (length keyPrefix) @ '':'' @ keyPrefix @ '':'' @ key"

definition limiter_mapError :: "'w limiter \<Rightarrow> goerr \<Rightarrow> goerr" where
  "limiter_mapError l err =
     (if is_ctx_err err then err
      else ErrxWrap (limiter_classifyBackendErr (rr_text (lm_limiter l)) err) ''redisratelimit: allow'' err)"

definition limiter_Allow :: "'w limiter \<Rightarrow> gctx \<Rightarrow> string \<Rightarrow> 'w \<Rightarrow> (goerr + rl_result) \<times> 'w" where
  "limiter_Allow l ctx key w =
     (if key = [] then
        (Inl (ErrxNew CodeInvalidArgument ''redisratelimit: empty key (a missing partition key, not an anonymous caller)''), w)
      else case ctx_err ctx of Some err \<Rightarrow> (Inl err, w) | None \<Rightarrow>
        (case rr_Allow (lm_limiter l) ctx (limiter_encode (lm_keyPrefix l) key) (lm_limit l) w of
           (Inl err, w') \<Rightarrow> (Inl (limiter_mapError l err), w')
         | (Inr res, w') \<Rightarrow> (Inr (mapResult res (lm_limit l)), w')))"

lemma limiter_copies: "limiter_classifyBackendErr = classifyBackendErr" "limiter_encode = encode_key"
  by (rule ext, rule ext, simp add: limiter_classifyBackendErr_def classifyBackendErr_def limiter_transport_markers_def
      transport_markers_def)
     (rule ext, rule ext, simp add: limiter_encode_def encode_key_def)

lemma limiter_mapError_eq:
  "limiter_mapError l err = map_backend_err (rr_text (lm_limiter l)) ''redisratelimit: allow'' err"
  by (simp add: limiter_mapError_def map_backend_err_def limiter_copies)

lemma limiter_mapError_is:
  "errors_is (limiter_mapError l e) e" "is_ctx_err e \<Longrightarrow> limiter_mapError l e = e"
  by (simp_all add: limiter_mapError_def)

section \<open>The contract\<close>

text \<open>
  The documented results of redis_rate for a valid limit: the count granted is not negative,
  the remaining capacity is between 0 and the burst, RetryAfter is -1 when granted and
  otherwise positive and at most the period.
\<close>

definition gcra_laws :: "'w rate_client \<Rightarrow> bool" where
  "gcra_laws c \<longleftrightarrow> (\<forall>ctx k lim w res w'.
     0 < lim_Rate lim \<and> 0 < lim_Burst lim \<and> 0 < lim_Period lim \<longrightarrow> rr_Allow c ctx k lim w = (Inr res, w') \<longrightarrow>
       0 \<le> rr_Allowed res \<and> 0 \<le> rr_Remaining res \<and> rr_Remaining res \<le> lim_Burst lim \<and>
       (if 0 < rr_Allowed res then rr_RetryAfter res = - 1
        else 0 < rr_RetryAfter res \<and> rr_RetryAfter res \<le> lim_Period lim))"

text \<open>
  C39: A limiter from New reports the backend's decision in the shape of the port. An empty key,
  then an ended context, are refused before Redis is contacted. Otherwise redis_rate is asked
  once, under the limiter's prefixed key and its limit; the call is allowed exactly when it
  granted at least one event; RetryAfter is 0 when allowed and otherwise the backend's, which is
  positive and at most the period; the remaining capacity is the backend's, between 0 and the
  limit reported, which is the burst; ResetAt is never set. A backend error comes back as itself
  when it is a context error and otherwise wrapped, with a code other than CodeUnknown.
\<close>

theorem limiter_contract:
  assumes "limiter_New client limit opts = Inr l" and "gcra_laws (lm_limiter l)"
    and "limiter_Allow l ctx key w = (res, w')"
  shows "if key = [] then w' = w \<and> (\<exists>m. res = Inl (ErrxNew CodeInvalidArgument m))
    else case ctx_err ctx of Some e \<Rightarrow> w' = w \<and> res = Inl e | None \<Rightarrow>
      (case rr_Allow (lm_limiter l) ctx (limiter_encode (lm_keyPrefix l) key) limit w of
         (Inl e, w1) \<Rightarrow> w' = w1 \<and> (\<exists>e'. res = Inl e' \<and> errors_is e' e \<and> well_coded e' \<and> (is_ctx_err e \<longrightarrow> e' = e))
       | (Inr d, w1) \<Rightarrow> w' = w1 \<and>
           (\<exists>r. res = Inr r \<and> (res_Allowed r \<longleftrightarrow> 0 < rr_Allowed d) \<and>
              res_RetryAfter r = (if 0 < rr_Allowed d then 0 else rr_RetryAfter d) \<and>
              (\<not> res_Allowed r \<longrightarrow> 0 < res_RetryAfter r \<and> res_RetryAfter r \<le> lim_Period limit) \<and>
              res_Remaining r = rr_Remaining d \<and> 0 \<le> res_Remaining r \<and> res_Remaining r \<le> res_Limit r \<and>
              res_Limit r = lim_Burst limit \<and> res_ResetAt r = zero_time))"
proof (cases "key = [] \<or> ctx_err ctx \<noteq> None")
  case True
  then show ?thesis using assms(3) by (auto simp: limiter_Allow_def split: if_splits)
next
  case False
  have lim: "lm_limit l = limit" "0 < lim_Rate limit" "0 < lim_Burst limit" "0 < lim_Period limit"
    using assms(1) by (auto simp: limiter_New_def split: option.splits if_splits)
  obtain ares w1 where a: "rr_Allow (lm_limiter l) ctx (limiter_encode (lm_keyPrefix l) key) limit w = (ares, w1)"
    by (metis surj_pair)
  show ?thesis
  proof (cases ares)
    case (Inl e)
    then show ?thesis
      using assms(3) False a lim map_backend_err_well_coded limiter_mapError_is [where e = e and l = l]
      by (auto simp: limiter_Allow_def limiter_mapError_eq)
  next
    case (Inr d)
    have law: "0 \<le> rr_Allowed d \<and> 0 \<le> rr_Remaining d \<and> rr_Remaining d \<le> lim_Burst limit \<and>
        (if 0 < rr_Allowed d then rr_RetryAfter d = - 1
         else 0 < rr_RetryAfter d \<and> rr_RetryAfter d \<le> lim_Period limit)"
      using assms(2) [unfolded gcra_laws_def, rule_format, OF _ a [unfolded Inr]] lim by simp
    have "res = Inr (mapResult d limit)" "w' = w1"
      using assms(3) False a Inr lim by (auto simp: limiter_Allow_def)
    then show ?thesis
      using law lim False a Inr by (simp add: mapResult_def zero_result_def Let_def)
  qed
qed

text \<open>A backend for concrete evaluations: it grants as long as the world, a counter, is positive.\<close>

definition example_rate :: "int rate_client" where
  "example_rate = \<lparr>rr_Allow = (\<lambda>ctx k lim w.
       if w > 0 then (Inr \<lparr>rr_Allowed = 1, rr_Remaining = 0, rr_RetryAfter = - 1\<rparr>, w - 1)
       else (Inr \<lparr>rr_Allowed = 0, rr_Remaining = 0, rr_RetryAfter = lim_Period lim\<rparr>, w)),
     rr_text = (\<lambda>e. ''error'')\<rparr>"

definition example_limiter :: "int limiter" where
  "example_limiter = \<lparr>lm_limiter = example_rate, lm_limit = \<lparr>lim_Rate = 1, lim_Burst = 1, lim_Period = second\<rparr>,
     lm_keyPrefix = ''ratelimit''\<rparr>"

theorem limiter_contract_witness:
  "case fst (limiter_Allow example_limiter background ''k'' 0) of
     Inr r \<Rightarrow> \<not> res_Allowed r \<and> 0 < res_RetryAfter r \<and> res_RetryAfter r \<le> second
   | Inl e \<Rightarrow> False"
proof -
  let ?lim = "\<lparr>lim_Rate = 1, lim_Burst = 1, lim_Period = second\<rparr>"
  have new: "limiter_New (GoRedisClient (Some example_rate)) ?lim [] = Inr example_limiter"
    by (simp add: limiter_New_def example_limiter_def second_def limiter_defaultKeyPrefix_def)
  have laws: "gcra_laws (lm_limiter example_limiter)"
    by (auto simp: gcra_laws_def example_limiter_def example_rate_def split: if_splits)
  obtain res w' where a: "limiter_Allow example_limiter background ''k'' 0 = (res, w')" by (metis surj_pair)
  from limiter_contract [OF new laws a]
  show ?thesis
    using a by (auto simp: example_limiter_def example_rate_def background_def)
qed

end
