(* ===== verification/Idempotency.thy ===== *)
theory Idempotency
  imports Backend
begin

text \<open>
  The idempotency store of \<^verbatim>\<open>idempotency/redis\<close>: construction, the composite key, Begin,
  Finish and Cancel (\<^verbatim>\<open>store.go\<close>) and the three Lua scripts (\<^verbatim>\<open>script.go\<close>) over Redis hashes
  with expiry. A script runs atomically on the server at one clock reading; a call may fail
  before the script ran or after it took effect. The random token of Begin is an argument.
\<close>

section \<open>The server and the scripts\<close>

type_synonym rhash = "string \<rightharpoonup> string"

text \<open>A key holds a hash and, when PEXPIRE was called on it, the time it expires.\<close>

type_synonym keyspace = "string \<rightharpoonup> rhash \<times> time option"

definition live :: "time \<Rightarrow> keyspace \<Rightarrow> string \<Rightarrow> rhash option" where
  "live now ks k =
     (case ks k of
        None \<Rightarrow> None
      | Some (h, None) \<Rightarrow> Some h
      | Some (h, Some t) \<Rightarrow> if t \<le> now then None else Some h)"

text \<open>PEXPIRE with a non-positive time deletes the key.\<close>

definition put_expiring :: "time \<Rightarrow> int \<Rightarrow> string \<Rightarrow> rhash \<Rightarrow> keyspace \<Rightarrow> keyspace" where
  "put_expiring now ms k h ks =
     (if ms \<le> 0 then ks(k := None) else ks(k \<mapsto> (h, Some (now + ms * millisecond))))"

definition beginScript ::
  "string \<Rightarrow> string \<Rightarrow> int \<Rightarrow> string \<Rightarrow> time \<Rightarrow> keyspace \<Rightarrow> (string \<times> string \<times> string) \<times> keyspace" where
  "beginScript fp tok ms k now ks =
     (case live now ks k of
        None \<Rightarrow> ((''new'', tok, []), put_expiring now ms k [''fp'' \<mapsto> fp, ''st'' \<mapsto> ''P'', ''tok'' \<mapsto> tok] ks)
      | Some h \<Rightarrow>
          if h ''fp'' \<noteq> Some fp then ((''mismatch'', [], []), ks)
          else if h ''st'' = Some ''P'' then ((''inprogress'', [], []), ks)
          else ((''completed'', [], (case h ''resp'' of Some r \<Rightarrow> r | None \<Rightarrow> [])), ks))"

definition finishScript ::
  "string \<Rightarrow> bytes \<Rightarrow> int \<Rightarrow> string \<Rightarrow> time \<Rightarrow> keyspace \<Rightarrow> int \<times> keyspace" where
  "finishScript tok response ms k now ks =
     (case live now ks k of
        None \<Rightarrow> (- 1, ks)
      | Some h \<Rightarrow>
          (case h ''st'' of
             None \<Rightarrow> (- 1, ks)
           | Some st \<Rightarrow>
               if st = ''C'' then (- 1, ks)
               else if h ''tok'' \<noteq> Some tok then (- 1, ks)
               else (0, put_expiring now ms k ((h(''st'' \<mapsto> ''C'', ''resp'' \<mapsto> response))(''tok'' := None)) ks)))"

definition cancelScript :: "string \<Rightarrow> string \<Rightarrow> time \<Rightarrow> keyspace \<Rightarrow> int \<times> keyspace" where
  "cancelScript tok k now ks =
     (case live now ks k of
        None \<Rightarrow> (- 1, ks)
      | Some h \<Rightarrow>
          (case h ''st'' of
             None \<Rightarrow> (- 1, ks)
           | Some st \<Rightarrow>
               if st = ''C'' then (- 1, ks)
               else if h ''tok'' \<noteq> Some tok then (- 1, ks)
               else (0, ks(k := None))))"

record rserver =
  sv_keys :: keyspace
  sv_clock :: "nat \<Rightarrow> time"
  sv_fault :: "nat \<Rightarrow> fault"
  sv_calls :: nat

definition run_script :: "(time \<Rightarrow> keyspace \<Rightarrow> 'a \<times> keyspace) \<Rightarrow> rserver \<Rightarrow> (goerr + 'a) \<times> rserver" where
  "run_script script sv =
     (let n = sv_calls sv; sv1 = sv\<lparr>sv_calls := Suc n\<rparr>; (r, ks) = script (sv_clock sv n) (sv_keys sv)
      in case sv_fault sv n of
           NoFault \<Rightarrow> (Inr r, sv1\<lparr>sv_keys := ks\<rparr>)
         | FailBefore e \<Rightarrow> (Inl e, sv1)
         | FailAfter e \<Rightarrow> (Inl e, sv1\<lparr>sv_keys := ks\<rparr>))"

section \<open>The store\<close>

record idem_store =
  is_keyPrefix :: string
  is_leaseTTL :: duration
  is_retention :: duration

definition idem_ErrNilClient :: goerr where
  "idem_ErrNilClient = ErrNew ''redisidempotency: client must not be nil''"
definition ErrEmptyKeyPrefix :: goerr where
  "ErrEmptyKeyPrefix = ErrNew ''redisidempotency: key prefix must not be empty''"
definition ErrLeaseTTLTooSmall :: goerr where
  "ErrLeaseTTLTooSmall = ErrNew ''redisidempotency: lease TTL must be >= 1ms''"
definition ErrRetentionTooSmall :: goerr where
  "ErrRetentionTooSmall = ErrNew ''redisidempotency: retention must be >= 1ms''"

definition idem_WithKeyPrefix :: "string \<Rightarrow> idem_store \<Rightarrow> idem_store" where
  "idem_WithKeyPrefix p c = c\<lparr>is_keyPrefix := p\<rparr>"
definition WithLeaseTTL :: "duration \<Rightarrow> idem_store \<Rightarrow> idem_store" where
  "WithLeaseTTL d c = c\<lparr>is_leaseTTL := d\<rparr>"
definition WithRetention :: "duration \<Rightarrow> idem_store \<Rightarrow> idem_store" where
  "WithRetention d c = c\<lparr>is_retention := d\<rparr>"

definition idem_defaultConfig :: idem_store where
  "idem_defaultConfig = \<lparr>is_keyPrefix = ''idem'', is_leaseTTL = 30 * second, is_retention = 24 * hour\<rparr>"

definition idem_New ::
  "'c client_arg \<Rightarrow> (idem_store \<Rightarrow> idem_store) list \<Rightarrow> goerr + idem_store" where
  "idem_New client opts =
     (case client_of client of
        None \<Rightarrow> Inl idem_ErrNilClient
      | Some _ \<Rightarrow>
          let c = fold (\<lambda>opt. opt) opts idem_defaultConfig
          in if is_keyPrefix c = [] then Inl ErrEmptyKeyPrefix
             else if is_leaseTTL c < millisecond then Inl ErrLeaseTTLTooSmall
             else if is_retention c < millisecond then Inl ErrRetentionTooSmall
             else Inr c)"

definition compositeKey :: "string \<Rightarrow> string \<Rightarrow> string \<Rightarrow> string" where
  "compositeKey keyPrefix scope key =
     decimal (length keyPrefix) @ '':'' @ keyPrefix @ '':'' @ decimal (length scope) @ '':'' @ scope @ key"

text \<open>
  \<^verbatim>\<open>newLeaseToken\<close> from the result of \<^verbatim>\<open>rand.Read\<close> on 16 bytes, and \<^verbatim>\<open>hex.EncodeToString\<close>. Begin takes the
  result of newLeaseToken as an argument.
\<close>

definition hex_digit :: "nat \<Rightarrow> char" where
  "hex_digit n = char_of (if n < 10 then 48 + n else 87 + n)"

fun hex_EncodeToString :: "bytes \<Rightarrow> string" where
  "hex_EncodeToString [] = []"
| "hex_EncodeToString (c # cs) =
     (let n = (of_char c :: nat) in hex_digit (n div 16) # hex_digit (n mod 16) # hex_EncodeToString cs)"

definition newLeaseToken :: "goerr + bytes \<Rightarrow> goerr + string" where
  "newLeaseToken rand_Read = (case rand_Read of Inl err \<Rightarrow> Inl err | Inr b \<Rightarrow> Inr (hex_EncodeToString b))"

datatype idem_status = StatusNew | StatusInProgress | StatusCompleted | StatusMismatch

record reservation =
  rv_Scope :: string
  rv_Key :: string
  rv_Status :: idem_status
  rv_LeaseToken :: string
  rv_LeaseTTL :: duration
  rv_Response :: bytes

definition idem_Begin ::
  "idem_store \<Rightarrow> string \<Rightarrow> string \<Rightarrow> string \<Rightarrow> goerr + string \<Rightarrow> rserver \<Rightarrow> (goerr + reservation) \<times> rserver" where
  "idem_Begin s scope key fingerprint leaseToken sv =
     (if scope = [] \<or> key = [] \<or> fingerprint = [] then
        (Inl (ErrxNew CodeInvalidArgument ''redisidempotency: scope, key, and fingerprint must be non-empty''), sv)
      else case leaseToken of
        Inl err \<Rightarrow> (Inl (ErrxWrap CodeInternal ''redisidempotency: generate lease token'' err), sv)
      | Inr token \<Rightarrow>
          (case run_script (beginScript fingerprint token (milliseconds (is_leaseTTL s))
                              (compositeKey (is_keyPrefix s) scope key)) sv of
             (Inl err, sv') \<Rightarrow> (Inl (ErrxWrap CodeUnavailable ''redisidempotency: begin'' err), sv')
           | (Inr (statusStr, tokStr, respStr), sv') \<Rightarrow>
               let r = \<lparr>rv_Scope = scope, rv_Key = key, rv_Status = StatusNew, rv_LeaseToken = [],
                        rv_LeaseTTL = 0, rv_Response = []\<rparr>
               in if statusStr = ''new'' then
                    (Inr (r\<lparr>rv_Status := StatusNew, rv_LeaseToken := tokStr, rv_LeaseTTL := is_leaseTTL s\<rparr>), sv')
                  else if statusStr = ''inprogress'' then (Inr (r\<lparr>rv_Status := StatusInProgress\<rparr>), sv')
                  else if statusStr = ''completed'' then
                    (Inr (r\<lparr>rv_Status := StatusCompleted, rv_Response := respStr\<rparr>), sv')
                  else if statusStr = ''mismatch'' then (Inr (r\<lparr>rv_Status := StatusMismatch\<rparr>), sv')
                  else (Inl (ErrxNew CodeInternal (''redisidempotency: unknown begin status '' @ statusStr)), sv')))"

definition idem_Finish ::
  "idem_store \<Rightarrow> reservation \<Rightarrow> bytes \<Rightarrow> rserver \<Rightarrow> goerr option \<times> rserver" where
  "idem_Finish s r response sv =
     (if rv_Scope r = [] \<or> rv_Key r = [] \<or> rv_LeaseToken r = [] then
        (Some (ErrxNew CodeInvalidArgument ''redisidempotency: reservation Scope, Key, and LeaseToken must be non-empty''), sv)
      else case run_script (finishScript (rv_LeaseToken r) response (milliseconds (is_retention s))
                              (compositeKey (is_keyPrefix s) (rv_Scope r) (rv_Key r))) sv of
             (Inl err, sv') \<Rightarrow> (Some (ErrxWrap CodeUnavailable ''redisidempotency: finish'' err), sv')
           | (Inr n, sv') \<Rightarrow>
               if n \<noteq> 0 then
                 (Some (ErrxNew CodeConflict ''redisidempotency: finish rejected (stale/expired/terminal reservation)''), sv')
               else (None, sv'))"

definition idem_Cancel :: "idem_store \<Rightarrow> reservation \<Rightarrow> rserver \<Rightarrow> goerr option \<times> rserver" where
  "idem_Cancel s r sv =
     (if rv_Scope r = [] \<or> rv_Key r = [] \<or> rv_LeaseToken r = [] then
        (Some (ErrxNew CodeInvalidArgument ''redisidempotency: reservation Scope, Key, and LeaseToken must be non-empty''), sv)
      else case run_script (cancelScript (rv_LeaseToken r)
                              (compositeKey (is_keyPrefix s) (rv_Scope r) (rv_Key r))) sv of
             (Inl err, sv') \<Rightarrow> (Some (ErrxWrap CodeUnavailable ''redisidempotency: cancel'' err), sv')
           | (Inr n, sv') \<Rightarrow>
               if n \<noteq> 0 then
                 (Some (ErrxNew CodeConflict ''redisidempotency: cancel rejected (stale/expired/terminal reservation)''), sv')
               else (None, sv'))"

section \<open>Lease tokens\<close>

text \<open>Distinct random bytes give distinct tokens, of two characters per byte.\<close>

lemma of_char_hex_digit: "k < 16 \<Longrightarrow> (of_char (hex_digit k) :: nat) = (if k < 10 then 48 + k else 87 + k)"
  by (simp add: hex_digit_def)

lemma hex_digit_inj:
  assumes "m < 16" and "n < 16" and "hex_digit m = hex_digit n"
  shows "m = n"
proof -
  have "(if m < 10 then 48 + m else 87 + m) = (if n < 10 then 48 + n else 87 + n)"
    using of_char_hex_digit [OF assms(1)] of_char_hex_digit [OF assms(2)] assms(3) by metis
  then show ?thesis using assms(1,2) by (simp split: if_splits)
qed

lemma hex_EncodeToString_inj: "hex_EncodeToString a = hex_EncodeToString b \<Longrightarrow> a = b"
proof (induction a arbitrary: b)
  case Nil
  then show ?case by (cases b) (auto simp: Let_def)
next
  case (Cons x xs)
  obtain y ys where b: "b = y # ys" using Cons.prems by (cases b) (auto simp: Let_def)
  let ?x = "of_char x :: nat" and ?y = "of_char y :: nat"
  have "hex_digit (?x div 16) = hex_digit (?y div 16)" "hex_digit (?x mod 16) = hex_digit (?y mod 16)"
    "hex_EncodeToString xs = hex_EncodeToString ys"
    using Cons.prems by (simp_all add: b Let_def)
  moreover have "?x div 16 < 16" "?y div 16 < 16"
    using nat_of_char_less_256 [of x] nat_of_char_less_256 [of y] by (simp_all add: div_less_iff_less_mult)
  ultimately have "?x div 16 = ?y div 16" "?x mod 16 = ?y mod 16"
    by (auto intro: hex_digit_inj)
  then have "?x = ?y" by (metis div_mult_mod_eq)
  then have "x = y" by simp
  with Cons.IH \<open>hex_EncodeToString xs = hex_EncodeToString ys\<close> b show ?case by simp
qed

lemma newLeaseToken_fresh:
  assumes "newLeaseToken (Inr a) = Inr t" and "newLeaseToken (Inr b) = Inr t'" and "a \<noteq> b"
  shows "t \<noteq> t'"
  using assms hex_EncodeToString_inj by (auto simp: newLeaseToken_def)

lemma newLeaseToken_length: "newLeaseToken (Inr b) = Inr t \<Longrightarrow> length t = 2 * length b"
proof -
  have "length (hex_EncodeToString b) = 2 * length b" by (induction b) (simp_all add: Let_def)
  then show "newLeaseToken (Inr b) = Inr t \<Longrightarrow> length t = 2 * length b" by (auto simp: newLeaseToken_def)
qed

section \<open>Keys\<close>

lemma compositeKey_inj:
  assumes "compositeKey p s k = compositeKey p' s' k'"
  shows "p = p' \<and> s = s' \<and> k = k'"
proof -
  have "length p = length p' \<and> p @ CHR '':'' # (decimal (length s) @ CHR '':'' # (s @ k)) =
      p' @ CHR '':'' # (decimal (length s') @ CHR '':'' # (s' @ k'))"
    using assms sep_append_inj [of "CHR '':''" "decimal (length p)" "decimal (length p')"]
    by (simp add: compositeKey_def)
  then have p: "p = p'" and "decimal (length s) @ CHR '':'' # (s @ k) = decimal (length s') @ CHR '':'' # (s' @ k')"
    by auto
  then have "length s = length s' \<and> s @ k = s' @ k'"
    using sep_append_inj [of "CHR '':''" "decimal (length s)" "decimal (length s')"] by simp
  then show ?thesis using p by auto
qed

interpretation idem_keys: key_codec "\<lambda>(p, s, k). compositeKey p s k"
  by unfold_locales (auto dest: compositeKey_inj)

lemma compositeKey_eq_iff [simp]:
  "compositeKey p s k = compositeKey p' s' k' \<longleftrightarrow> p = p' \<and> s = s' \<and> k = k'"
  using idem_keys.enc_eq_iff [of "(p, s, k)" "(p', s', k')"] by simp

section \<open>The abstract record and the refinement\<close>

text \<open>
  What the port promises, per (scope, key): a record is absent, pending under a fingerprint
  and a lease token, or done with the response to replay.
\<close>

datatype idem_state = Absent | Pending string string | Done string bytes

datatype idem_op = OpBegin string string string string | OpFinish string string string bytes
  | OpCancel string string string

datatype spec_reply = SNew string | SInProgress | SCompleted bytes | SMismatch | SApplied | SConflict

fun spec_step :: "idem_op \<Rightarrow> idem_state \<Rightarrow> idem_state \<times> spec_reply" where
  "spec_step (OpBegin sc k fp tok) Absent = (Pending fp tok, SNew tok)"
| "spec_step (OpBegin sc k fp tok) (Pending fp' tok') =
     (Pending fp' tok', if fp' = fp then SInProgress else SMismatch)"
| "spec_step (OpBegin sc k fp tok) (Done fp' resp) =
     (Done fp' resp, if fp' = fp then SCompleted resp else SMismatch)"
| "spec_step (OpFinish sc k tok resp) (Pending fp tok') =
     (if tok' = tok then (Done fp resp, SApplied) else (Pending fp tok', SConflict))"
| "spec_step (OpFinish sc k tok resp) st = (st, SConflict)"
| "spec_step (OpCancel sc k tok) (Pending fp tok') =
     (if tok' = tok then (Absent, SApplied) else (Pending fp tok', SConflict))"
| "spec_step (OpCancel sc k tok) st = (st, SConflict)"

fun op_target :: "idem_op \<Rightarrow> string \<times> string" where
  "op_target (OpBegin sc k fp tok) = (sc, k)"
| "op_target (OpFinish sc k tok resp) = (sc, k)"
| "op_target (OpCancel sc k tok) = (sc, k)"

fun op_valid :: "idem_op \<Rightarrow> bool" where
  "op_valid (OpBegin sc k fp tok) = (sc \<noteq> [] \<and> k \<noteq> [] \<and> fp \<noteq> [])"
| "op_valid (OpFinish sc k tok resp) = (sc \<noteq> [] \<and> k \<noteq> [] \<and> tok \<noteq> [])"
| "op_valid (OpCancel sc k tok) = (sc \<noteq> [] \<and> k \<noteq> [] \<and> tok \<noteq> [])"

datatype idem_reply = Reserved "goerr + reservation" | Replied "goerr option"

definition lease :: "string \<Rightarrow> string \<Rightarrow> string \<Rightarrow> reservation" where
  "lease sc k tok = \<lparr>rv_Scope = sc, rv_Key = k, rv_Status = StatusNew, rv_LeaseToken = tok, rv_LeaseTTL = 0,
     rv_Response = []\<rparr>"

fun idem_call :: "idem_store \<Rightarrow> idem_op \<Rightarrow> rserver \<Rightarrow> idem_reply \<times> rserver" where
  "idem_call s (OpBegin sc k fp tok) sv =
     (let (r, sv') = idem_Begin s sc k fp (Inr tok) sv in (Reserved r, sv'))"
| "idem_call s (OpFinish sc k tok resp) sv =
     (let (e, sv') = idem_Finish s (lease sc k tok) resp sv in (Replied e, sv'))"
| "idem_call s (OpCancel sc k tok) sv =
     (let (e, sv') = idem_Cancel s (lease sc k tok) sv in (Replied e, sv'))"

text \<open>How a reply of the store shows an abstract reply.\<close>

fun reply_shows :: "idem_store \<Rightarrow> spec_reply \<Rightarrow> idem_reply \<Rightarrow> bool" where
  "reply_shows s (SNew tok) (Reserved (Inr r)) =
     (rv_Status r = StatusNew \<and> rv_LeaseToken r = tok \<and> rv_LeaseTTL r = is_leaseTTL s)"
| "reply_shows s SInProgress (Reserved (Inr r)) = (rv_Status r = StatusInProgress \<and> rv_LeaseToken r = [])"
| "reply_shows s (SCompleted resp) (Reserved (Inr r)) = (rv_Status r = StatusCompleted \<and> rv_Response r = resp)"
| "reply_shows s SMismatch (Reserved (Inr r)) = (rv_Status r = StatusMismatch \<and> rv_Response r = [])"
| "reply_shows s SApplied (Replied e) = (e = None)"
| "reply_shows s SConflict (Replied e) = (\<exists>m. e = Some (ErrxNew CodeConflict m))"
| "reply_shows s _ _ = False"

fun indeterminate :: "goerr \<Rightarrow> idem_reply \<Rightarrow> bool" where
  "indeterminate e (Reserved r) = (\<exists>m. r = Inl (ErrxWrap CodeUnavailable m e))"
| "indeterminate e (Replied r) = (\<exists>m. r = Some (ErrxWrap CodeUnavailable m e))"

definition pending_hash :: "string \<Rightarrow> string \<Rightarrow> rhash" where
  "pending_hash fp tok = [''fp'' \<mapsto> fp, ''st'' \<mapsto> ''P'', ''tok'' \<mapsto> tok]"

definition done_hash :: "string \<Rightarrow> bytes \<Rightarrow> rhash" where
  "done_hash fp resp = [''fp'' \<mapsto> fp, ''st'' \<mapsto> ''C'', ''resp'' \<mapsto> resp]"

definition idem_wf :: "keyspace \<Rightarrow> bool" where
  "idem_wf ks \<longleftrightarrow> (\<forall>k h e. ks k = Some (h, e) \<longrightarrow>
     (\<exists>fp tok. h = pending_hash fp tok) \<or> (\<exists>fp resp. h = done_hash fp resp))"

definition hash_state :: "rhash \<Rightarrow> idem_state" where
  "hash_state h =
     (case (h ''fp'', h ''st'') of
        (Some fp, Some st) \<Rightarrow>
          if st = ''C'' then Done fp (case h ''resp'' of Some r \<Rightarrow> r | None \<Rightarrow> [])
          else Pending fp (case h ''tok'' of Some t \<Rightarrow> t | None \<Rightarrow> [])
      | _ \<Rightarrow> Absent)"

definition idem_abs :: "idem_store \<Rightarrow> time \<Rightarrow> keyspace \<Rightarrow> string \<times> string \<Rightarrow> idem_state" where
  "idem_abs s now ks = (\<lambda>(sc, k).
     case live now ks (compositeKey (is_keyPrefix s) sc k) of None \<Rightarrow> Absent | Some h \<Rightarrow> hash_state h)"

lemma hash_state_pending [simp]: "hash_state (pending_hash fp tok) = Pending fp tok"
  by (simp add: hash_state_def pending_hash_def)

lemma hash_state_done [simp]: "hash_state (done_hash fp resp) = Done fp resp"
  by (simp add: hash_state_def done_hash_def)

lemma live_in: "live now ks k = Some h \<Longrightarrow> \<exists>e. ks k = Some (h, e)"
  by (auto simp: live_def split: option.splits if_splits)

lemma wf_live: "idem_wf ks \<Longrightarrow> live now ks k = Some h \<Longrightarrow>
    (\<exists>fp tok. h = pending_hash fp tok) \<or> (\<exists>fp resp. h = done_hash fp resp)"
  using live_in unfolding idem_wf_def by blast

lemma wf_cases:
  assumes "idem_wf ks"
  obtains (absent) "live now ks k = None"
  | (pending) fp tok where "live now ks k = Some (pending_hash fp tok)"
  | (completed) fp resp where "live now ks k = Some (done_hash fp resp)"
  using wf_live [OF assms] by (cases "live now ks k") blast+

text \<open>The abstract step as the change of the keyspace: the key keeps its hash or gets a new one.\<close>

definition state_hash :: "idem_state \<Rightarrow> rhash option" where
  "state_hash st = (case st of Absent \<Rightarrow> None | Pending fp tok \<Rightarrow> Some (pending_hash fp tok)
     | Done fp resp \<Rightarrow> Some (done_hash fp resp))"

lemma live_put: "0 < ms \<Longrightarrow> live now (put_expiring now ms k h ks) j = (if j = k then Some h else live now ks j)"
  by (auto simp: live_def put_expiring_def millisecond_def)

lemma live_del: "live now (ks(k := None)) j = (if j = k then None else live now ks j)"
  by (simp add: live_def)

lemma wf_put:
  "idem_wf ks \<Longrightarrow> idem_wf (put_expiring now ms k (pending_hash fp tok) ks)"
  "idem_wf ks \<Longrightarrow> idem_wf (put_expiring now ms k (done_hash fp resp) ks)"
  by (auto simp: idem_wf_def put_expiring_def)

lemma wf_del: "idem_wf ks \<Longrightarrow> idem_wf (ks(k := None))"
  by (auto simp: idem_wf_def)

lemma finish_hash:
  "((pending_hash fp tok)(''st'' \<mapsto> ''C'', ''resp'' \<mapsto> resp))(''tok'' := None) = done_hash fp resp"
  by (rule ext) (simp add: pending_hash_def done_hash_def)

lemma pending_sel [simp]:
  "pending_hash fp tok ''fp'' = Some fp" "pending_hash fp tok ''st'' = Some ''P''"
  "pending_hash fp tok ''tok'' = Some tok"
  by (simp_all add: pending_hash_def)

lemma done_sel [simp]:
  "done_hash fp resp ''fp'' = Some fp" "done_hash fp resp ''st'' = Some ''C''"
  "done_hash fp resp ''resp'' = Some resp" "done_hash fp resp ''tok'' = None"
  by (simp_all add: done_hash_def)

definition abs_at :: "time \<Rightarrow> keyspace \<Rightarrow> string \<Rightarrow> idem_state" where
  "abs_at now ks k = (case live now ks k of None \<Rightarrow> Absent | Some h \<Rightarrow> hash_state h)"

lemma idem_abs_at: "idem_abs s now ks (sc, k) = abs_at now ks (compositeKey (is_keyPrefix s) sc k)"
  by (simp add: idem_abs_def abs_at_def)

fun begin_reply :: "spec_reply \<Rightarrow> string \<times> string \<times> string" where
  "begin_reply (SNew tok) = (''new'', tok, [])"
| "begin_reply SInProgress = (''inprogress'', [], [])"
| "begin_reply (SCompleted resp) = (''completed'', [], resp)"
| "begin_reply _ = (''mismatch'', [], [])"

lemma beginScript_refines:
  assumes "idem_wf ks" "0 < ms" "beginScript fp tok ms ck now ks = (rep, ks')"
    "spec_step (OpBegin sc k fp tok) (abs_at now ks ck) = (st', sr)"
  shows "idem_wf ks' \<and> (\<forall>j. live now ks' j = (if j = ck then state_hash st' else live now ks j)) \<and>
    rep = begin_reply sr \<and> sr \<notin> {SApplied, SConflict}"
  using assms(1)
proof (cases rule: wf_cases [where now = now and k = ck])
  case absent
  have pend: "[''fp'' \<mapsto> fp, ''st'' \<mapsto> ''P'', ''tok'' \<mapsto> tok] = pending_hash fp tok" by (simp add: pending_hash_def)
  show ?thesis
    using assms absent by (auto simp: beginScript_def abs_at_def state_hash_def pend live_put intro: wf_put)
next
  case (pending fp' tok')
  then show ?thesis using assms by (auto simp: beginScript_def abs_at_def state_hash_def split: if_splits)
next
  case (completed fp' resp')
  then show ?thesis using assms by (auto simp: beginScript_def abs_at_def state_hash_def split: if_splits)
qed

lemma finishScript_refines:
  assumes "idem_wf ks" "0 < ms" "finishScript tok resp ms ck now ks = (n, ks')"
    "spec_step (OpFinish sc k tok resp) (abs_at now ks ck) = (st', sr)"
  shows "idem_wf ks' \<and> (\<forall>j. live now ks' j = (if j = ck then state_hash st' else live now ks j)) \<and>
    (n = 0 \<longleftrightarrow> sr = SApplied) \<and> (n \<noteq> 0 \<longleftrightarrow> sr = SConflict) \<and> (n \<noteq> 0 \<longrightarrow> ks' = ks)"
  using assms(1)
proof (cases rule: wf_cases [where now = now and k = ck])
  case absent
  then show ?thesis using assms by (auto simp: finishScript_def abs_at_def state_hash_def)
next
  case (pending fp' tok')
  then show ?thesis
    using assms by (auto simp: finishScript_def abs_at_def state_hash_def finish_hash live_put intro: wf_put split: if_splits)
next
  case (completed fp' resp')
  then show ?thesis using assms by (auto simp: finishScript_def abs_at_def state_hash_def)
qed

lemma cancelScript_refines:
  assumes "idem_wf ks" "cancelScript tok ck now ks = (n, ks')"
    "spec_step (OpCancel sc k tok) (abs_at now ks ck) = (st', sr)"
  shows "idem_wf ks' \<and> (\<forall>j. live now ks' j = (if j = ck then state_hash st' else live now ks j)) \<and>
    (n = 0 \<longleftrightarrow> sr = SApplied) \<and> (n \<noteq> 0 \<longleftrightarrow> sr = SConflict) \<and> (n \<noteq> 0 \<longrightarrow> ks' = ks)"
  using assms(1)
proof (cases rule: wf_cases [where now = now and k = ck])
  case absent
  then show ?thesis using assms by (auto simp: cancelScript_def abs_at_def state_hash_def)
next
  case (pending fp' tok')
  then show ?thesis
    using assms by (auto simp: cancelScript_def abs_at_def state_hash_def live_del intro: wf_del split: if_splits)
next
  case (completed fp' resp')
  then show ?thesis using assms by (auto simp: cancelScript_def abs_at_def state_hash_def)
qed

text \<open>The three calls as one run of their script and the decoding of its reply.\<close>

definition begin_decode :: "idem_store \<Rightarrow> string \<Rightarrow> string \<Rightarrow> spec_reply \<Rightarrow> reservation" where
  "begin_decode s sc k sr = \<lparr>rv_Scope = sc, rv_Key = k,
     rv_Status = (case sr of SNew _ \<Rightarrow> StatusNew | SInProgress \<Rightarrow> StatusInProgress
                  | SCompleted _ \<Rightarrow> StatusCompleted | _ \<Rightarrow> StatusMismatch),
     rv_LeaseToken = (case sr of SNew tok \<Rightarrow> tok | _ \<Rightarrow> []),
     rv_LeaseTTL = (case sr of SNew _ \<Rightarrow> is_leaseTTL s | _ \<Rightarrow> 0),
     rv_Response = (case sr of SCompleted resp \<Rightarrow> resp | _ \<Rightarrow> [])\<rparr>"

lemma begin_decode_shows:
  "sr \<notin> {SApplied, SConflict} \<Longrightarrow> reply_shows s sr (Reserved (Inr (begin_decode s sc k sr)))"
  by (cases sr) (simp_all add: begin_decode_def)

lemma idem_Begin_run:
  assumes "sc \<noteq> []" "k \<noteq> []" "fp \<noteq> []"
    and "run_script (beginScript fp tok (milliseconds (is_leaseTTL s)) (compositeKey (is_keyPrefix s) sc k)) sv = (rr, sv')"
  shows "rr = Inr (begin_reply sr) \<Longrightarrow> idem_Begin s sc k fp (Inr tok) sv = (Inr (begin_decode s sc k sr), sv')"
    and "rr = Inl e \<Longrightarrow>
      idem_Begin s sc k fp (Inr tok) sv = (Inl (ErrxWrap CodeUnavailable ''redisidempotency: begin'' e), sv')"
proof -
  show "rr = Inr (begin_reply sr) \<Longrightarrow> idem_Begin s sc k fp (Inr tok) sv = (Inr (begin_decode s sc k sr), sv')"
    using assms by (cases sr) (simp_all add: idem_Begin_def begin_decode_def Let_def)
  show "rr = Inl e \<Longrightarrow>
      idem_Begin s sc k fp (Inr tok) sv = (Inl (ErrxWrap CodeUnavailable ''redisidempotency: begin'' e), sv')"
    using assms by (simp add: idem_Begin_def)
qed

text \<open>A store from New sends positive times to PEXPIRE.\<close>

definition idem_valid :: "idem_store \<Rightarrow> bool" where
  "idem_valid s \<longleftrightarrow> is_keyPrefix s \<noteq> [] \<and> millisecond \<le> is_leaseTTL s \<and> millisecond \<le> is_retention s"

lemma idem_New_valid: "idem_New client opts = Inr s \<Longrightarrow> idem_valid s"
  by (auto simp: idem_New_def idem_defaultConfig_def idem_valid_def Let_def split: option.splits if_splits)

lemma idem_valid_ms: "idem_valid s \<Longrightarrow> 0 < milliseconds (is_leaseTTL s) \<and> 0 < milliseconds (is_retention s)"
  using milliseconds_pos [of "is_leaseTTL s"] milliseconds_pos [of "is_retention s"] by (simp add: idem_valid_def)

text \<open>The abstract view after a step on one key.\<close>

lemma idem_abs_upd:
  assumes "\<forall>j. live now ks' j = (if j = compositeKey (is_keyPrefix s) sc k then state_hash st' else live now ks j)"
  shows "idem_abs s now ks' = (idem_abs s now ks)((sc, k) := st')"
proof (rule ext)
  fix a :: "string \<times> string"
  obtain sc' k' where a: "a = (sc', k')" by (cases a)
  have st: "(case state_hash st' of None \<Rightarrow> Absent | Some h \<Rightarrow> hash_state h) = st'"
    by (cases st') (simp_all add: state_hash_def)
  show "idem_abs s now ks' a = ((idem_abs s now ks)((sc, k) := st')) a"
    using assms [rule_format, of "compositeKey (is_keyPrefix s) sc' k'"] st by (auto simp: a idem_abs_def)
qed

text \<open>
  One call, whatever the fault: the script has run (and its effect is the abstract step), or
  it has not (and nothing changed); the reply shows the abstract reply, or is indeterminate.
\<close>

definition refined ::
  "idem_store \<Rightarrow> idem_op \<Rightarrow> rserver \<Rightarrow> idem_reply \<Rightarrow> rserver \<Rightarrow> bool" where
  "refined s op sv reply sv' \<longleftrightarrow>
     (let now = sv_clock sv (sv_calls sv);
          a = idem_abs s now (sv_keys sv);
          (st', sr) = spec_step op (a (op_target op));
          done_a = a(op_target op := st')
      in idem_wf (sv_keys sv') \<and> sv_clock sv' = sv_clock sv \<and> sv_fault sv' = sv_fault sv \<and>
         sv_calls sv' = Suc (sv_calls sv) \<and>
         (case sv_fault sv (sv_calls sv) of
            NoFault \<Rightarrow> idem_abs s now (sv_keys sv') = done_a \<and> reply_shows s sr reply
          | FailBefore e \<Rightarrow> sv_keys sv' = sv_keys sv \<and> indeterminate e reply
          | FailAfter e \<Rightarrow> idem_abs s now (sv_keys sv') = done_a \<and> indeterminate e reply))"

lemma idem_Begin_refined:
  assumes "0 < milliseconds (is_leaseTTL s)" and "idem_wf (sv_keys sv)" and "op_valid (OpBegin sc k fp tok)"
    and call: "idem_call s (OpBegin sc k fp tok) sv = (reply, sv')"
  shows "refined s (OpBegin sc k fp tok) sv reply sv'"
proof -
  let ?now = "sv_clock sv (sv_calls sv)" and ?ck = "compositeKey (is_keyPrefix s) sc k"
  obtain st' sr where sp: "spec_step (OpBegin sc k fp tok) (abs_at ?now (sv_keys sv) ?ck) = (st', sr)"
    by (metis surj_pair)
  obtain rep ks' where b: "beginScript fp tok (milliseconds (is_leaseTTL s)) ?ck ?now (sv_keys sv) = (rep, ks')"
    by (metis surj_pair)
  note r = beginScript_refines [OF assms(2,1) b sp]
  have up: "idem_abs s ?now ks' = (idem_abs s ?now (sv_keys sv))((sc, k) := st')"
    using r by (intro idem_abs_upd) blast
  have v: "sc \<noteq> []" "k \<noteq> []" "fp \<noteq> []" using assms(3) by simp_all
  obtain rr where run: "run_script (beginScript fp tok (milliseconds (is_leaseTTL s)) ?ck) sv = (rr, sv')"
    using call v by (auto simp: idem_Begin_def Let_def split: prod.splits sum.splits if_splits)
  note dec = idem_Begin_run [OF v run] begin_decode_shows [of sr s sc k]
  show ?thesis
    using assms(2) call sp b r up run dec
    by (cases "sv_fault sv (sv_calls sv)") (auto simp: refined_def idem_abs_at run_script_def Let_def)
qed

lemma idem_Finish_refined:
  assumes "0 < milliseconds (is_retention s)" and "idem_wf (sv_keys sv)" and "op_valid (OpFinish sc k tok resp)"
    and call: "idem_call s (OpFinish sc k tok resp) sv = (reply, sv')"
  shows "refined s (OpFinish sc k tok resp) sv reply sv'"
proof -
  let ?now = "sv_clock sv (sv_calls sv)" and ?ck = "compositeKey (is_keyPrefix s) sc k"
  obtain st' sr where sp: "spec_step (OpFinish sc k tok resp) (abs_at ?now (sv_keys sv) ?ck) = (st', sr)"
    by (metis surj_pair)
  obtain n ks' where b: "finishScript tok resp (milliseconds (is_retention s)) ?ck ?now (sv_keys sv) = (n, ks')"
    by (metis surj_pair)
  note r = finishScript_refines [OF assms(2,1) b sp]
  have up: "idem_abs s ?now ks' = (idem_abs s ?now (sv_keys sv))((sc, k) := st')"
    using r by (intro idem_abs_upd) blast
  show ?thesis
    using assms(2,3) call sp b r up
    by (cases "n = 0"; cases "sv_fault sv (sv_calls sv)")
       (auto simp: refined_def idem_abs_at idem_Finish_def lease_def run_script_def Let_def)
qed

lemma idem_Cancel_refined:
  assumes "idem_wf (sv_keys sv)" and "op_valid (OpCancel sc k tok)"
    and call: "idem_call s (OpCancel sc k tok) sv = (reply, sv')"
  shows "refined s (OpCancel sc k tok) sv reply sv'"
proof -
  let ?now = "sv_clock sv (sv_calls sv)" and ?ck = "compositeKey (is_keyPrefix s) sc k"
  obtain st' sr where sp: "spec_step (OpCancel sc k tok) (abs_at ?now (sv_keys sv) ?ck) = (st', sr)"
    by (metis surj_pair)
  obtain n ks' where b: "cancelScript tok ?ck ?now (sv_keys sv) = (n, ks')" by (metis surj_pair)
  note r = cancelScript_refines [OF assms(1) b sp]
  have up: "idem_abs s ?now ks' = (idem_abs s ?now (sv_keys sv))((sc, k) := st')"
    using r by (intro idem_abs_upd) blast
  show ?thesis
    using assms(1,2) call sp b r up
    by (cases "n = 0"; cases "sv_fault sv (sv_calls sv)")
       (auto simp: refined_def idem_abs_at idem_Cancel_def lease_def run_script_def Let_def)
qed

text \<open>
  C9: The store implements the idempotency record. For every operation, by any caller at any
  time: the keyspace seen as records makes exactly the step of the specification on its own
  (scope, key) and no other record changes, expired records counting as absent; the reply
  shows the specification's answer (a fresh lease, in progress, the completed response,
  mismatch, applied, or CodeConflict when nothing was applied). A transport failure comes
  back as CodeUnavailable, with the step either made or not made at all.
\<close>

theorem idem_refines_spec:
  assumes "idem_New client opts = Inr s" and "idem_wf (sv_keys sv)" and "op_valid op"
    and "idem_call s op sv = (reply, sv')"
  shows "refined s op sv reply sv'"
  using idem_valid_ms [OF idem_New_valid [OF assms(1)]] assms(2-)
  by (cases op) (auto simp only: intro: idem_Begin_refined idem_Finish_refined idem_Cancel_refined)

section \<open>Histories of calls\<close>

definition idem_run :: "idem_store \<Rightarrow> idem_op list \<Rightarrow> rserver \<Rightarrow> rserver" where
  "idem_run s ops sv = fold (\<lambda>op sv. snd (idem_call s op sv)) ops sv"

text \<open>The call closes the lease \<open>tok\<close> on (scope, key).\<close>

fun closes :: "string \<Rightarrow> string \<Rightarrow> string \<Rightarrow> idem_op \<Rightarrow> bool" where
  "closes sc k tok (OpBegin _ _ _ _) = False"
| "closes sc k tok (OpFinish sc' k' tok' _) = (sc' = sc \<and> k' = k \<and> tok' = tok)"
| "closes sc k tok (OpCancel sc' k' tok') = (sc' = sc \<and> k' = k \<and> tok' = tok)"

text \<open>The hash of a key, live until \<open>exp\<close>; a pending one can be closed by its own token only.\<close>

definition holds_until :: "idem_store \<Rightarrow> string \<Rightarrow> string \<Rightarrow> rhash \<Rightarrow> time \<Rightarrow> rserver \<Rightarrow> bool" where
  "holds_until s sc k h exp sv \<longleftrightarrow> sv_keys sv (compositeKey (is_keyPrefix s) sc k) = Some (h, Some exp)"

lemma put_expiring_other: "j \<noteq> k \<Longrightarrow> put_expiring now ms k h ks j = ks j"
  by (simp add: put_expiring_def)

lemma run_script_keys:
  "run_script script sv = (rr, sv') \<Longrightarrow>
     sv_keys sv' = sv_keys sv \<or> sv_keys sv' = snd (script (sv_clock sv (sv_calls sv)) (sv_keys sv))"
  by (auto simp: run_script_def Let_def split: prod.splits fault.splits)

lemma run_script_fields:
  "run_script script sv = (rr, sv') \<Longrightarrow>
     sv_clock sv' = sv_clock sv \<and> sv_calls sv' = Suc (sv_calls sv) \<and> sv_fault sv' = sv_fault sv"
  by (auto simp: run_script_def Let_def split: prod.splits fault.splits)

lemma idem_call_run:
  assumes "idem_call s op sv = (reply, sv')"
  obtains (refused) "sv' = sv"
  | (begin_run) sc k fp tok rr where "op = OpBegin sc k fp tok"
      "run_script (beginScript fp tok (milliseconds (is_leaseTTL s)) (compositeKey (is_keyPrefix s) sc k)) sv = (rr, sv')"
  | (finish_run) sc k tok resp rr where "op = OpFinish sc k tok resp"
      "run_script (finishScript tok resp (milliseconds (is_retention s)) (compositeKey (is_keyPrefix s) sc k)) sv = (rr, sv')"
  | (cancel_run) sc k tok rr where "op = OpCancel sc k tok"
      "run_script (cancelScript tok (compositeKey (is_keyPrefix s) sc k)) sv = (rr, sv')"
  using assms that
  by (cases op)
     (auto simp: idem_Begin_def idem_Finish_def idem_Cancel_def lease_def Let_def
       split: prod.splits sum.splits if_splits)

lemma idem_call_fields:
  "idem_call s op sv = (reply, sv') \<Longrightarrow>
     sv_clock sv' = sv_clock sv \<and> sv_calls sv \<le> sv_calls sv' \<and> sv_fault sv' = sv_fault sv"
  by (erule idem_call_run) (auto dest!: run_script_fields)

lemma live_held: "ks k = Some (h, Some exp) \<Longrightarrow> now < exp \<Longrightarrow> live now ks k = Some h"
  by (simp add: live_def)

lemma held_step:
  assumes held: "holds_until s sc k h exp sv" and now: "sv_clock sv (sv_calls sv) < exp"
    and call: "idem_call s op sv = (reply, sv')"
    and st: "h ''st'' = Some ''C'' \<or> (h ''st'' = Some ''P'' \<and> (\<exists>tok. h ''tok'' = Some tok \<and> \<not> closes sc k tok op))"
  shows "holds_until s sc k h exp sv'"
proof -
  let ?ck = "compositeKey (is_keyPrefix s) sc k"
  have live: "live (sv_clock sv (sv_calls sv)) (sv_keys sv) ?ck = Some h"
    using held now by (simp add: holds_until_def live_held)
  have keep: "holds_until s sc k h exp sv'" if "sv_keys sv' ?ck = sv_keys sv ?ck"
    using held that by (simp add: holds_until_def)
  from call show ?thesis
  proof (cases rule: idem_call_run)
    case refused
    then show ?thesis using held by simp
  next
    case (begin_run sc' k' fp tok rr)
    have "snd (beginScript fp tok (milliseconds (is_leaseTTL s)) (compositeKey (is_keyPrefix s) sc' k')
        (sv_clock sv (sv_calls sv)) (sv_keys sv)) ?ck = sv_keys sv ?ck"
      using live by (cases "sc' = sc \<and> k' = k") (auto simp: beginScript_def put_expiring_other split: option.splits)
    then show ?thesis using run_script_keys [OF begin_run(2)] keep by metis
  next
    case (finish_run sc' k' tok resp rr)
    have "snd (finishScript tok resp (milliseconds (is_retention s)) (compositeKey (is_keyPrefix s) sc' k')
        (sv_clock sv (sv_calls sv)) (sv_keys sv)) ?ck = sv_keys sv ?ck"
      using live st finish_run(1)
      by (cases "sc' = sc \<and> k' = k") (auto simp: finishScript_def put_expiring_other split: option.splits)
    then show ?thesis using run_script_keys [OF finish_run(2)] keep by metis
  next
    case (cancel_run sc' k' tok rr)
    have "snd (cancelScript tok (compositeKey (is_keyPrefix s) sc' k')
        (sv_clock sv (sv_calls sv)) (sv_keys sv)) ?ck = sv_keys sv ?ck"
      using live st cancel_run(1)
      by (cases "sc' = sc \<and> k' = k") (auto simp: cancelScript_def split: option.splits)
    then show ?thesis using run_script_keys [OF cancel_run(2)] keep by metis
  qed
qed

lemma held_run:
  assumes "holds_until s sc k h exp sv" and "mono (sv_clock sv)"
    and "sv_clock sv (sv_calls (idem_run s ops sv)) < exp"
    and "h ''st'' = Some ''C'' \<or> (h ''st'' = Some ''P'' \<and> (\<exists>tok. h ''tok'' = Some tok \<and> (\<forall>op \<in> set ops. \<not> closes sc k tok op)))"
  shows "holds_until s sc k h exp (idem_run s ops sv) \<and> sv_clock (idem_run s ops sv) = sv_clock sv \<and>
    sv_calls sv \<le> sv_calls (idem_run s ops sv)"
  using assms
proof (induction ops arbitrary: sv)
  case Nil
  then show ?case by (simp add: idem_run_def)
next
  case (Cons op ops)
  obtain reply sv' where c: "idem_call s op sv = (reply, sv')" by (metis surj_pair)
  have run: "idem_run s (op # ops) sv = idem_run s ops sv'" by (simp add: idem_run_def c)
  note f = idem_call_fields [OF c]
  have calls: "sv_calls x \<le> sv_calls (idem_run s os x)" for os x
  proof (induction os arbitrary: x)
    case (Cons y ys)
    obtain rep x' where c': "idem_call s y x = (rep, x')" by (metis surj_pair)
    show ?case using Cons [of x'] idem_call_fields [OF c'] by (simp add: idem_run_def c')
  qed (simp add: idem_run_def)
  have le: "sv_calls sv \<le> sv_calls (idem_run s ops sv')" using f calls [of sv' ops] by linarith
  then have "sv_clock sv (sv_calls sv) < exp"
    using Cons.prems(2,3) by (metis (no_types, lifting) le_less_trans monoD run)
  then have "holds_until s sc k h exp sv'"
    using held_step [OF Cons.prems(1) _ c] Cons.prems(4) by auto
  from Cons.IH [OF this] Cons.prems(2-4) f run le show ?case by auto
qed

text \<open>What a successful Finish and a granted Begin leave in the keyspace.\<close>

lemma finish_held:
  assumes "idem_valid s" "idem_wf (sv_keys sv)" "idem_Finish s r resp sv = (None, sv1)"
  obtains fp where "abs_at (sv_clock sv (sv_calls sv)) (sv_keys sv) (compositeKey (is_keyPrefix s) (rv_Scope r) (rv_Key r))
        = Pending fp (rv_LeaseToken r)"
    and "holds_until s (rv_Scope r) (rv_Key r) (done_hash fp resp)
        (sv_clock sv (sv_calls sv) + milliseconds (is_retention s) * millisecond) sv1"
    and "sv_clock sv1 = sv_clock sv" "rv_Scope r \<noteq> []" "rv_Key r \<noteq> []"
proof -
  let ?ck = "compositeKey (is_keyPrefix s) (rv_Scope r) (rv_Key r)"
  let ?now = "sv_clock sv (sv_calls sv)"
  have ms: "0 < milliseconds (is_retention s)" using idem_valid_ms [OF assms(1)] by simp
  have nf: "sv_fault sv (sv_calls sv) = NoFault" and ne: "rv_Scope r \<noteq> []" "rv_Key r \<noteq> []"
    and scr: "finishScript (rv_LeaseToken r) resp (milliseconds (is_retention s)) ?ck ?now (sv_keys sv) = (0, sv_keys sv1)"
    and clk: "sv_clock sv1 = sv_clock sv"
    using assms(3)
    by (auto simp: idem_Finish_def run_script_def Let_def split: if_splits prod.splits fault.splits sum.splits)
  from assms(2) show ?thesis
  proof (cases rule: wf_cases [where now = ?now and k = ?ck])
    case (pending fp tok)
    with scr have tok: "tok = rv_LeaseToken r"
      and ks: "sv_keys sv1 = put_expiring ?now (milliseconds (is_retention s)) ?ck (done_hash fp resp) (sv_keys sv)"
      by (auto simp: finishScript_def finish_hash split: if_splits)
    show ?thesis
      using that [of fp] pending tok ks ms clk ne by (simp add: abs_at_def holds_until_def put_expiring_def)
  qed (use scr in \<open>auto simp: finishScript_def\<close>)
qed

lemma begin_held:
  assumes "idem_valid s" "idem_Begin s sc k fp (Inr tok) sv = (Inr r, sv1)" "rv_Status r = StatusNew"
  shows "holds_until s sc k (pending_hash fp tok)
        (sv_clock sv (sv_calls sv) + milliseconds (is_leaseTTL s) * millisecond) sv1"
    and "sv_clock sv1 = sv_clock sv" and "rv_LeaseToken r = tok" and "sc \<noteq> []" "k \<noteq> []"
proof -
  let ?ck = "compositeKey (is_keyPrefix s) sc k"
  let ?now = "sv_clock sv (sv_calls sv)"
  have ms: "0 < milliseconds (is_leaseTTL s)" using idem_valid_ms [OF assms(1)] by simp
  obtain tokStr respStr where scr: "beginScript fp tok (milliseconds (is_leaseTTL s)) ?ck ?now (sv_keys sv)
        = ((''new'', tokStr, respStr), sv_keys sv1)" and t: "rv_LeaseToken r = tokStr"
    and clk: "sv_clock sv1 = sv_clock sv" and ne: "sc \<noteq> []" "k \<noteq> []"
    using assms(2,3)
    by (auto simp: idem_Begin_def run_script_def Let_def split: if_splits prod.splits fault.splits sum.splits)
  have pend: "[''fp'' \<mapsto> fp, ''st'' \<mapsto> ''P'', ''tok'' \<mapsto> tok] = pending_hash fp tok" by (simp add: pending_hash_def)
  have "live ?now (sv_keys sv) ?ck = None" using scr by (auto simp: beginScript_def split: option.splits if_splits)
  with scr have "tokStr = tok" "sv_keys sv1 = put_expiring ?now (milliseconds (is_leaseTTL s)) ?ck (pending_hash fp tok) (sv_keys sv)"
    by (auto simp: beginScript_def pend)
  with ms have "tokStr = tok" "sv_keys sv1 ?ck = Some (pending_hash fp tok, Some (?now + milliseconds (is_leaseTTL s) * millisecond))"
    by (simp_all add: put_expiring_def)
  then show "holds_until s sc k (pending_hash fp tok) (?now + milliseconds (is_leaseTTL s) * millisecond) sv1"
    "sv_clock sv1 = sv_clock sv" "rv_LeaseToken r = tok" "sc \<noteq> []" "k \<noteq> []"
    using t clk ne by (simp_all add: holds_until_def)
qed

lemma held_Begin:
  assumes "holds_until s sc k h exp sv" and "sv_clock sv (sv_calls sv) < exp" and "sc \<noteq> []" "k \<noteq> []" "fp' \<noteq> []"
    and "sv_fault sv (sv_calls sv) = NoFault" and "h ''fp'' = Some fp"
  shows "\<exists>r. fst (idem_Begin s sc k fp' (Inr tok') sv) = Inr r \<and>
     rv_Status r = (if fp' \<noteq> fp then StatusMismatch else if h ''st'' = Some ''P'' then StatusInProgress else StatusCompleted) \<and>
     (rv_Status r = StatusCompleted \<longrightarrow> rv_Response r = (case h ''resp'' of Some x \<Rightarrow> x | None \<Rightarrow> []))"
proof -
  have "live (sv_clock sv (sv_calls sv)) (sv_keys sv) (compositeKey (is_keyPrefix s) sc k) = Some h"
    using assms(1,2) by (simp add: holds_until_def live_held)
  then show ?thesis
    using assms(3-7) by (auto simp: idem_Begin_def run_script_def beginScript_def Let_def)
qed

text \<open>
  C22: A completed request is replayed. Once Finish has returned nil, then whatever calls any
  clients make afterwards, with whatever transport failures, every Begin for the same scope
  and key that reaches the server before the retention has passed answers Completed with
  exactly the stored response for the fingerprint that was reserved, and Mismatch for every
  other fingerprint: the operation is never handed out a second time, and the response
  never changes. (The server's clock does not run backwards.)
\<close>

theorem idem_completed_replayed:
  assumes "idem_New client opts = Inr s" and "idem_wf (sv_keys sv)" and "mono (sv_clock sv)"
    and "idem_Finish s r resp sv = (None, sv1)" and "sv2 = idem_run s ops sv1"
    and "sv_clock sv (sv_calls sv2) < sv_clock sv (sv_calls sv) + milliseconds (is_retention s) * millisecond"
    and "sv_fault sv2 (sv_calls sv2) = NoFault"
  shows "\<exists>fp. abs_at (sv_clock sv (sv_calls sv)) (sv_keys sv) (compositeKey (is_keyPrefix s) (rv_Scope r) (rv_Key r))
            = Pending fp (rv_LeaseToken r) \<and>
         (\<forall>fp' tok'. fp' \<noteq> [] \<longrightarrow> (\<exists>rv. fst (idem_Begin s (rv_Scope r) (rv_Key r) fp' (Inr tok') sv2) = Inr rv \<and>
            (if fp' = fp then rv_Status rv = StatusCompleted \<and> rv_Response rv = resp
             else rv_Status rv = StatusMismatch)))"
proof -
  let ?exp = "sv_clock sv (sv_calls sv) + milliseconds (is_retention s) * millisecond"
  obtain fp where fp: "abs_at (sv_clock sv (sv_calls sv)) (sv_keys sv)
        (compositeKey (is_keyPrefix s) (rv_Scope r) (rv_Key r)) = Pending fp (rv_LeaseToken r)"
    and held: "holds_until s (rv_Scope r) (rv_Key r) (done_hash fp resp) ?exp sv1"
    and clk: "sv_clock sv1 = sv_clock sv" and ne: "rv_Scope r \<noteq> []" "rv_Key r \<noteq> []"
    by (rule finish_held [OF idem_New_valid [OF assms(1)] assms(2,4)])
  have held2: "holds_until s (rv_Scope r) (rv_Key r) (done_hash fp resp) ?exp sv2 \<and> sv_clock sv2 = sv_clock sv"
    using held_run [OF held, of ops] assms(3,5,6) clk by simp
  have "\<exists>rv. fst (idem_Begin s (rv_Scope r) (rv_Key r) fp' (Inr tok') sv2) = Inr rv \<and>
            (if fp' = fp then rv_Status rv = StatusCompleted \<and> rv_Response rv = resp
             else rv_Status rv = StatusMismatch)" if "fp' \<noteq> []" for fp' tok'
    using held_Begin [OF held2 [THEN conjunct1] _ ne that assms(7), of fp tok'] held2 assms(6) by auto
  with fp show ?thesis by blast
qed

text \<open>
  C23: A lease is exclusive. After Begin has granted a lease, and until it ends on the server's
  clock or its holder closes it, no call of anyone changes the record: every Begin that
  reaches the server answers InProgress or Mismatch, never New, and every Finish or Cancel
  under another token is refused with CodeConflict.
\<close>

theorem idem_lease_exclusive:
  assumes "idem_New client opts = Inr s" and "mono (sv_clock sv)"
    and "idem_Begin s sc k fp (Inr tok) sv = (Inr r, sv1)" and "rv_Status r = StatusNew"
    and "sv2 = idem_run s ops sv1" and "\<forall>op \<in> set ops. \<not> closes sc k tok op"
    and "sv_clock sv (sv_calls sv2) < sv_clock sv (sv_calls sv) + milliseconds (is_leaseTTL s) * millisecond"
    and "sv_fault sv2 (sv_calls sv2) = NoFault" and "fp' \<noteq> []" and "tok' \<noteq> []" and "tok' \<noteq> tok"
  shows "(\<exists>rv. fst (idem_Begin s sc k fp' (Inr tok'') sv2) = Inr rv \<and>
            rv_Status rv = (if fp' = fp then StatusInProgress else StatusMismatch)) \<and>
         (\<exists>m. fst (idem_Finish s (lease sc k tok') resp sv2) = Some (ErrxNew CodeConflict m)) \<and>
         (\<exists>m. fst (idem_Cancel s (lease sc k tok') sv2) = Some (ErrxNew CodeConflict m)) \<and>
         rv_LeaseToken r = tok"
proof -
  let ?exp = "sv_clock sv (sv_calls sv) + milliseconds (is_leaseTTL s) * millisecond"
  note held = begin_held [OF idem_New_valid [OF assms(1)] assms(3,4)]
  have held2: "holds_until s sc k (pending_hash fp tok) ?exp sv2 \<and> sv_clock sv2 = sv_clock sv"
    using held_run [OF held(1), of ops] assms(2,5,6,7) held(2) by simp
  have live: "live (sv_clock sv2 (sv_calls sv2)) (sv_keys sv2) (compositeKey (is_keyPrefix s) sc k) = Some (pending_hash fp tok)"
    using held2 assms(7) by (simp add: holds_until_def live_held)
  have "\<exists>rv. fst (idem_Begin s sc k fp' (Inr tok'') sv2) = Inr rv \<and>
            rv_Status rv = (if fp' = fp then StatusInProgress else StatusMismatch)"
    using held_Begin [OF held2 [THEN conjunct1] _ held(4,5) assms(9,8), of fp tok''] held2 assms(7) by auto
  moreover have "\<exists>m. fst (idem_Finish s (lease sc k tok') resp sv2) = Some (ErrxNew CodeConflict m)"
    using live assms(8,10,11) held(4,5) by (simp add: idem_Finish_def lease_def run_script_def finishScript_def Let_def)
  moreover have "\<exists>m. fst (idem_Cancel s (lease sc k tok') sv2) = Some (ErrxNew CodeConflict m)"
    using live assms(8,10,11) held(4,5) by (simp add: idem_Cancel_def lease_def run_script_def cancelScript_def Let_def)
  ultimately show ?thesis using held(3) by blast
qed

text \<open>A server that ticks once per second and never fails, and the default store.\<close>

definition example_server :: rserver where
  "example_server = \<lparr>sv_keys = Map.empty, sv_clock = (\<lambda>n. int n * second), sv_fault = (\<lambda>n. NoFault), sv_calls = 0\<rparr>"

definition example_store :: idem_store where
  "example_store = \<lparr>is_keyPrefix = ''idem'', is_leaseTTL = 30 * second, is_retention = 24 * hour\<rparr>"

definition example_reserved :: rserver where
  "example_reserved = snd (idem_Begin example_store ''s'' ''k'' ''fp'' (Inr ''t1'') example_server)"

lemma example_store_new: "idem_New (CustomClient ()) [] = Inr example_store"
  by (simp add: idem_New_def idem_defaultConfig_def example_store_def second_def millisecond_def hour_def minute_def)

lemma example_mono: "mono (\<lambda>n. int n * second)"
  by (rule monoI) (simp add: second_def)

lemma example_ms:
  "milliseconds (is_leaseTTL example_store) = 30000" "milliseconds (is_retention example_store) = 86400000"
  by (simp_all add: example_store_def milliseconds_def millisecond_def second_def hour_def minute_def)

lemma example_begun:
  "idem_Begin example_store ''s'' ''k'' ''fp'' (Inr ''t1'') example_server =
     (Inr ((lease ''s'' ''k'' ''t1'')\<lparr>rv_LeaseTTL := 30 * second\<rparr>), example_reserved)"
  unfolding example_reserved_def
  by (simp add: idem_Begin_def run_script_def example_server_def beginScript_def live_def lease_def Let_def)
     (simp add: example_store_def)

lemma example_reserved_keys:
  "sv_keys example_reserved = [compositeKey ''idem'' ''s'' ''k'' \<mapsto> (pending_hash ''fp'' ''t1'', Some (30 * second))]"
  "sv_clock example_reserved = (\<lambda>n. int n * second)" "sv_calls example_reserved = 1"
  "sv_fault example_reserved = (\<lambda>n. NoFault)"
  unfolding example_reserved_def
  by (simp_all add: idem_Begin_def run_script_def example_server_def beginScript_def live_def put_expiring_def Let_def
      example_ms pending_hash_def)
     (simp add: example_store_def millisecond_def second_def)

lemma example_reserved_wf: "idem_wf (sv_keys example_reserved)"
  by (auto simp: idem_wf_def example_reserved_keys)

theorem idem_refines_spec_witness:
  "refined example_store (OpFinish ''s'' ''k'' ''t1'' ''ok'') example_reserved
     (fst (idem_call example_store (OpFinish ''s'' ''k'' ''t1'' ''ok'') example_reserved))
     (snd (idem_call example_store (OpFinish ''s'' ''k'' ''t1'' ''ok'') example_reserved))"
  by (rule idem_refines_spec [OF example_store_new example_reserved_wf]) simp_all

theorem idem_completed_replayed_witness:
  "let sv1 = snd (idem_Finish example_store (lease ''s'' ''k'' ''t1'') ''ok'' example_reserved)
   in \<exists>rv. fst (idem_Begin example_store ''s'' ''k'' ''fp'' (Inr ''t2'') sv1) = Inr rv \<and>
        rv_Status rv = StatusCompleted \<and> rv_Response rv = ''ok''"
proof -
  let ?r = "lease ''s'' ''k'' ''t1''"
  let ?ck = "compositeKey ''idem'' ''s'' ''k''"
  have pre: "is_keyPrefix example_store = ''idem''" by (simp add: example_store_def)
  have live: "live (1 * second) (sv_keys example_reserved) ?ck = Some (pending_hash ''fp'' ''t1'')"
    by (simp add: example_reserved_keys live_def second_def)
  obtain sv1 where f: "idem_Finish example_store ?r ''ok'' example_reserved = (None, sv1)" "sv_calls sv1 = 2"
    "sv_fault sv1 = (\<lambda>n. NoFault)"
    using live by (auto simp: idem_Finish_def lease_def run_script_def finishScript_def pre example_reserved_keys Let_def)
  have mono: "mono (sv_clock example_reserved)" by (simp add: example_reserved_keys example_mono)
  obtain fp where a: "abs_at (sv_clock example_reserved (sv_calls example_reserved)) (sv_keys example_reserved)
            (compositeKey (is_keyPrefix example_store) (rv_Scope ?r) (rv_Key ?r)) = Pending fp (rv_LeaseToken ?r)"
    and b: "\<forall>fp' tok'. fp' \<noteq> [] \<longrightarrow> (\<exists>rv. fst (idem_Begin example_store (rv_Scope ?r) (rv_Key ?r) fp' (Inr tok') sv1) = Inr rv \<and>
            (if fp' = fp then rv_Status rv = StatusCompleted \<and> rv_Response rv = ''ok''
             else rv_Status rv = StatusMismatch))"
  proof -
    have run: "sv1 = idem_run example_store [] sv1" by (simp add: idem_run_def)
    show ?thesis
      using idem_completed_replayed [OF example_store_new example_reserved_wf mono f(1) run] that
      by (auto simp: example_reserved_keys f example_ms millisecond_def second_def)
  qed
  have "fp = ''fp''" using a live by (simp add: abs_at_def lease_def pre example_reserved_keys)
  then show ?thesis using b [rule_format, of "''fp''" "''t2''"] f(1) by (simp add: lease_def)
qed

theorem idem_lease_exclusive_witness:
  "\<exists>m. fst (idem_Finish example_store (lease ''s'' ''k'' ''stale'') ''x'' example_reserved)
         = Some (ErrxNew CodeConflict m)"
proof -
  let ?sv = example_server and ?r = "(lease ''s'' ''k'' ''t1'')\<lparr>rv_LeaseTTL := 30 * second\<rparr>"
  have mono: "mono (sv_clock ?sv)" by (simp add: example_server_def example_mono)
  have st: "rv_Status ?r = StatusNew" by (simp add: lease_def)
  have run: "example_reserved = idem_run example_store [] example_reserved" by (simp add: idem_run_def)
  have now: "sv_clock ?sv (sv_calls example_reserved) < sv_clock ?sv (sv_calls ?sv) +
      milliseconds (is_leaseTTL example_store) * millisecond"
    by (simp add: example_server_def example_reserved_keys example_ms millisecond_def second_def)
  have nf: "sv_fault example_reserved (sv_calls example_reserved) = NoFault" by (simp add: example_reserved_keys)
  show ?thesis
    using idem_lease_exclusive [OF example_store_new mono example_begun st run _ now nf, of "''fp''" "''stale''" "''t3''" "''x''"]
    by simp
qed

end
