(* ===== verification/Bootstrap.thy ===== *)
theory Bootstrap
  imports Prelude
begin

text \<open>
  The value a component hands to the core's \<^verbatim>\<open>bootstrap.App\<close>: \<^verbatim>\<open>bootstrap.ModuleFunc\<close>, a name and two
  hooks on a world, either of which may be nil.
\<close>

type_synonym 'w hook = "gctx \<Rightarrow> 'w \<Rightarrow> goerr option \<times> 'w"

record 'w module_func =
  md_ModuleName :: string
  md_StartFn :: "'w hook option"
  md_StopFn :: "'w hook option"

end
