(* ===== verification/Kafka_Codec.thy ===== *)
theory Kafka_Codec
  imports Eventbus Relay Bootstrap
begin

text \<open>
  The producing side of \<^verbatim>\<open>eventbus/kafka\<close>: the propagation ids carried in a context
  (\<^verbatim>\<open>ctxkey.go\<close>), their restoration from stored headers (\<^verbatim>\<open>headers.go\<close>), the JSON codec with its
  registry (\<^verbatim>\<open>codec.go\<close>) and the publisher (\<^verbatim>\<open>publisher.go\<close>). The header names are constants of the
  core library, and JSON and RFC 3339 formatting are library routines: they are the fields
  of \<open>codec_lib\<close>. The watermill publisher is a parameter of the Publisher.
\<close>

section \<open>Propagation ids\<close>

definition stringValue :: "gctx \<Rightarrow> ctx_key \<Rightarrow> string option" where
  "stringValue ctx k =
     (case ctx_values ctx k of Some (StrVal v) \<Rightarrow> if v = [] then None else Some v | _ \<Rightarrow> None)"

definition WithTraceID :: "gctx \<Rightarrow> string \<Rightarrow> gctx" where
  "WithTraceID ctx v = with_value ctx KeyTraceID (StrVal v)"
definition WithCausationID :: "gctx \<Rightarrow> string \<Rightarrow> gctx" where
  "WithCausationID ctx v = with_value ctx KeyCausationID (StrVal v)"
definition WithCorrelationID :: "gctx \<Rightarrow> string \<Rightarrow> gctx" where
  "WithCorrelationID ctx v = with_value ctx KeyCorrelationID (StrVal v)"

definition TraceIDFrom :: "gctx \<Rightarrow> string option" where
  "TraceIDFrom ctx = stringValue ctx KeyTraceID"
definition CausationIDFrom :: "gctx \<Rightarrow> string option" where
  "CausationIDFrom ctx = stringValue ctx KeyCausationID"
definition CorrelationIDFrom :: "gctx \<Rightarrow> string option" where
  "CorrelationIDFrom ctx = stringValue ctx KeyCorrelationID"

text \<open>The library: the core's header names, JSON of an event, decoding into a fresh event.\<close>

record ('f, 'b) codec_lib =
  hn_EventID :: string
  hn_EventName :: string
  hn_AggregateID :: string
  hn_AggregateType :: string
  hn_OccurredAt :: string
  hn_EventVersion :: string
  hn_TraceID :: string
  hn_CausationID :: string
  hn_CorrelationID :: string
  json_Marshal :: "'b devent \<Rightarrow> goerr + bytes"
  json_Unmarshal :: "bytes \<Rightarrow> 'f \<Rightarrow> goerr + 'b devent"
  fmt_RFC3339Nano :: "time \<Rightarrow> string"

definition header_names :: "('f, 'b) codec_lib \<Rightarrow> string list" where
  "header_names L = [hn_EventID L, hn_EventName L, hn_AggregateID L, hn_AggregateType L, hn_OccurredAt L,
     hn_EventVersion L, hn_TraceID L, hn_CausationID L, hn_CorrelationID L]"

definition RestoreCoreHeaders :: "('f, 'b) codec_lib \<Rightarrow> gctx \<Rightarrow> headers \<Rightarrow> gctx" where
  "RestoreCoreHeaders L ctx h =
     (let ctx1 = (let v = map_get h (hn_TraceID L) in if v \<noteq> [] then WithTraceID ctx v else ctx);
          ctx2 = (let v = map_get h (hn_CausationID L) in if v \<noteq> [] then WithCausationID ctx1 v else ctx1)
      in let v = map_get h (hn_CorrelationID L) in if v \<noteq> [] then WithCorrelationID ctx2 v else ctx2)"

section \<open>The JSON codec\<close>

text \<open>The registry maps a name to its factory; a factory may panic.\<close>

type_synonym 'f registry = "string \<rightharpoonup> 'f outcome"

definition NewJSONCodec :: "'f registry" where
  "NewJSONCodec = Map.empty"

definition codec_Register :: "string \<Rightarrow> 'f outcome \<Rightarrow> 'f registry \<Rightarrow> 'f registry" where
  "codec_Register name factory c = c(name \<mapsto> factory)"

definition ErrUnknownEvent :: goerr where
  "ErrUnknownEvent = ErrNew ''kafka: unknown event name''"

definition meta_set_opt :: "string \<Rightarrow> string option \<Rightarrow> wm_msg \<Rightarrow> wm_msg" where
  "meta_set_opt k v m = (case v of None \<Rightarrow> m | Some x \<Rightarrow> meta_set k x m)"

definition codec_Marshal :: "('f, 'b) codec_lib \<Rightarrow> gctx \<Rightarrow> 'b devent \<Rightarrow> goerr + wm_msg" where
  "codec_Marshal L ctx ev =
     (case json_Marshal L ev of
        Inl err \<Rightarrow> Inl (Errorf ''kafka codec: marshal payload'' [err])
      | Inr payload \<Rightarrow>
          let m0 = new_message (ev_EventID ev) payload;
              m1 = meta_set (hn_EventID L) (ev_EventID ev) m0;
              m2 = meta_set (hn_EventName L) (ev_EventName ev) m1;
              m3 = meta_set (hn_AggregateID L) (ev_AggregateID ev) m2;
              m4 = meta_set (hn_AggregateType L) (ev_AggregateType ev) m3;
              m5 = meta_set (hn_OccurredAt L) (fmt_RFC3339Nano L (ev_OccurredAt ev)) m4;
              m6 = meta_set (hn_EventVersion L) (format_int (ev_Version ev)) m5;
              m7 = meta_set_opt (hn_TraceID L) (TraceIDFrom ctx) m6;
              m8 = meta_set_opt (hn_CausationID L) (CausationIDFrom ctx) m7
          in Inr (meta_set_opt (hn_CorrelationID L) (CorrelationIDFrom ctx) m8))"

definition codec_Unmarshal ::
  "('f, 'b) codec_lib \<Rightarrow> 'f registry \<Rightarrow> gctx \<Rightarrow> wm_msg \<Rightarrow> (goerr + 'b devent \<times> string) outcome" where
  "codec_Unmarshal L c ctx msg =
     (let name = meta_get msg (hn_EventName L)
      in if name = [] then Ret (Inl (Errorf (''kafka codec: missing header '' @ hn_EventName L) [ErrUnknownEvent]))
         else case c name of
                None \<Rightarrow> Ret (Inl (Errorf (''kafka codec: '' @ name) [ErrUnknownEvent]))
              | Some (Panic p) \<Rightarrow> Panic p
              | Some (Ret ev) \<Rightarrow>
                  (case json_Unmarshal L (msg_Payload msg) ev of
                     Inl err \<Rightarrow> Ret (Inl (Errorf (''kafka codec: unmarshal '' @ name) [err]))
                   | Inr ev' \<Rightarrow> Ret (Inr (ev', name))))"

definition json_codec :: "('f, 'b) codec_lib \<Rightarrow> 'f registry \<Rightarrow> 'b codec" where
  "json_codec L c = \<lparr>cd_Marshal = codec_Marshal L, cd_Unmarshal = codec_Unmarshal L c\<rparr>"

section \<open>The publisher\<close>

text \<open>The watermill publisher sends a batch to a topic; the constructor of it may fail.\<close>

record ('w, 'b) kafka_publisher =
  kp_pub :: "string \<Rightarrow> wm_msg list \<Rightarrow> 'w \<Rightarrow> goerr option \<times> 'w"
  kp_close :: "'w \<Rightarrow> goerr option \<times> 'w"
  kp_codec :: "'b codec"

text \<open>The partition key of a message, when partitioning by aggregate.\<close>

definition partition_key :: "('f, 'b) codec_lib \<Rightarrow> string \<Rightarrow> wm_msg \<Rightarrow> goerr + string" where
  "partition_key L topic msg = Inr (meta_get msg (hn_AggregateID L))"

definition NewPublisher ::
  "('f, 'b) codec_lib \<Rightarrow> string list \<Rightarrow> 'b codec option \<Rightarrow> bool \<Rightarrow>
   ((string \<Rightarrow> wm_msg \<Rightarrow> goerr + string) option \<Rightarrow>
      goerr + (string \<Rightarrow> wm_msg list \<Rightarrow> 'w \<Rightarrow> goerr option \<times> 'w) \<times> ('w \<Rightarrow> goerr option \<times> 'w)) \<Rightarrow>
   goerr + ('w, 'b) kafka_publisher" where
  "NewPublisher L brokers cfg_Codec partitionByAggregate wmNewPublisher =
     (if brokers = [] then Inl (ErrNew ''kafka publisher: Brokers is required'')
      else case cfg_Codec of
             None \<Rightarrow> Inl (ErrNew ''kafka publisher: Codec is required'')
           | Some c \<Rightarrow>
               (case wmNewPublisher (if partitionByAggregate then Some (partition_key L) else None) of
                  Inl err \<Rightarrow> Inl (Errorf ''kafka publisher'' [err])
                | Inr (pub, close) \<Rightarrow> Inr \<lparr>kp_pub = pub, kp_close = close, kp_codec = c\<rparr>))"

definition kafka_encode :: "'b codec \<Rightarrow> gctx \<Rightarrow> 'b devent \<Rightarrow> goerr + wm_msg" where
  "kafka_encode cd ctx ev =
     (case cd_Marshal cd ctx ev of
        Inl err \<Rightarrow> Inl (Errorf (''kafka publisher: encode '' @ ev_EventName ev) [err])
      | Inr msg \<Rightarrow> Inr msg)"

definition kafka_Publish ::
  "('w, 'b) kafka_publisher \<Rightarrow> gctx \<Rightarrow> string \<Rightarrow> 'b devent list \<Rightarrow> 'w \<Rightarrow> goerr option \<times> 'w" where
  "kafka_Publish p ctx topic events w =
     (if events = [] then (None, w)
      else case map_result (kafka_encode (kp_codec p) ctx) events of
             Inl err \<Rightarrow> (Some err, w)
           | Inr msgs \<Rightarrow>
               (case kp_pub p topic msgs w of
                  (Some err, w') \<Rightarrow> (Some (Errorf (''kafka publisher: publish to '' @ topic) [err]), w')
                | (None, w') \<Rightarrow> (None, w')))"

definition kafka_Close :: "('w, 'b) kafka_publisher \<Rightarrow> 'w \<Rightarrow> goerr option \<times> 'w" where
  "kafka_Close p w = kp_close p w"

definition PublisherModule :: "('w, 'b) kafka_publisher \<Rightarrow> 'w module_func" where
  "PublisherModule p = \<lparr>md_ModuleName = ''kafka-publisher'', md_StartFn = None,
     md_StopFn = Some (\<lambda>ctx w. kafka_Close p w)\<rparr>"

section \<open>Properties\<close>

lemma meta_set_opt_simps [simp]:
  "msg_UUID (meta_set_opt k v m) = msg_UUID m" "msg_Payload (meta_set_opt k v m) = msg_Payload m"
  "msg_Metadata (meta_set_opt k v m) = (case v of None \<Rightarrow> msg_Metadata m | Some x \<Rightarrow> (msg_Metadata m)(k \<mapsto> x))"
  by (simp_all add: meta_set_opt_def split: option.split)

text \<open>The header names of the core are distinct.\<close>

definition lib_ok :: "('f, 'b) codec_lib \<Rightarrow> bool" where
  "lib_ok L \<longleftrightarrow> distinct (header_names L)"

lemma Marshal_headers:
  assumes "lib_ok L" "codec_Marshal L ctx ev = Inr msg"
  shows "msg_UUID msg = ev_EventID ev" "json_Marshal L ev = Inr (msg_Payload msg)"
    "msg_Metadata msg (hn_EventID L) = Some (ev_EventID ev)"
    "msg_Metadata msg (hn_EventName L) = Some (ev_EventName ev)"
    "msg_Metadata msg (hn_AggregateID L) = Some (ev_AggregateID ev)"
    "msg_Metadata msg (hn_AggregateType L) = Some (ev_AggregateType ev)"
    "msg_Metadata msg (hn_EventVersion L) = Some (format_int (ev_Version ev))"
    "msg_Metadata msg (hn_TraceID L) = TraceIDFrom ctx"
    "msg_Metadata msg (hn_CausationID L) = CausationIDFrom ctx"
    "msg_Metadata msg (hn_CorrelationID L) = CorrelationIDFrom ctx"
    "\<forall>k. k \<notin> set (header_names L) \<longrightarrow> msg_Metadata msg k = None"
  using assms unfolding lib_ok_def header_names_def codec_Marshal_def
  by (auto simp: Let_def split: sum.splits option.splits)

lemma stringValue_nonempty: "stringValue ctx k = Some v \<Longrightarrow> v \<noteq> []"
  by (auto simp: stringValue_def split: option.splits ctx_val.splits if_splits)

lemma stringValue_with:
  "stringValue (with_value c k (StrVal v)) k' = (if k' = k then (if v = [] then None else Some v) else stringValue c k')"
  by (simp add: stringValue_def)

lemma Restore_ids:
  "TraceIDFrom (RestoreCoreHeaders L ctx h) =
     (if map_get h (hn_TraceID L) \<noteq> [] then Some (map_get h (hn_TraceID L)) else TraceIDFrom ctx)"
  "CausationIDFrom (RestoreCoreHeaders L ctx h) =
     (if map_get h (hn_CausationID L) \<noteq> [] then Some (map_get h (hn_CausationID L)) else CausationIDFrom ctx)"
  "CorrelationIDFrom (RestoreCoreHeaders L ctx h) =
     (if map_get h (hn_CorrelationID L) \<noteq> [] then Some (map_get h (hn_CorrelationID L)) else CorrelationIDFrom ctx)"
  by (simp_all add: RestoreCoreHeaders_def TraceIDFrom_def CausationIDFrom_def CorrelationIDFrom_def
      WithTraceID_def WithCausationID_def WithCorrelationID_def stringValue_with Let_def)

lemma map_get_id: "h k = stringValue ctx key \<Longrightarrow>
    (if map_get h k \<noteq> [] then Some (map_get h k) else None) = stringValue ctx key"
  by (cases "stringValue ctx key") (auto simp: map_get_def dest: stringValue_nonempty)

text \<open>
  C32: The trace, causation and correlation ids survive the outbox. Stored with the headers of
  the message that was marshalled in the producer's context, and put back by
  RestoreCoreHeaders into a relay context that carries none, they are exactly the ids of the
  producer's context, absent ones included; so the message the relay's publisher marshals
  for the decoded event has the same headers as the original one, all nine of them.
\<close>

theorem trace_ids_survive_outbox:
  assumes "lib_ok L" and "codec_Marshal L ctx ev = Inr msg"
    and "TraceIDFrom rctx = None" and "CausationIDFrom rctx = None" and "CorrelationIDFrom rctx = None"
  shows "TraceIDFrom (RestoreCoreHeaders L rctx (msg_Metadata msg)) = TraceIDFrom ctx \<and>
    CausationIDFrom (RestoreCoreHeaders L rctx (msg_Metadata msg)) = CausationIDFrom ctx \<and>
    CorrelationIDFrom (RestoreCoreHeaders L rctx (msg_Metadata msg)) = CorrelationIDFrom ctx \<and>
    codec_Marshal L (RestoreCoreHeaders L rctx (msg_Metadata msg)) ev = Inr msg"
proof -
  let ?r = "RestoreCoreHeaders L rctx (msg_Metadata msg)"
  note h = Marshal_headers [OF assms(1,2)]
  have ids: "TraceIDFrom ?r = TraceIDFrom ctx" "CausationIDFrom ?r = CausationIDFrom ctx"
    "CorrelationIDFrom ?r = CorrelationIDFrom ctx"
    using h(8-10) assms(3-5) map_get_id
    by (simp_all add: Restore_ids) (metis TraceIDFrom_def CausationIDFrom_def CorrelationIDFrom_def)+
  then have "codec_Marshal L ?r ev = codec_Marshal L ctx ev" by (simp add: codec_Marshal_def Let_def cong: sum.case_cong)
  with ids assms(2) show ?thesis by simp
qed

text \<open>
  The JSON codec inverts itself. What Marshal produced for an event whose name is
  registered decodes, in any context, to an event equal to it under its own name, if JSON
  itself does; the message keeps the event id as its UUID. A name that is missing or not
  registered is reported as ErrUnknownEvent and nothing is decoded.
\<close>

lemma codec_roundtrip:
  assumes "lib_ok L" and "codec_Marshal L ctx ev = Inr msg"
  shows "msg_UUID msg = ev_EventID ev \<and>
    (\<forall>factory payload. ev_EventName ev \<noteq> [] \<and> json_Marshal L ev = Inr payload \<and> json_Unmarshal L payload factory = Inr ev \<longrightarrow>
       codec_Unmarshal L (codec_Register (ev_EventName ev) (Ret factory) c) ctx' msg = Ret (Inr (ev, ev_EventName ev))) \<and>
    (ev_EventName ev = [] \<or> c (ev_EventName ev) = None \<longrightarrow>
       (\<exists>e. codec_Unmarshal L c ctx' msg = Ret (Inl e) \<and> errors_is e ErrUnknownEvent))"
  using Marshal_headers(1,2,4) [OF assms]
  by (auto simp: codec_Unmarshal_def codec_Register_def meta_get_def map_get_def Let_def)

text \<open>
  Publishing is one batch or nothing. Publish sends nothing when an event does not encode
  (and reports it), and otherwise makes exactly one call of the broker client with one message
  per event, in the order of the events, returning nil exactly when that call did. With the
  JSON codec every message has the aggregate id of its event as partition key, so the events
  of one aggregate share a partition.
\<close>

lemma kafka_Publish_one_batch:
  assumes "kafka_Publish p ctx topic events w = (res, w')" and "kp_codec p = json_codec L c" and "lib_ok L"
  shows "(events = [] \<and> res = None \<and> w' = w) \<or>
    (\<exists>ev \<in> set events. \<exists>e. codec_Marshal L ctx ev = Inl e) \<and> res \<noteq> None \<and> w' = w \<or>
    (\<exists>msgs. length msgs = length events \<and> w' = snd (kp_pub p topic msgs w) \<and>
       (res = None \<longleftrightarrow> fst (kp_pub p topic msgs w) = None) \<and>
       (\<forall>i < length events. codec_Marshal L ctx (events ! i) = Inr (msgs ! i) \<and>
          partition_key L topic (msgs ! i) = Inr (ev_AggregateID (events ! i))))"
proof -
  have cd: "cd_Marshal (kp_codec p) = codec_Marshal L" using assms(2) by (simp add: json_codec_def)
  show ?thesis
  proof (cases "events = []")
    case True
    then show ?thesis using assms(1) by (simp add: kafka_Publish_def)
  next
    case False
    show ?thesis
    proof (cases "map_result (kafka_encode (kp_codec p) ctx) events")
      case (Inl err)
      then obtain ev e where ev: "ev \<in> set events" "kafka_encode (kp_codec p) ctx ev = Inl e"
        using map_result_Inl_iff [of "kafka_encode (kp_codec p) ctx" events] by blast
      then have "\<exists>ev \<in> set events. \<exists>e. codec_Marshal L ctx ev = Inl e"
        by (cases "codec_Marshal L ctx ev") (auto simp: kafka_encode_def cd)
      moreover have "res \<noteq> None" "w' = w" using assms(1) False Inl by (auto simp: kafka_Publish_def)
      ultimately show ?thesis by blast
    next
      case (Inr msgs)
      have "codec_Marshal L ctx (events ! i) = Inr (msgs ! i) \<and>
          partition_key L topic (msgs ! i) = Inr (ev_AggregateID (events ! i))" if "i < length events" for i
      proof -
        have m: "codec_Marshal L ctx (events ! i) = Inr (msgs ! i)"
          using map_result_Inr_nth [OF Inr that] by (auto simp: kafka_encode_def cd split: sum.splits)
        then show ?thesis
          using Marshal_headers(5) [OF assms(3) m] by (simp add: partition_key_def meta_get_def map_get_def)
      qed
      moreover have "w' = snd (kp_pub p topic msgs w)" "res = None \<longleftrightarrow> fst (kp_pub p topic msgs w) = None"
        using assms(1) False Inr by (auto simp: kafka_Publish_def split: prod.splits option.splits)
      ultimately show ?thesis
        by (intro disjI2 exI [of _ msgs] conjI map_result_Inr_length [OF Inr] allI impI) simp_all
    qed
  qed
qed

text \<open>A library for concrete evaluations: the payload is the event id, a factory is a unit.\<close>

definition example_lib :: "(unit, unit) codec_lib" where
  "example_lib = \<lparr>hn_EventID = ''event_id'', hn_EventName = ''event_name'', hn_AggregateID = ''aggregate_id'',
     hn_AggregateType = ''aggregate_type'', hn_OccurredAt = ''occurred_at'', hn_EventVersion = ''event_version'',
     hn_TraceID = ''trace_id'', hn_CausationID = ''causation_id'', hn_CorrelationID = ''correlation_id'',
     json_Marshal = (\<lambda>ev. if ev_EventID ev = [] then Inl (ErrNew ''bad'') else Inr (ev_EventID ev)),
     json_Unmarshal = (\<lambda>b f. Inr (example_event b)), fmt_RFC3339Nano = (\<lambda>t. ''2024-01-01T00:00:00Z'')\<rparr>"

lemma example_lib_ok: "lib_ok example_lib"
  by (simp add: lib_ok_def header_names_def example_lib_def)

definition example_message :: wm_msg where
  "example_message = (case codec_Marshal example_lib (WithTraceID background ''t1'') (example_event ''a'') of
     Inr m \<Rightarrow> m | Inl _ \<Rightarrow> new_message [] [])"

lemma example_marshalled:
  "codec_Marshal example_lib (WithTraceID background ''t1'') (example_event ''a'') = Inr example_message"
  by (simp add: example_message_def codec_Marshal_def example_lib_def example_event_def Let_def)

theorem trace_ids_survive_outbox_witness:
  "TraceIDFrom (RestoreCoreHeaders example_lib background (msg_Metadata example_message)) = Some ''t1'' \<and>
   CausationIDFrom (RestoreCoreHeaders example_lib background (msg_Metadata example_message)) = None"
proof -
  have none: "TraceIDFrom background = None" "CausationIDFrom background = None" "CorrelationIDFrom background = None"
    by (simp_all add: TraceIDFrom_def CausationIDFrom_def CorrelationIDFrom_def stringValue_def background_def)
  have "TraceIDFrom (WithTraceID background ''t1'') = Some ''t1''" "CausationIDFrom (WithTraceID background ''t1'') = None"
    by (simp_all add: TraceIDFrom_def CausationIDFrom_def WithTraceID_def stringValue_with)
       (simp add: stringValue_def background_def)
  with trace_ids_survive_outbox [OF example_lib_ok example_marshalled none] show ?thesis by simp
qed

end
