(* ===== verification/Kafka_Consumer.thy ===== *)
theory Kafka_Consumer
  imports Eventbus Bootstrap "HOL-Library.Sublist" "HOL-Library.Multiset"
begin

text \<open>
  The consuming side of \<^verbatim>\<open>eventbus/kafka\<close>: the goroutine of \<^verbatim>\<open>Subscriber.Subscribe\<close> that decodes
  and forwards messages (\<^verbatim>\<open>subscriber.go\<close>), the worker goroutine per topic and the start and stop
  hooks of \<^verbatim>\<open>newConsumerLifecycle\<close> (\<^verbatim>\<open>module.go\<close>), as step relations whose interleavings are
  those of the goroutines. One \<open>slot\<close> is one topic: its forwarding goroutine, its worker and,
  as history variables, the messages received from the broker, the handler calls made and the
  Ack or Nack each message got. The watermill client delivers any message at any time and may
  close the raw channel of a topic at any time (when its own Close is called), and
  the application's handler has any outcome.
\<close>

section \<open>One envelope\<close>

record 'b envelope =
  env_Event :: "'b devent"
  env_Name :: string
  env_Raw :: wm_msg

datatype settlement = Ack | Nack

text \<open>
  \<^verbatim>\<open>processEnvelope\<close>: the log lines written (the stack trace is left out) and the settlement of
  the envelope. \<open>errtext\<close> is \<^verbatim>\<open>err.Error()\<close>.
\<close>

definition processEnvelope ::
  "(goerr \<Rightarrow> string) \<Rightarrow> gctx \<Rightarrow> string \<Rightarrow> (gctx \<Rightarrow> 'b envelope \<Rightarrow> goerr option outcome) \<Rightarrow> 'b envelope \<Rightarrow>
   (string \<times> (string \<times> string) list) list \<times> settlement" where
  "processEnvelope errtext ctx loc handle env =
     (case handle ctx env of
        Panic r \<Rightarrow> ([(''consumer panic recovered'',
                     [(''where'', loc), (''event_name'', env_Name env), (''recover'', r)])], Nack)
      | Ret (Some err) \<Rightarrow> ([(''consumer handle failed'',
                     [(''where'', loc), (''event_name'', env_Name env), (''err'', errtext err)])], Nack)
      | Ret None \<Rightarrow> ([], Ack))"

section \<open>One topic\<close>

datatype 'b pump = PumpReady | PumpHolding "'b envelope" | PumpClosed
datatype 'b worker = WIdle | WHandling "'b envelope" | WExited

record 'b slot =
  sl_topic :: string
  sl_rawClosed :: bool
  sl_pump :: "'b pump"
  sl_worker :: "'b worker"
  sl_received :: "wm_msg list"
  sl_handled :: "('b envelope \<times> goerr option outcome) list"
  sl_settled :: "(wm_msg \<times> settlement) list"

definition new_slot :: "string \<Rightarrow> 'b slot" where
  "new_slot topic = \<lparr>sl_topic = topic, sl_rawClosed = False, sl_pump = PumpReady, sl_worker = WIdle,
     sl_received = [], sl_handled = [], sl_settled = []\<rparr>"

text \<open>
  The goroutine of Subscribe. In its first select it leaves when the context is done or the
  raw channel is closed, or takes a message; an undecodable message is Nack'd and skipped.
  In the second select it Nacks and leaves when the context is done, or hands the envelope to
  the worker (the channel is unbuffered, so the worker has to be receiving).
\<close>

inductive pump_step :: "'b codec \<Rightarrow> gctx \<Rightarrow> bool \<Rightarrow> 'b slot \<Rightarrow> 'b slot \<Rightarrow> bool"
  for cd :: "'b codec" and ctx :: gctx and cancelled :: bool where
  pump_ctx_done: "\<lbrakk>sl_pump t = PumpReady; cancelled\<rbrakk> \<Longrightarrow>
     pump_step cd ctx cancelled t (t\<lparr>sl_pump := PumpClosed\<rparr>)"
| pump_raw_closed: "\<lbrakk>sl_pump t = PumpReady; sl_rawClosed t\<rbrakk> \<Longrightarrow>
     pump_step cd ctx cancelled t (t\<lparr>sl_pump := PumpClosed\<rparr>)"
| pump_undecodable: "\<lbrakk>sl_pump t = PumpReady; cd_Unmarshal cd ctx m = Ret (Inl err)\<rbrakk> \<Longrightarrow>
     pump_step cd ctx cancelled t
       (t\<lparr>sl_received := sl_received t @ [m], sl_settled := sl_settled t @ [(m, Nack)]\<rparr>)"
| pump_decoded: "\<lbrakk>sl_pump t = PumpReady; cd_Unmarshal cd ctx m = Ret (Inr (ev, name))\<rbrakk> \<Longrightarrow>
     pump_step cd ctx cancelled t
       (t\<lparr>sl_received := sl_received t @ [m],
          sl_pump := PumpHolding \<lparr>env_Event = ev, env_Name = name, env_Raw = m\<rparr>\<rparr>)"
| pump_dropped: "\<lbrakk>sl_pump t = PumpHolding env; cancelled\<rbrakk> \<Longrightarrow>
     pump_step cd ctx cancelled t
       (t\<lparr>sl_pump := PumpClosed, sl_settled := sl_settled t @ [(env_Raw env, Nack)]\<rparr>)"
| pump_handoff: "\<lbrakk>sl_pump t = PumpHolding env; sl_worker t = WIdle\<rbrakk> \<Longrightarrow>
     pump_step cd ctx cancelled t (t\<lparr>sl_pump := PumpReady, sl_worker := WHandling env\<rparr>)"

text \<open>
  The worker goroutine: \<^verbatim>\<open>for env := range ch\<close>. It leaves when the channel is closed; a handler
  call ends with any outcome.
\<close>

inductive worker_step :: "(goerr \<Rightarrow> string) \<Rightarrow> gctx \<Rightarrow> 'b slot \<Rightarrow> 'b slot \<Rightarrow> bool"
  for errtext :: "goerr \<Rightarrow> string" and ctx :: gctx where
  worker_finish: "\<lbrakk>sl_worker t = WHandling env; handle ctx env = oc;
      processEnvelope errtext ctx (''kafka-consumer:'' @ sl_topic t) handle env = (logs, settled)\<rbrakk> \<Longrightarrow>
     worker_step errtext ctx t
       (t\<lparr>sl_worker := WIdle, sl_handled := sl_handled t @ [(env, oc)],
          sl_settled := sl_settled t @ [(env_Raw env, settled)]\<rparr>)"
| worker_exit: "\<lbrakk>sl_worker t = WIdle; sl_pump t = PumpClosed\<rbrakk> \<Longrightarrow>
     worker_step errtext ctx t (t\<lparr>sl_worker := WExited\<rparr>)"

section \<open>The lifecycle\<close>

text \<open>
  \<open>Starting n\<close> is the loop of StartFn before topic \<open>n\<close>, \<open>Aborting\<close> its \<^verbatim>\<open>wg.Wait()\<close> after a failed
  Subscribe, \<open>Failed\<close> and \<open>Started\<close> its two returns, \<open>Stopping\<close> the select of StopFn and
  \<open>Stopped\<close> its return. A codec that panics in the forwarding goroutine ends the process.
  \<open>raw_closed\<close> is the watermill client closing the raw channel of a topic (messages it has
  buffered may still be received).
\<close>

datatype phase = Fresh | Starting nat | Aborting goerr | Failed goerr | Started | Stopping
  | Stopped "goerr option" | Crashed

record 'b group =
  g_phase :: phase
  g_cancelled :: bool
  g_slots :: "'b slot list"

definition new_group :: "'b group" where
  "new_group = \<lparr>g_phase = Fresh, g_cancelled = False, g_slots = []\<rparr>"

definition wg_zero :: "'b group \<Rightarrow> bool" where
  "wg_zero g \<longleftrightarrow> list_all (\<lambda>t. sl_worker t = WExited) (g_slots g)"

inductive consumer_step ::
  "(goerr \<Rightarrow> string) \<Rightarrow> 'b codec \<Rightarrow> gctx \<Rightarrow> string \<Rightarrow> string list \<Rightarrow> 'b group \<Rightarrow> 'b group \<Rightarrow> bool"
  for errtext :: "goerr \<Rightarrow> string" and cd :: "'b codec" and ctx :: gctx and name :: string
    and topics :: "string list" where
  start: "g_phase g = Fresh \<Longrightarrow> consumer_step errtext cd ctx name topics g (g\<lparr>g_phase := Starting 0\<rparr>)"
| start_subscribe: "\<lbrakk>g_phase g = Starting n; n < length topics\<rbrakk> \<Longrightarrow>
     consumer_step errtext cd ctx name topics g
       (g\<lparr>g_phase := Starting (Suc n), g_slots := g_slots g @ [new_slot (topics ! n)]\<rparr>)"
| start_subscribe_fails: "\<lbrakk>g_phase g = Starting n; n < length topics\<rbrakk> \<Longrightarrow>
     consumer_step errtext cd ctx name topics g
       (g\<lparr>g_phase := Aborting (Errorf (''subscribe '' @ topics ! n)
                                 [Errorf (''kafka subscriber: subscribe to '' @ topics ! n) [err]]),
          g_cancelled := True\<rparr>)"
| start_aborted: "\<lbrakk>g_phase g = Aborting err; wg_zero g\<rbrakk> \<Longrightarrow>
     consumer_step errtext cd ctx name topics g (g\<lparr>g_phase := Failed err\<rparr>)"
| start_returns: "g_phase g = Starting (length topics) \<Longrightarrow>
     consumer_step errtext cd ctx name topics g (g\<lparr>g_phase := Started\<rparr>)"
| stop_never_started: "g_phase g = Fresh \<Longrightarrow>
     consumer_step errtext cd ctx name topics g (g\<lparr>g_phase := Stopped None\<rparr>)"
| stop: "g_phase g = Started \<or> g_phase g = Failed err \<Longrightarrow>
     consumer_step errtext cd ctx name topics g (g\<lparr>g_phase := Stopping, g_cancelled := True\<rparr>)"
| stop_drained: "\<lbrakk>g_phase g = Stopping; wg_zero g\<rbrakk> \<Longrightarrow>
     consumer_step errtext cd ctx name topics g (g\<lparr>g_phase := Stopped None\<rparr>)"
| stop_timeout: "g_phase g = Stopping \<Longrightarrow>
     consumer_step errtext cd ctx name topics g
       (g\<lparr>g_phase := Stopped (Some (Errorf (''consumer '' @ name @ '' drain'') [err]))\<rparr>)"
| pump: "\<lbrakk>g_phase g \<noteq> Crashed; i < length (g_slots g);
      pump_step cd ctx (g_cancelled g) (g_slots g ! i) t\<rbrakk> \<Longrightarrow>
     consumer_step errtext cd ctx name topics g (g\<lparr>g_slots := (g_slots g)[i := t]\<rparr>)"
| worker: "\<lbrakk>g_phase g \<noteq> Crashed; i < length (g_slots g); worker_step errtext ctx (g_slots g ! i) t\<rbrakk> \<Longrightarrow>
     consumer_step errtext cd ctx name topics g (g\<lparr>g_slots := (g_slots g)[i := t]\<rparr>)"
| raw_closed: "i < length (g_slots g) \<Longrightarrow>
     consumer_step errtext cd ctx name topics g
       (g\<lparr>g_slots := (g_slots g)[i := (g_slots g ! i)\<lparr>sl_rawClosed := True\<rparr>]\<rparr>)"
| crash: "\<lbrakk>g_phase g \<noteq> Crashed; i < length (g_slots g); sl_pump (g_slots g ! i) = PumpReady;
      cd_Unmarshal cd ctx m = Panic r\<rbrakk> \<Longrightarrow>
     consumer_step errtext cd ctx name topics g (g\<lparr>g_phase := Crashed\<rparr>)"

abbreviation consumer_reachable where
  "consumer_reachable errtext cd ctx name topics \<equiv> (consumer_step errtext cd ctx name topics)\<^sup>*\<^sup>* new_group"

text \<open>\<^verbatim>\<open>ConsumerModule\<close> is the lifecycle of one topic, \<^verbatim>\<open>ConsumerGroup\<close> of several.\<close>

definition ConsumerModule :: "(goerr \<Rightarrow> string) \<Rightarrow> 'b codec \<Rightarrow> gctx \<Rightarrow> string \<Rightarrow> 'b group \<Rightarrow> 'b group \<Rightarrow> bool" where
  "ConsumerModule errtext cd ctx topic = consumer_step errtext cd ctx (''kafka-consumer:'' @ topic) [topic]"

definition ConsumerGroup :: "(goerr \<Rightarrow> string) \<Rightarrow> 'b codec \<Rightarrow> gctx \<Rightarrow> string list \<Rightarrow> 'b group \<Rightarrow> 'b group \<Rightarrow> bool" where
  "ConsumerGroup errtext cd ctx topics = consumer_step errtext cd ctx ''kafka-consumer-group'' topics"

definition NewSubscriber ::
  "string list \<Rightarrow> 'b codec option \<Rightarrow> 'cfg option \<Rightarrow> 'cfg \<Rightarrow> ('cfg \<Rightarrow> 'cfg) \<Rightarrow> ('cfg \<Rightarrow> goerr + 's) \<Rightarrow>
   goerr + 's \<times> 'b codec" where
  "NewSubscriber brokers cfg_Codec cfg_Sarama defaultSarama fromOldest wmNewSubscriber =
     (if brokers = [] then Inl (ErrNew ''kafka subscriber: Brokers is required'')
      else case cfg_Codec of
             None \<Rightarrow> Inl (ErrNew ''kafka subscriber: Codec is required'')
           | Some c \<Rightarrow>
               (let saramaCfg = (case cfg_Sarama of Some s \<Rightarrow> s | None \<Rightarrow> fromOldest defaultSarama)
                in case wmNewSubscriber saramaCfg of
                     Inl err \<Rightarrow> Inl (Errorf ''kafka subscriber'' [err])
                   | Inr sub \<Rightarrow> Inr (sub, c)))"

text \<open>
  Close of the subscriber, and its module; \<open>wmClose\<close> is Close of the watermill subscriber.
\<close>

definition subscriber_Close :: "('s \<Rightarrow> 'w \<Rightarrow> goerr option \<times> 'w) \<Rightarrow> 's \<times> 'b codec \<Rightarrow> 'w \<Rightarrow> goerr option \<times> 'w" where
  "subscriber_Close wmClose s w = wmClose (fst s) w"

definition SubscriberModule :: "('s \<Rightarrow> 'w \<Rightarrow> goerr option \<times> 'w) \<Rightarrow> 's \<times> 'b codec \<Rightarrow> 'w module_func" where
  "SubscriberModule wmClose s = \<lparr>md_ModuleName = ''kafka-subscriber'', md_StartFn = None,
     md_StopFn = Some (\<lambda>ctx w. subscriber_Close wmClose s w)\<rparr>"

inductive_cases pump_stepE: "pump_step cd ctx b t t'"
inductive_cases worker_stepE: "worker_step errtext ctx t t'"

section \<open>The invariant of a topic\<close>

definition pending :: "'b slot \<Rightarrow> wm_msg list" where
  "pending t = (case sl_worker t of WHandling e \<Rightarrow> [env_Raw e] | _ \<Rightarrow> []) @
               (case sl_pump t of PumpHolding e \<Rightarrow> [env_Raw e] | _ \<Rightarrow> [])"

definition decodes_to :: "'b codec \<Rightarrow> gctx \<Rightarrow> 'b envelope \<Rightarrow> bool" where
  "decodes_to cd ctx e \<longleftrightarrow> cd_Unmarshal cd ctx (env_Raw e) = Ret (Inr (env_Event e, env_Name e))"

definition slot_ok :: "'b codec \<Rightarrow> gctx \<Rightarrow> 'b slot \<Rightarrow> bool" where
  "slot_ok cd ctx t \<longleftrightarrow>
     mset (sl_received t) = mset (map fst (sl_settled t)) + mset (pending t) \<and>
     subseq (map (\<lambda>h. env_Raw (fst h)) (sl_handled t) @ pending t) (sl_received t) \<and>
     map fst (filter (\<lambda>s. snd s = Ack) (sl_settled t)) =
       map (\<lambda>h. env_Raw (fst h)) (filter (\<lambda>h. snd h = Ret None) (sl_handled t)) \<and>
     (\<forall>h \<in> set (sl_handled t). decodes_to cd ctx (fst h)) \<and>
     (\<forall>e. sl_pump t = PumpHolding e \<longrightarrow> decodes_to cd ctx e) \<and>
     (\<forall>e. sl_worker t = WHandling e \<longrightarrow> decodes_to cd ctx e) \<and>
     (sl_worker t = WExited \<longrightarrow> sl_pump t = PumpClosed)"

lemma new_slot_ok: "slot_ok cd ctx (new_slot topic)"
  by (simp add: slot_ok_def new_slot_def pending_def)

lemma subseq_snoc_dropD: "subseq (xs @ [x]) ys \<Longrightarrow> subseq xs ys"
  by (metis subseq_order.order_trans subseq_rev_drop_many subseq_order.order_refl)

lemma subseq_snoc_right: "subseq xs ys \<Longrightarrow> subseq xs (ys @ [y])"
  by (rule subseq_rev_drop_many)

lemma subseq_snoc_both: "subseq xs ys \<Longrightarrow> subseq (xs @ [y]) (ys @ [y])"
  by simp

lemma pump_step_ok:
  assumes "pump_step cd ctx b t t'" and "slot_ok cd ctx t"
  shows "slot_ok cd ctx t'"
  using assms
proof (cases rule: pump_step.cases)
  case (pump_undecodable m err)
  with assms(2) show ?thesis
    by (auto simp: slot_ok_def pending_def decodes_to_def intro: subseq_snoc_right)
next
  case (pump_decoded m ev name)
  have "sl_worker t \<noteq> WExited" using pump_decoded assms(2) by (auto simp: slot_ok_def)
  with pump_decoded assms(2) show ?thesis
    by (cases "sl_worker t")
      (auto simp: slot_ok_def pending_def decodes_to_def
        dest: subseq_snoc_both [where y = m])
next
  case (pump_dropped env)
  with assms(2) show ?thesis
    by (auto simp: slot_ok_def pending_def dest: subseq_snoc_dropD [of _ "env_Raw env"]
        simp flip: append_assoc)
qed (auto simp: slot_ok_def pending_def)

lemma processEnvelope_settles:
  "processEnvelope errtext ctx w handle env = (logs, r) \<Longrightarrow> (r = Ack \<longleftrightarrow> handle ctx env = Ret None)"
  by (auto simp: processEnvelope_def split: outcome.splits option.splits)

lemma worker_step_ok:
  assumes "worker_step errtext ctx t t'" and "slot_ok cd ctx t"
  shows "slot_ok cd ctx t'"
  using assms
proof (cases rule: worker_step.cases)
  case (worker_finish env handle oc logs settled)
  with assms(2) processEnvelope_settles [OF worker_finish(4)] show ?thesis
    by (auto simp: slot_ok_def pending_def)
qed (auto simp: slot_ok_def pending_def)

section \<open>The invariant of the group\<close>

definition group_ok :: "'b codec \<Rightarrow> gctx \<Rightarrow> string list \<Rightarrow> 'b group \<Rightarrow> bool" where
  "group_ok cd ctx topics g \<longleftrightarrow>
     (\<forall>t \<in> set (g_slots g). slot_ok cd ctx t) \<and>
     map sl_topic (g_slots g) = take (length (g_slots g)) topics \<and>
     length (g_slots g) \<le> length topics \<and>
     (case g_phase g of
        Fresh \<Rightarrow> g_slots g = []
      | Starting n \<Rightarrow> length (g_slots g) = n
      | Aborting e \<Rightarrow> g_cancelled g
      | Failed e \<Rightarrow> g_cancelled g \<and> wg_zero g
      | Started \<Rightarrow> length (g_slots g) = length topics
      | Stopping \<Rightarrow> g_cancelled g
      | Stopped None \<Rightarrow> wg_zero g
      | Stopped (Some e) \<Rightarrow> g_cancelled g
      | Crashed \<Rightarrow> True)"

lemma new_group_ok: "group_ok cd ctx topics new_group"
  by (simp add: group_ok_def new_group_def)

lemma worker_gone:
  "pump_step cd ctx b t t' \<Longrightarrow> slot_ok cd ctx t \<Longrightarrow> sl_worker t \<noteq> WExited"
  "worker_step errtext ctx t t' \<Longrightarrow> sl_worker t \<noteq> WExited"
  by (auto elim!: pump_stepE worker_stepE simp: slot_ok_def)

lemma step_topic:
  "pump_step cd ctx b t t' \<Longrightarrow> sl_topic t' = sl_topic t"
  "worker_step errtext ctx t t' \<Longrightarrow> sl_topic t' = sl_topic t"
  by (auto elim!: pump_stepE worker_stepE)

lemma group_ok_slot_update:
  assumes ok: "group_ok cd ctx topics g" and "i < length (g_slots g)"
    and "slot_ok cd ctx t" and "sl_topic t = sl_topic (g_slots g ! i)"
    and "sl_worker (g_slots g ! i) = WExited \<Longrightarrow> sl_worker t = WExited"
  shows "group_ok cd ctx topics (g\<lparr>g_slots := (g_slots g)[i := t]\<rparr>)"
proof -
  have topics: "map sl_topic ((g_slots g)[i := t]) = map sl_topic (g_slots g)"
    using assms(2,4) by (simp add: map_update list_update_same_conv)
  have "wg_zero g \<Longrightarrow> wg_zero (g\<lparr>g_slots := (g_slots g)[i := t]\<rparr>)"
    using assms(2,5) by (auto simp: wg_zero_def list_all_length nth_list_update)
  moreover have "\<forall>u \<in> set ((g_slots g)[i := t]). slot_ok cd ctx u"
    using ok assms(3) set_update_subset_insert [of "g_slots g" i t] by (auto simp: group_ok_def)
  ultimately show ?thesis
    using ok topics assms(2) by (auto simp: group_ok_def split: phase.splits option.splits)
qed

lemma consumer_step_ok:
  assumes "consumer_step errtext cd ctx name topics g g'" and "group_ok cd ctx topics g"
  shows "group_ok cd ctx topics g'"
  using assms
proof (induction rule: consumer_step.induct)
  case (start_subscribe g n)
  then show ?case
    by (auto simp: group_ok_def new_slot_ok take_Suc_conv_app_nth) (simp add: new_slot_def)
next
  case (pump g i t)
  have "slot_ok cd ctx (g_slots g ! i)" using pump by (simp add: group_ok_def)
  with pump show ?case by (intro group_ok_slot_update) (auto dest: pump_step_ok worker_gone step_topic)
next
  case (worker g i t)
  have "slot_ok cd ctx (g_slots g ! i)" using worker by (simp add: group_ok_def)
  with worker show ?case by (intro group_ok_slot_update) (auto dest: worker_step_ok worker_gone step_topic)
next
  case (raw_closed i g)
  have "slot_ok cd ctx (g_slots g ! i)" using raw_closed by (simp add: group_ok_def)
  with raw_closed show ?case by (intro group_ok_slot_update) (auto simp: slot_ok_def pending_def)
qed (auto simp: group_ok_def wg_zero_def)

lemma reachable_ok: "consumer_reachable errtext cd ctx name topics g \<Longrightarrow> group_ok cd ctx topics g"
  by (induction rule: rtranclp_induct) (auto simp: new_group_ok intro: consumer_step_ok)

lemma exited_slot: "slot_ok cd ctx t \<Longrightarrow> sl_worker t = WExited \<Longrightarrow> pending t = []"
  by (simp add: slot_ok_def pending_def)

text \<open>
  Once the context is cancelled every topic can drain, whatever the running handler returns:
  without another message, without the client closing the raw channel, and with at most one
  handler call finishing.
\<close>

definition drained_from :: "goerr option outcome \<Rightarrow> 'b slot \<Rightarrow> 'b slot \<Rightarrow> bool" where
  "drained_from oc t t' \<longleftrightarrow> sl_received t' = sl_received t \<and> sl_rawClosed t' = sl_rawClosed t \<and>
     (sl_handled t' = sl_handled t \<or> (\<exists>env. sl_worker t = WHandling env \<and> sl_handled t' = sl_handled t @ [(env, oc)]))"

definition slot_step :: "(goerr \<Rightarrow> string) \<Rightarrow> 'b codec \<Rightarrow> gctx \<Rightarrow> 'b slot \<Rightarrow> 'b slot \<Rightarrow> bool" where
  "slot_step errtext cd ctx t t' \<longleftrightarrow> pump_step cd ctx True t t' \<or> worker_step errtext ctx t t'"

lemma pump_closes:
  "\<exists>t'. (slot_step errtext cd ctx)\<^sup>*\<^sup>* t t' \<and> sl_pump t' = PumpClosed \<and> sl_worker t' = sl_worker t \<and>
     sl_received t' = sl_received t \<and> sl_rawClosed t' = sl_rawClosed t \<and> sl_handled t' = sl_handled t"
proof (cases "sl_pump t")
  case PumpReady
  then have "slot_step errtext cd ctx t (t\<lparr>sl_pump := PumpClosed\<rparr>)"
    by (simp add: slot_step_def pump_ctx_done)
  then show ?thesis by (intro exI [of _ "t\<lparr>sl_pump := PumpClosed\<rparr>"]) auto
next
  case (PumpHolding env)
  let ?t = "t\<lparr>sl_pump := PumpClosed, sl_settled := sl_settled t @ [(env_Raw env, Nack)]\<rparr>"
  have "slot_step errtext cd ctx t ?t" using PumpHolding by (simp add: slot_step_def pump_dropped)
  then show ?thesis by (intro exI [of _ ?t]) auto
qed auto

lemma worker_exits:
  assumes "sl_pump t = PumpClosed"
  shows "\<exists>t'. (slot_step errtext cd ctx)\<^sup>*\<^sup>* t t' \<and> sl_worker t' = WExited \<and> drained_from oc t t'"
proof (cases "sl_worker t")
  case WIdle
  then have "slot_step errtext cd ctx t (t\<lparr>sl_worker := WExited\<rparr>)"
    using assms by (simp add: slot_step_def worker_exit)
  then show ?thesis by (intro exI [of _ "t\<lparr>sl_worker := WExited\<rparr>"]) (auto simp: drained_from_def)
next
  case (WHandling env)
  obtain logs r where p: "processEnvelope errtext ctx (''kafka-consumer:'' @ sl_topic t) (\<lambda>_ _. oc) env = (logs, r)"
    by (metis surj_pair)
  let ?t = "t\<lparr>sl_worker := WIdle, sl_handled := sl_handled t @ [(env, oc)],
             sl_settled := sl_settled t @ [(env_Raw env, r)]\<rparr>"
  have "slot_step errtext cd ctx t ?t"
    using WHandling worker_finish [OF WHandling _ p] by (simp add: slot_step_def)
  moreover have "slot_step errtext cd ctx ?t (?t\<lparr>sl_worker := WExited\<rparr>)"
    using assms worker_exit [of ?t] by (simp add: slot_step_def)
  ultimately show ?thesis
    using WHandling by (intro exI [of _ "?t\<lparr>sl_worker := WExited\<rparr>"]) (auto simp: drained_from_def)
qed (auto simp: drained_from_def intro: exI [of _ t])

lemma slot_drains:
  "\<exists>t'. (slot_step errtext cd ctx)\<^sup>*\<^sup>* t t' \<and> sl_worker t' = WExited \<and> drained_from oc t t'"
proof -
  obtain t1 where t1: "(slot_step errtext cd ctx)\<^sup>*\<^sup>* t t1" "sl_pump t1 = PumpClosed" "sl_worker t1 = sl_worker t"
    "sl_received t1 = sl_received t" "sl_rawClosed t1 = sl_rawClosed t" "sl_handled t1 = sl_handled t"
    using pump_closes [of errtext cd ctx t] by blast
  obtain t2 where "(slot_step errtext cd ctx)\<^sup>*\<^sup>* t1 t2" "sl_worker t2 = WExited" "drained_from oc t1 t2"
    using worker_exits [OF t1(2)] by blast
  with t1 show ?thesis by (intro exI [of _ t2]) (auto simp: drained_from_def)
qed

lemma lift_slot_steps:
  assumes "(slot_step errtext cd ctx)\<^sup>*\<^sup>* (g_slots g ! i) t" and "i < length (g_slots g)"
    and "g_cancelled g" and "g_phase g \<noteq> Crashed"
  shows "(consumer_step errtext cd ctx name topics)\<^sup>*\<^sup>* g (g\<lparr>g_slots := (g_slots g)[i := t]\<rparr>)"
  using assms(1)
proof (induction rule: rtranclp_induct)
  case (step t t')
  let ?g = "g\<lparr>g_slots := (g_slots g)[i := t]\<rparr>"
  have "consumer_step errtext cd ctx name topics ?g (?g\<lparr>g_slots := (g_slots ?g)[i := t']\<rparr>)"
    using step(2) assms(2-4) pump [of ?g i] worker [of ?g i] by (auto simp: slot_step_def)
  then show ?case using step.IH by simp
qed simp

lemma group_drains_upto:
  assumes "g_cancelled g" and "g_phase g \<noteq> Crashed" and "k \<le> length (g_slots g)"
  shows "\<exists>ts. (consumer_step errtext cd ctx name topics)\<^sup>*\<^sup>* g (g\<lparr>g_slots := ts @ drop k (g_slots g)\<rparr>) \<and>
     list_all2 (\<lambda>t t'. drained_from oc t t' \<and> sl_worker t' = WExited) (take k (g_slots g)) ts"
  using assms(3)
proof (induction k)
  case 0
  then show ?case by simp
next
  case (Suc k)
  then obtain ts where ts: "(consumer_step errtext cd ctx name topics)\<^sup>*\<^sup>* g (g\<lparr>g_slots := ts @ drop k (g_slots g)\<rparr>)"
    "list_all2 (\<lambda>t t'. drained_from oc t t' \<and> sl_worker t' = WExited) (take k (g_slots g)) ts" by auto
  let ?g = "g\<lparr>g_slots := ts @ drop k (g_slots g)\<rparr>"
  have len: "length ts = k" using list_all2_lengthD [OF ts(2)] Suc.prems by simp
  have dk: "drop k (g_slots g) = g_slots g ! k # drop (Suc k) (g_slots g)" using Suc.prems by (simp add: Cons_nth_drop_Suc)
  obtain t where t: "(slot_step errtext cd ctx)\<^sup>*\<^sup>* (g_slots g ! k) t" "sl_worker t = WExited" "drained_from oc (g_slots g ! k) t"
    using slot_drains [of errtext cd ctx "g_slots g ! k" oc] by blast
  have "(consumer_step errtext cd ctx name topics)\<^sup>*\<^sup>* ?g (g\<lparr>g_slots := (ts @ [t]) @ drop (Suc k) (g_slots g)\<rparr>)"
    using lift_slot_steps [of errtext cd ctx ?g k t name topics] t(1) assms(1,2) len
    by (simp add: dk nth_append list_update_append)
  moreover have "list_all2 (\<lambda>t t'. drained_from oc t t' \<and> sl_worker t' = WExited) (take (Suc k) (g_slots g)) (ts @ [t])"
    using ts(2) t(2,3) Suc.prems by (simp add: take_Suc_conv_app_nth list_all2_appendI)
  ultimately show ?case using ts(1) by (meson rtranclp_trans)
qed

lemma group_drains:
  assumes "g_cancelled g" and "g_phase g = ph" and "ph \<noteq> Crashed"
  obtains g' where "(consumer_step errtext cd ctx name topics)\<^sup>*\<^sup>* g g'" "g_phase g' = ph" "wg_zero g'"
    "list_all2 (drained_from oc) (g_slots g) (g_slots g')"
proof -
  have "g_phase g \<noteq> Crashed" using assms by simp
  from group_drains_upto [OF assms(1) this order_refl, of errtext cd ctx name topics oc]
  obtain ts where ts: "(consumer_step errtext cd ctx name topics)\<^sup>*\<^sup>* g (g\<lparr>g_slots := ts\<rparr>)"
    "list_all2 (\<lambda>t t'. drained_from oc t t' \<and> sl_worker t' = WExited) (g_slots g) ts" by auto
  have "wg_zero (g\<lparr>g_slots := ts\<rparr>)" "list_all2 (drained_from oc) (g_slots g) ts"
    using ts(2) by (auto simp: wg_zero_def list_all_length list_all2_conv_all_nth)
  with ts(1) assms(2) show thesis using that [of "g\<lparr>g_slots := ts\<rparr>"] by simp
qed

section \<open>Properties\<close>

text \<open>
  C13: Under every interleaving of the forwarding goroutines, the workers and the lifecycle
  hooks, each message received on a topic is settled at most once and is never dropped: the
  messages received are those that were Ack'd or Nack'd plus the at most two in flight. The
  handler sees the decoded events of a topic in the order they were received, each once, and
  the messages Ack'd are, in order, exactly those whose handler call returned nil; an error
  and a panic both end in Nack.
\<close>

theorem consumer_settles_in_order:
  assumes "consumer_reachable errtext cd ctx name topics g" and "t \<in> set (g_slots g)"
  shows "mset (sl_received t) = mset (map fst (sl_settled t)) + mset (pending t) \<and>
    subseq (map (\<lambda>h. env_Raw (fst h)) (sl_handled t) @ pending t) (sl_received t) \<and>
    map fst (filter (\<lambda>s. snd s = Ack) (sl_settled t)) =
      map (\<lambda>h. env_Raw (fst h)) (filter (\<lambda>h. snd h = Ret None) (sl_handled t)) \<and>
    (\<forall>h \<in> set (sl_handled t). cd_Unmarshal cd ctx (env_Raw (fst h)) = Ret (Inr (env_Event (fst h), env_Name (fst h))))"
  using reachable_ok [OF assms(1)] assms(2) by (auto simp: group_ok_def slot_ok_def decodes_to_def)

text \<open>
  C20: A clean stop is a drained stop. When Stop has returned nil, or Start has returned an
  error, every goroutine of the group has ended and every message received has been Ack'd or
  Nack'd; so closing the subscriber afterwards loses nothing. Start returns nil only when every
  topic, in order, has its consumer.
\<close>

theorem consumer_stop_drained:
  assumes "consumer_reachable errtext cd ctx name topics g"
  shows "(g_phase g = Stopped None \<or> (\<exists>e. g_phase g = Failed e) \<longrightarrow>
      (\<forall>t \<in> set (g_slots g). sl_worker t = WExited \<and> sl_pump t = PumpClosed \<and>
         mset (sl_received t) = mset (map fst (sl_settled t)))) \<and>
    (g_phase g = Started \<longrightarrow> map sl_topic (g_slots g) = topics)"
proof -
  have ok: "group_ok cd ctx topics g" by (rule reachable_ok [OF assms])
  have "sl_pump t = PumpClosed \<and> mset (sl_received t) = mset (map fst (sl_settled t))"
    if "t \<in> set (g_slots g)" "sl_worker t = WExited" for t
    using ok that exited_slot [of cd ctx t] by (simp add: group_ok_def slot_ok_def)
  then show ?thesis using ok by (auto simp: group_ok_def wg_zero_def list_all_iff)
qed

text \<open>
  C31: Stop and an aborted Start cannot hang on their own goroutines, because they cancel the
  context. From every reachable state in which one of them waits, and for whatever outcome the
  running handlers have, the goroutines can run to their end so that Stop returns nil and Start
  its Subscribe error: without another message from the broker, without the client closing a
  raw channel, and with no handler call finishing but those already running. Only a
  handler that does not return can keep them waiting.
\<close>

theorem consumer_can_drain:
  assumes "consumer_reachable errtext cd ctx name topics g"
  shows "(g_phase g = Stopping \<longrightarrow>
      (\<exists>g'. (consumer_step errtext cd ctx name topics)\<^sup>*\<^sup>* g g' \<and> g_phase g' = Stopped None \<and>
         list_all2 (drained_from oc) (g_slots g) (g_slots g'))) \<and>
    (\<forall>e. g_phase g = Aborting e \<longrightarrow>
      (\<exists>g'. (consumer_step errtext cd ctx name topics)\<^sup>*\<^sup>* g g' \<and> g_phase g' = Failed e \<and>
         list_all2 (drained_from oc) (g_slots g) (g_slots g')))"
proof (intro conjI impI allI)
  assume ph: "g_phase g = Stopping"
  then have "g_cancelled g" using reachable_ok [OF assms] by (simp add: group_ok_def)
  then obtain g' where g': "(consumer_step errtext cd ctx name topics)\<^sup>*\<^sup>* g g'" "g_phase g' = Stopping" "wg_zero g'"
    "list_all2 (drained_from oc) (g_slots g) (g_slots g')"
    using group_drains [OF _ ph, of errtext cd ctx name topics oc] by blast
  then show "\<exists>g'. (consumer_step errtext cd ctx name topics)\<^sup>*\<^sup>* g g' \<and> g_phase g' = Stopped None \<and>
      list_all2 (drained_from oc) (g_slots g) (g_slots g')"
    using stop_drained [OF g'(2,3)]
    by (intro exI [of _ "g'\<lparr>g_phase := Stopped None\<rparr>"]) (auto intro: rtranclp.rtrancl_into_rtrancl)
next
  fix e assume ph: "g_phase g = Aborting e"
  then have "g_cancelled g" using reachable_ok [OF assms] by (simp add: group_ok_def)
  then obtain g' where g': "(consumer_step errtext cd ctx name topics)\<^sup>*\<^sup>* g g'" "g_phase g' = Aborting e" "wg_zero g'"
    "list_all2 (drained_from oc) (g_slots g) (g_slots g')"
    using group_drains [OF _ ph, of errtext cd ctx name topics oc] by blast
  then show "\<exists>g'. (consumer_step errtext cd ctx name topics)\<^sup>*\<^sup>* g g' \<and> g_phase g' = Failed e \<and>
      list_all2 (drained_from oc) (g_slots g) (g_slots g')"
    using start_aborted [OF g'(2,3)]
    by (intro exI [of _ "g'\<lparr>g_phase := Failed e\<rparr>"]) (auto intro: rtranclp.rtrancl_into_rtrancl)
qed

text \<open>A run for concrete evaluations: one topic, one message in the handler, Stop called.\<close>

definition example_msg :: wm_msg where
  "example_msg = new_message ''e1'' ''e1''"

definition example_envelope :: "unit envelope" where
  "example_envelope = \<lparr>env_Event = example_event ''e1'', env_Name = ''order.placed'', env_Raw = example_msg\<rparr>"

definition example_stopping :: "unit group" where
  "example_stopping = \<lparr>g_phase = Stopping, g_cancelled = True, g_slots =
     [\<lparr>sl_topic = ''orders'', sl_rawClosed = False, sl_pump = PumpReady, sl_worker = WHandling example_envelope,
       sl_received = [example_msg], sl_handled = [], sl_settled = []\<rparr>]\<rparr>"

lemma example_stopping_reachable:
  "consumer_reachable (\<lambda>_. []) example_codec background ''c'' [''orders''] example_stopping"
proof -
  let ?step = "consumer_step (\<lambda>_. []) example_codec background ''c'' [''orders'']"
  let ?g1 = "new_group\<lparr>g_phase := Starting 0\<rparr> :: unit group"
  let ?g2 = "?g1\<lparr>g_phase := Starting 1, g_slots := [new_slot ''orders'']\<rparr>"
  let ?g3 = "?g2\<lparr>g_phase := Started\<rparr>"
  let ?t4 = "(new_slot ''orders'')\<lparr>sl_received := [example_msg], sl_pump := PumpHolding example_envelope\<rparr>"
  let ?t5 = "?t4\<lparr>sl_pump := PumpReady, sl_worker := WHandling example_envelope\<rparr>"
  let ?g4 = "?g3\<lparr>g_slots := [?t4]\<rparr>"
  let ?g5 = "?g4\<lparr>g_slots := [?t5]\<rparr>"
  have 1: "?step new_group ?g1" by (rule start) (simp add: new_group_def)
  have 2: "?step ?g1 ?g2" using start_subscribe [of ?g1 0 "[''orders'']"] by (simp add: new_group_def)
  have 3: "?step ?g2 ?g3" by (rule start_returns) simp
  have "pump_step example_codec background (g_cancelled ?g3) (new_slot ''orders'') ?t4"
    using pump_decoded [of "new_slot ''orders''" example_codec background example_msg "example_event ''e1''" "''order.placed''"]
    by (simp add: new_slot_def example_codec_def example_msg_def example_envelope_def)
  then have 4: "?step ?g3 ?g4" using pump [of ?g3 0 example_codec background ?t4] by simp
  have "pump_step example_codec background (g_cancelled ?g4) ?t4 ?t5"
    by (rule pump_handoff) (simp_all add: new_slot_def)
  then have 5: "?step ?g4 ?g5" using pump [of ?g4 0 example_codec background ?t5] by simp
  have 6: "?step ?g5 (?g5\<lparr>g_phase := Stopping, g_cancelled := True\<rparr>)" by (rule stop) simp
  have "?g5\<lparr>g_phase := Stopping, g_cancelled := True\<rparr> = example_stopping"
    by (simp add: example_stopping_def new_group_def new_slot_def)
  with 6 have "?step ?g5 example_stopping" by simp
  with 1 2 3 4 5 show ?thesis by (meson rtranclp.rtrancl_into_rtrancl rtranclp.rtrancl_refl)
qed

theorem consumer_settles_in_order_witness:
  "mset (sl_received (hd (g_slots example_stopping))) = {#example_msg#} \<and>
   subseq (pending (hd (g_slots example_stopping))) (sl_received (hd (g_slots example_stopping)))"
  using consumer_settles_in_order [OF example_stopping_reachable, of "hd (g_slots example_stopping)"]
  by (simp add: example_stopping_def)

theorem consumer_stop_drained_witness:
  "\<exists>g. consumer_reachable (\<lambda>_. []) example_codec background ''c'' [''orders''] g \<and> g_phase g = Stopped None \<and>
     (\<exists>t r. g_slots g = [t] \<and> sl_received t = [example_msg] \<and> sl_settled t = [(example_msg, r)])"
proof -
  have c: "g_cancelled example_stopping" "g_phase example_stopping = Stopping" by (simp_all add: example_stopping_def)
  obtain g where g: "(consumer_step (\<lambda>_. []) example_codec background ''c'' [''orders''])\<^sup>*\<^sup>* example_stopping g"
    "g_phase g = Stopping" "wg_zero g" "list_all2 (drained_from (Ret None)) (g_slots example_stopping) (g_slots g)"
    using group_drains [OF c, of "\<lambda>_. []" example_codec background "''c''" "[''orders'']" "Ret None"] by blast
  let ?g = "g\<lparr>g_phase := Stopped None\<rparr>"
  have r: "consumer_reachable (\<lambda>_. []) example_codec background ''c'' [''orders''] ?g"
    using example_stopping_reachable g(1) stop_drained [OF g(2,3)] by (meson rtranclp.rtrancl_into_rtrancl rtranclp_trans)
  obtain t where t: "g_slots g = [t]" "sl_received t = [example_msg]"
    using g(4) by (auto simp: example_stopping_def list_all2_Cons1 drained_from_def)
  then have "mset (map fst (sl_settled t)) = {#example_msg#}"
    using consumer_stop_drained [OF r] by auto
  then have "\<exists>r. sl_settled t = [(example_msg, r)]" by (cases "sl_settled t") auto
  with r t show ?thesis by (intro exI [of _ ?g]) simp
qed

theorem consumer_can_drain_witness:
  "\<exists>g' t. (consumer_step (\<lambda>_. []) example_codec background ''c'' [''orders''])\<^sup>*\<^sup>* example_stopping g' \<and>
     g_phase g' = Stopped None \<and> g_slots g' = [t] \<and> sl_received t = [example_msg] \<and> \<not> sl_rawClosed t"
proof -
  have "g_phase example_stopping = Stopping" by (simp add: example_stopping_def)
  with consumer_can_drain [OF example_stopping_reachable, of "Ret None"] obtain g' where
    g': "(consumer_step (\<lambda>_. []) example_codec background ''c'' [''orders''])\<^sup>*\<^sup>* example_stopping g'"
      "g_phase g' = Stopped None" "list_all2 (drained_from (Ret None)) (g_slots example_stopping) (g_slots g')"
    by blast
  from g'(3) obtain t where "g_slots g' = [t]" "sl_received t = [example_msg]" "\<not> sl_rawClosed t"
    by (auto simp: example_stopping_def list_all2_Cons1 drained_from_def)
  with g'(1,2) show ?thesis by blast
qed

end
