(* ===== verification/Auth_Core.thy ===== *)
theory Auth_Core
  imports Prelude
begin

text \<open>
  The types and the contract of the core's \<^verbatim>\<open>ports/auth\<close> that the authentication and
  authorization adapters use: identities, claims, resources, the sentinel errors (constants
  of the core, so a parameter here) and the interface of a token verifier as the locale
  \<open>token_verifier\<close>.
\<close>

section \<open>Identities and claims\<close>

text \<open>A JSON claim: a string, an array, or another shape.\<close>

datatype claim = CStr string | CArr "claim list" | COther string

type_synonym claims = "string \<rightharpoonup> claim"

record identity =
  id_Subject :: string
  id_TenantID :: string
  id_Roles :: "string list"
  id_Claims :: claims

record resource =
  res_Type :: string
  res_ID :: string

text \<open>
  The core's sentinel errors. \<open>auth_lib_ok\<close> is what the core documents: the three token
  sentinels are coded errors, unauthorized and distinct.
\<close>

record auth_lib =
  ErrTokenMissing :: goerr
  ErrTokenInvalid :: goerr
  ErrTokenExpired :: goerr
  ErrForbidden :: goerr
  ErrInvalidAuthorizationRequest :: goerr

definition auth_lib_ok :: "auth_lib \<Rightarrow> bool" where
  "auth_lib_ok A \<longleftrightarrow>
     as_coded (ErrTokenMissing A) = Some CodeUnauthorized \<and>
     as_coded (ErrTokenInvalid A) = Some CodeUnauthorized \<and>
     as_coded (ErrTokenExpired A) = Some CodeUnauthorized \<and>
     \<not> errors_is (ErrTokenInvalid A) (ErrTokenMissing A) \<and> \<not> errors_is (ErrTokenExpired A) (ErrTokenMissing A)"

text \<open>
  The core's \<^verbatim>\<open>WithIdentity\<close> and \<^verbatim>\<open>IdentityFromContext\<close> on a context with further content; an
  identity that was stored is read back.
\<close>

record 'z identity_ctx =
  WithIdentity :: "'z gctx_scheme \<Rightarrow> identity \<Rightarrow> 'z gctx_scheme"
  IdentityFromContext :: "'z gctx_scheme \<Rightarrow> identity option"

definition identity_ctx_ok :: "'z identity_ctx \<Rightarrow> bool" where
  "identity_ctx_ok X \<longleftrightarrow> (\<forall>c i. IdentityFromContext X (WithIdentity X c i) = Some i)"

section \<open>The interface of a token verifier\<close>

text \<open>
  What a client may rely on: an accepted token is not empty and names a subject; a rejection is
  one of the token sentinels, possibly wrapping a cause, or the error of the context.
\<close>

definition token_error :: "auth_lib \<Rightarrow> goerr \<Rightarrow> bool" where
  "token_error A e \<longleftrightarrow> e = ErrTokenMissing A \<or>
     (\<exists>m causes. e = Errorf m (ErrTokenInvalid A # causes) \<or> e = Errorf m (ErrTokenExpired A # causes))"

locale token_verifier =
  fixes A :: auth_lib and verify :: "'z gctx_scheme \<Rightarrow> string \<Rightarrow> goerr + identity"
  assumes accepted: "verify ctx tok = Inr i \<Longrightarrow> tok \<noteq> [] \<and> id_Subject i \<noteq> []"
    and rejected: "verify ctx tok = Inl e \<Longrightarrow> token_error A e \<or> ctx_err ctx = Some e"
begin

lemma rejection_coded:
  assumes "auth_lib_ok A" "verify ctx tok = Inl e" "ctx_err ctx = None"
  shows "as_coded e = Some CodeUnauthorized"
  using rejected [OF assms(2)] assms(1,3) by (auto simp: token_error_def auth_lib_ok_def)

end

text \<open>Sentinels and a context with an identity slot for concrete evaluations.\<close>

definition example_auth :: auth_lib where
  "example_auth = \<lparr>ErrTokenMissing = ErrxNew CodeUnauthorized ''missing'', ErrTokenInvalid = ErrxNew CodeUnauthorized ''invalid'',
     ErrTokenExpired = ErrxNew CodeUnauthorized ''expired'', ErrForbidden = ErrxNew CodeConflict ''forbidden'',
     ErrInvalidAuthorizationRequest = ErrxNew CodeInvalidArgument ''authz''\<rparr>"

record actx = gctx +
  ctx_identity :: "identity option"

definition example_identity_ctx :: "\<lparr>ctx_identity :: identity option\<rparr> identity_ctx" where
  "example_identity_ctx = \<lparr>WithIdentity = (\<lambda>c i. c\<lparr>ctx_identity := Some i\<rparr>), IdentityFromContext = ctx_identity\<rparr>"

lemma example_auth_ok: "auth_lib_ok example_auth" "identity_ctx_ok example_identity_ctx"
  by (simp_all add: auth_lib_ok_def example_auth_def identity_ctx_ok_def example_identity_ctx_def)

end
