(* ===== verification/Jwt.thy ===== *)
theory Jwt
  imports Auth_Core
begin

text \<open>
  The JWT verifier of \<^verbatim>\<open>auth/jwt\<close>: its options (\<^verbatim>\<open>options.go\<close>) and the construction and use of a
  Verifier (\<^verbatim>\<open>verifier.go\<close>). golang-jwt, the elliptic-curve check and the PKIX encoding are the
  fields of \<open>jwt_lib\<close>; what the code relies on of them is \<open>jwt_lib_ok\<close>. Keys are values here, so
  the defensive copies of the code are the identity.
\<close>

section \<open>Keys and options\<close>

datatype curve = P256 | P384 | P521 | OtherCurve string

record rsa_key =
  rsa_N :: "int option"
  rsa_E :: int

record 'p ecdsa_key =
  ec_Curve :: "curve option"
  ec_Point :: 'p

datatype keyFamily = familyNone | familyHMAC | familyRSA | familyECDSA

datatype 'p jwt_key = NoKey | HMACKey bytes | RSAKey rsa_key | ECDSAKey "'p ecdsa_key"

record 'p jwt_config =
  cf_family :: keyFamily
  cf_keyCalls :: nat
  cf_hmacSecret :: bytes
  cf_rsaKey :: "rsa_key option"
  cf_ecdsaKey :: "'p ecdsa_key option"
  cf_allowedAlgs :: "string list"
  cf_allowedAlgsSet :: bool
  cf_issuer :: string
  cf_issuerSet :: bool
  cf_audience :: string
  cf_audienceSet :: bool
  cf_leeway :: duration
  cf_tenantClaim :: string
  cf_rolesClaim :: string

definition jwt_default_config :: "'p jwt_config" where
  "jwt_default_config = \<lparr>cf_family = familyNone, cf_keyCalls = 0, cf_hmacSecret = [], cf_rsaKey = None,
     cf_ecdsaKey = None, cf_allowedAlgs = [], cf_allowedAlgsSet = False, cf_issuer = [], cf_issuerSet = False,
     cf_audience = [], cf_audienceSet = False, cf_leeway = 0, cf_tenantClaim = [], cf_rolesClaim = ''roles''\<rparr>"

type_synonym 'p jwt_option = "'p jwt_config \<Rightarrow> 'p jwt_config"

definition WithHMACSecret :: "bytes \<Rightarrow> 'p jwt_option" where
  "WithHMACSecret secret c =
     c\<lparr>cf_family := familyHMAC, cf_keyCalls := cf_keyCalls c + 1, cf_hmacSecret := secret\<rparr>"

definition WithRSAPublicKey :: "rsa_key option \<Rightarrow> 'p jwt_option" where
  "WithRSAPublicKey key c = c\<lparr>cf_family := familyRSA, cf_keyCalls := cf_keyCalls c + 1, cf_rsaKey := key\<rparr>"

definition WithECDSAPublicKey :: "'p ecdsa_key option \<Rightarrow> 'p jwt_option" where
  "WithECDSAPublicKey key c = c\<lparr>cf_family := familyECDSA, cf_keyCalls := cf_keyCalls c + 1, cf_ecdsaKey := key\<rparr>"

definition WithAllowedAlgorithms :: "string list \<Rightarrow> 'p jwt_option" where
  "WithAllowedAlgorithms algs c = c\<lparr>cf_allowedAlgsSet := True, cf_allowedAlgs := algs\<rparr>"

definition WithIssuer :: "string \<Rightarrow> 'p jwt_option" where
  "WithIssuer issuer c = c\<lparr>cf_issuerSet := True, cf_issuer := issuer\<rparr>"

definition WithAudience :: "string \<Rightarrow> 'p jwt_option" where
  "WithAudience audience c = c\<lparr>cf_audienceSet := True, cf_audience := audience\<rparr>"

definition WithLeeway :: "duration \<Rightarrow> 'p jwt_option" where
  "WithLeeway d c = c\<lparr>cf_leeway := d\<rparr>"

definition WithTenantClaim :: "string \<Rightarrow> 'p jwt_option" where
  "WithTenantClaim name c = (if name \<noteq> [] then c\<lparr>cf_tenantClaim := name\<rparr> else c)"

definition WithRolesClaim :: "string \<Rightarrow> 'p jwt_option" where
  "WithRolesClaim name c = (if name \<noteq> [] then c\<lparr>cf_rolesClaim := name\<rparr> else c)"

text \<open>The options a caller can build: the package keeps its config private.\<close>

datatype 'p jwt_opt = OHMACSecret bytes | ORSAPublicKey "rsa_key option" | OECDSAPublicKey "'p ecdsa_key option"
  | OAllowedAlgorithms "string list" | OIssuer string | OAudience string | OLeeway duration
  | OTenantClaim string | ORolesClaim string

fun opt_fun :: "'p jwt_opt \<Rightarrow> 'p jwt_option" where
  "opt_fun (OHMACSecret s) = WithHMACSecret s"
| "opt_fun (ORSAPublicKey k) = WithRSAPublicKey k"
| "opt_fun (OECDSAPublicKey k) = WithECDSAPublicKey k"
| "opt_fun (OAllowedAlgorithms as) = WithAllowedAlgorithms as"
| "opt_fun (OIssuer i) = WithIssuer i"
| "opt_fun (OAudience a) = WithAudience a"
| "opt_fun (OLeeway d) = WithLeeway d"
| "opt_fun (OTenantClaim n) = WithTenantClaim n"
| "opt_fun (ORolesClaim n) = WithRolesClaim n"

fun opt_kind :: "'p jwt_opt \<Rightarrow> nat" where
  "opt_kind (OHMACSecret s) = 0"
| "opt_kind (ORSAPublicKey k) = 0"
| "opt_kind (OECDSAPublicKey k) = 0"
| "opt_kind (OAllowedAlgorithms as) = 1"
| "opt_kind (OIssuer i) = 2"
| "opt_kind (OAudience a) = 3"
| "opt_kind (OLeeway d) = 4"
| "opt_kind (OTenantClaim n) = 5"
| "opt_kind (ORolesClaim n) = 6"

section \<open>The library\<close>

text \<open>
  What the options handed to golang-jwt set in its parser: \<^verbatim>\<open>WithValidMethods\<close>, \<^verbatim>\<open>WithExpirationRequired\<close>,
  \<^verbatim>\<open>WithTimeFunc\<close> (the reading it gives), \<^verbatim>\<open>WithIssuer\<close>, \<^verbatim>\<open>WithAudience\<close> and \<^verbatim>\<open>WithLeeway\<close>. A field is \<open>None\<close>
  or \<open>False\<close> where the option is not given.
\<close>

record parser_opts =
  po_validMethods :: "string list option"
  po_expirationRequired :: bool
  po_timeFunc :: "time option"
  po_issuer :: "string option"
  po_audience :: "string option"
  po_leeway :: "duration option"

text \<open>
  \<open>jw_Parse\<close> is \<^verbatim>\<open>jwt.ParseWithClaims\<close> with the key the keyfunc returns. The
  others describe a token: its algorithm, whether a key verifies its signature, and the
  registered claims.
\<close>

record 'p jwt_lib =
  jw_Parse :: "parser_opts \<Rightarrow> 'p jwt_key \<Rightarrow> string \<Rightarrow> goerr + claims"
  jw_GetSubject :: "claims \<Rightarrow> goerr + string"
  jw_ErrTokenExpired :: goerr
  jw_alg :: "string \<Rightarrow> string"
  jw_signed :: "'p jwt_key \<Rightarrow> string \<Rightarrow> bool"
  jw_exp :: "claims \<Rightarrow> time option"
  jw_iss :: "claims \<Rightarrow> string option"
  jw_aud :: "claims \<Rightarrow> string list"
  ec_ECDH :: "'p ecdsa_key \<Rightarrow> goerr option"
  x509_Marshal :: "'p ecdsa_key \<Rightarrow> goerr + bytes"
  x509_Parse :: "bytes \<Rightarrow> goerr + 'p jwt_key"

text \<open>
  What golang-jwt documents of a parse that succeeds: the signature verifies under the key; and of
  each option, if it is given: the algorithm is one of the valid methods; an expiry claim is present
  when it is required; an expiry claim that is present is not past at the time of the time
  function, up to the leeway; issuer and audience match. \<^verbatim>\<open>GetSubject\<close> reads the
  \<^verbatim>\<open>sub\<close> claim. A PKIX encoding decodes to the key it was made from.
\<close>

definition jwt_lib_ok :: "'p jwt_lib \<Rightarrow> bool" where
  "jwt_lib_ok J \<longleftrightarrow>
     (\<forall>po k tok cl. jw_Parse J po k tok = Inr cl \<longrightarrow>
        jw_signed J k tok \<and>
        (\<forall>ms. po_validMethods po = Some ms \<longrightarrow> jw_alg J tok \<in> set ms) \<and>
        (po_expirationRequired po \<longrightarrow> jw_exp J cl \<noteq> None) \<and>
        (\<forall>t x. po_timeFunc po = Some t \<and> jw_exp J cl = Some x \<longrightarrow>
           t < x + (case po_leeway po of Some d \<Rightarrow> d | None \<Rightarrow> 0)) \<and>
        (\<forall>i. po_issuer po = Some i \<longrightarrow> jw_iss J cl = Some i) \<and>
        (\<forall>a. po_audience po = Some a \<longrightarrow> a \<in> set (jw_aud J cl))) \<and>
     (\<forall>cl s. jw_GetSubject J cl = Inr s \<and> s \<noteq> [] \<longrightarrow> cl ''sub'' = Some (CStr s)) \<and>
     (\<forall>k der. x509_Marshal J k = Inr der \<longrightarrow> x509_Parse J der = Inr (ECDSAKey k))"

section \<open>Construction\<close>

definition hmacFamilyAlgs :: "string list" where
  "hmacFamilyAlgs = [''HS256'', ''HS384'', ''HS512'']"

definition rsaFamilyAlgs :: "string list" where
  "rsaFamilyAlgs = [''RS256'', ''RS384'', ''RS512'']"

text \<open>A missing entry of the map reads as zero.\<close>

definition hmacKeyBytes :: "string \<Rightarrow> nat" where
  "hmacKeyBytes a = (if a = ''HS256'' then 32 else if a = ''HS384'' then 48 else if a = ''HS512'' then 64 else 0)"

fun maxHMACKeyBytes :: "nat \<Rightarrow> string list \<Rightarrow> nat" where
  "maxHMACKeyBytes flr [] = flr"
| "maxHMACKeyBytes flr (a # as) =
     maxHMACKeyBytes (if hmacKeyBytes a > flr then hmacKeyBytes a else flr) as"

text \<open>\<^verbatim>\<open>big.Int.BitLen\<close> of a positive number.\<close>

fun bit_len :: "nat \<Rightarrow> nat" where
  "bit_len n = (if n = 0 then 0 else Suc (bit_len (n div 2)))"

declare bit_len.simps [simp del]

definition clonePublicKey :: "'p jwt_lib \<Rightarrow> 'p ecdsa_key \<Rightarrow> goerr + 'p ecdsa_key" where
  "clonePublicKey J k =
     (case x509_Marshal J k of
        Inl err \<Rightarrow> Inl (Errorf ''authjwt: cannot encode ECDSA public key'' [err])
      | Inr der \<Rightarrow>
          (case x509_Parse J der of
             Inl err \<Rightarrow> Inl (Errorf ''authjwt: cannot decode ECDSA public key'' [err])
           | Inr (ECDSAKey ec) \<Rightarrow> Inr ec
           | Inr _ \<Rightarrow> Inl (ErrNew ''authjwt: decoded key is not an ECDSA public key'')))"

fun curve_alg :: "curve \<Rightarrow> string option" where
  "curve_alg P256 = Some ''ES256''"
| "curve_alg P384 = Some ''ES384''"
| "curve_alg P521 = Some ''ES512''"
| "curve_alg (OtherCurve _) = None"

definition resolveKey :: "'p jwt_lib \<Rightarrow> 'p jwt_config \<Rightarrow> goerr + string list \<times> 'p jwt_key" where
  "resolveKey J cfg =
     (case cf_family cfg of
        familyHMAC \<Rightarrow> Inr (hmacFamilyAlgs, NoKey)
      | familyRSA \<Rightarrow>
          (case cf_rsaKey cfg of
             None \<Rightarrow> Inl (ErrNew ''authjwt: WithRSAPublicKey requires a non-nil key'')
           | Some k \<Rightarrow>
               (case rsa_N k of
                  None \<Rightarrow> Inl (ErrNew ''authjwt: RSA public key has an invalid modulus'')
                | Some n \<Rightarrow>
                    if n \<le> 0 then Inl (ErrNew ''authjwt: RSA public key has an invalid modulus'')
                    else if bit_len (nat n) < 2048 then
                      Inl (Errorf (''authjwt: RSA modulus is '' @ decimal (bit_len (nat n)) @ '' bits'') [])
                    else if rsa_E k < 3 \<or> rsa_E k mod 2 = 0 then
                      Inl (Errorf (''authjwt: RSA public exponent '' @ format_int (rsa_E k) @ '' is invalid'') [])
                    else Inr (rsaFamilyAlgs, RSAKey k)))
      | familyECDSA \<Rightarrow>
          (case cf_ecdsaKey cfg of
             None \<Rightarrow> Inl (ErrNew ''authjwt: WithECDSAPublicKey requires a non-nil key'')
           | Some k \<Rightarrow>
               (case ec_Curve k of
                  None \<Rightarrow> Inl (ErrNew ''authjwt: ECDSA public key is missing its curve'')
                | Some cu \<Rightarrow>
                    (case curve_alg cu of
                       None \<Rightarrow> Inl (Errorf ''authjwt: unsupported ECDSA curve'' [])
                     | Some alg \<Rightarrow>
                         (case ec_ECDH J k of
                            Some e \<Rightarrow> Inl (Errorf ''authjwt: ECDSA public key is not a valid point on its curve'' [e])
                          | None \<Rightarrow>
                              (case clonePublicKey J k of
                                 Inl e \<Rightarrow> Inl e
                               | Inr copied \<Rightarrow> Inr ([alg], ECDSAKey copied))))))
      | familyNone \<Rightarrow> Inl (ErrNew ''authjwt: no key configured''))"

fun narrow_algs :: "string list \<Rightarrow> string list \<Rightarrow> string list \<Rightarrow> goerr + string list" where
  "narrow_algs familyAlgs narrowed [] = Inr narrowed"
| "narrow_algs familyAlgs narrowed (a # as) =
     (if blank a then Inl (ErrNew ''authjwt: WithAllowedAlgorithms contains an empty algorithm'')
      else if a \<notin> set familyAlgs then
        Inl (Errorf (''authjwt: algorithm '' @ a @ '' is not valid for the configured key family'') [])
      else narrow_algs familyAlgs (if a \<in> set narrowed then narrowed else narrowed @ [a]) as)"

definition effectiveAlgs :: "'p jwt_config \<Rightarrow> string list \<Rightarrow> goerr + string list" where
  "effectiveAlgs cfg familyAlgs =
     (if \<not> cf_allowedAlgsSet cfg then Inr familyAlgs
      else if cf_allowedAlgs cfg = [] then Inl (ErrNew ''authjwt: WithAllowedAlgorithms requires at least one algorithm'')
      else narrow_algs familyAlgs [] (cf_allowedAlgs cfg))"

record 'p jwt_verifier =
  vf_key :: "'p jwt_key"
  vf_parserOpts :: parser_opts
  vf_tenantClaim :: string
  vf_rolesClaim :: string
  vf_now :: "time"

definition jwt_finish :: "'p jwt_config \<Rightarrow> time \<Rightarrow> string list \<Rightarrow> 'p jwt_key \<Rightarrow> goerr + 'p jwt_verifier" where
  "jwt_finish cfg now effective key =
     (if cf_issuerSet cfg \<and> cf_issuer cfg = [] then Inl (ErrNew ''authjwt: WithIssuer requires a non-empty issuer'')
      else if cf_audienceSet cfg \<and> cf_audience cfg = [] then
        Inl (ErrNew ''authjwt: WithAudience requires a non-empty audience'')
      else Inr \<lparr>vf_key = key,
                vf_parserOpts = \<lparr>po_validMethods = Some effective, po_expirationRequired = True, po_timeFunc = Some now,
                   po_issuer = (if cf_issuerSet cfg then Some (cf_issuer cfg) else None),
                   po_audience = (if cf_audienceSet cfg then Some (cf_audience cfg) else None),
                   po_leeway = (if cf_leeway cfg > 0 then Some (cf_leeway cfg) else None)\<rparr>,
                vf_tenantClaim = cf_tenantClaim cfg, vf_rolesClaim = cf_rolesClaim cfg, vf_now = now\<rparr>)"

definition jwt_New_cfg :: "'p jwt_lib \<Rightarrow> time \<Rightarrow> 'p jwt_config \<Rightarrow> goerr + 'p jwt_verifier" where
  "jwt_New_cfg J now cfg =
     (if cf_keyCalls cfg = 0 then Inl (ErrNew ''authjwt: no key configured; set exactly one of WithHMACSecret, WithRSAPublicKey, or WithECDSAPublicKey'')
      else if cf_keyCalls cfg > 1 then Inl (ErrNew ''authjwt: a key was configured more than once; a Verifier accepts exactly one key family, set exactly once'')
      else case resolveKey J cfg of
             Inl err \<Rightarrow> Inl err
           | Inr (familyAlgs, key) \<Rightarrow>
               (case effectiveAlgs cfg familyAlgs of
                  Inl err \<Rightarrow> Inl err
                | Inr effective \<Rightarrow>
                    if cf_family cfg = familyHMAC then
                      (let flr = maxHMACKeyBytes 0 effective
                       in if length (cf_hmacSecret cfg) < flr then
                            Inl (Errorf (''authjwt: HMAC secret is '' @ decimal (length (cf_hmacSecret cfg)) @ '' bytes'') [])
                          else jwt_finish cfg now effective (HMACKey (cf_hmacSecret cfg)))
                    else jwt_finish cfg now effective key))"

text \<open>\<^verbatim>\<open>New\<close>; the clock is read on every use, \<open>now\<close> is its reading at the Verify considered.\<close>

definition jwt_New :: "'p jwt_lib \<Rightarrow> time \<Rightarrow> 'p jwt_opt list \<Rightarrow> goerr + 'p jwt_verifier" where
  "jwt_New J now opts = jwt_New_cfg J now (fold opt_fun opts jwt_default_config)"

section \<open>Verification\<close>

fun string_elems :: "claim list \<Rightarrow> string list" where
  "string_elems [] = []"
| "string_elems (CStr s # es) = s # string_elems es"
| "string_elems (_ # es) = string_elems es"

text \<open>A nil slice and an empty one are both the empty list.\<close>

fun extractRoles :: "claim option \<Rightarrow> string list" where
  "extractRoles (Some (CStr r)) = [r]"
| "extractRoles (Some (CArr r)) = string_elems r"
| "extractRoles _ = []"

definition jwt_identity :: "auth_lib \<Rightarrow> 'p jwt_lib \<Rightarrow> 'p jwt_verifier \<Rightarrow> claims \<Rightarrow> goerr + identity" where
  "jwt_identity A J v cl =
     (case jw_GetSubject J cl of
        Inl err \<Rightarrow> Inl (Errorf ''subject claim is missing, empty, or not a string'' [ErrTokenInvalid A])
      | Inr sub \<Rightarrow>
          if sub = [] then Inl (Errorf ''subject claim is missing, empty, or not a string'' [ErrTokenInvalid A])
          else Inr \<lparr>id_Subject = sub,
                    id_TenantID = (if vf_tenantClaim v \<noteq> [] then
                                     (case cl (vf_tenantClaim v) of Some (CStr t) \<Rightarrow> t | _ \<Rightarrow> [])
                                   else []),
                    id_Roles = extractRoles (cl (vf_rolesClaim v)),
                    id_Claims = cl\<rparr>)"

definition mapVerifyError :: "auth_lib \<Rightarrow> 'p jwt_lib \<Rightarrow> goerr \<Rightarrow> goerr" where
  "mapVerifyError A J err =
     (if errors_is err (jw_ErrTokenExpired J) then Errorf '''' [ErrTokenExpired A, err]
      else Errorf '''' [ErrTokenInvalid A, err])"

definition jwt_Verify ::
  "auth_lib \<Rightarrow> 'p jwt_lib \<Rightarrow> 'p jwt_verifier \<Rightarrow> 'z gctx_scheme \<Rightarrow> string \<Rightarrow> goerr + identity" where
  "jwt_Verify A J v ctx token =
     (if token = [] then Inl (ErrTokenMissing A)
      else case ctx_err ctx of
             Some err \<Rightarrow> Inl err
           | None \<Rightarrow>
               (case jw_Parse J (vf_parserOpts v) (vf_key v) token of
                  Inl err \<Rightarrow> Inl (mapVerifyError A J err)
                | Inr cl \<Rightarrow> jwt_identity A J v cl))"

section \<open>Algorithms and keys\<close>

lemma narrow_algs_Inr:
  "narrow_algs fam acc as = Inr r \<Longrightarrow> set r = set acc \<union> set as \<and> set as \<subseteq> set fam"
proof (induction fam acc as rule: narrow_algs.induct)
  case (2 fam acc a as)
  then show ?case by (fastforce split: if_splits)
qed simp

lemma effectiveAlgs_Inr:
  assumes "effectiveAlgs cfg fam = Inr r" and "fam \<noteq> []"
  shows "set r \<subseteq> set fam \<and> r \<noteq> []"
proof (cases "cf_allowedAlgsSet cfg")
  case True
  then have "narrow_algs fam [] (cf_allowedAlgs cfg) = Inr r" and ne: "cf_allowedAlgs cfg \<noteq> []"
    using assms(1) by (auto simp: effectiveAlgs_def split: if_splits)
  from narrow_algs_Inr [OF this(1)] ne show ?thesis by auto
qed (use assms in \<open>auto simp: effectiveAlgs_def\<close>)

lemma maxHMACKeyBytes_ge:
  "flr \<le> maxHMACKeyBytes flr as \<and> (\<forall>a \<in> set as. hmacKeyBytes a \<le> maxHMACKeyBytes flr as)"
  by (induction flr as rule: maxHMACKeyBytes.induct) (auto split: if_splits)

lemma bit_len_ge: "Suc k \<le> bit_len n \<Longrightarrow> 2 ^ k \<le> n"
proof (induction k arbitrary: n)
  case 0
  then show ?case by (cases "n = 0") (auto simp: bit_len.simps)
next
  case (Suc k)
  then have "n \<noteq> 0" and "Suc k \<le> bit_len (n div 2)" by (auto simp: bit_len.simps [of n] split: if_splits)
  with Suc.IH [of "n div 2"] show ?case by simp
qed

lemma bit_len_2048: "\<not> bit_len n < 2048 \<Longrightarrow> 2 ^ 2047 \<le> n"
  by (rule bit_len_ge) simp

text \<open>What a key has to be for the algorithms accepted with it.\<close>

fun strong_key :: "'p jwt_lib \<Rightarrow> string list \<Rightarrow> 'p jwt_key \<Rightarrow> bool" where
  "strong_key J algs NoKey = False"
| "strong_key J algs (HMACKey s) \<longleftrightarrow>
     set algs \<subseteq> {''HS256'', ''HS384'', ''HS512''} \<and> (\<forall>a \<in> set algs. hmacKeyBytes a \<le> length s) \<and> 32 \<le> length s"
| "strong_key J algs (RSAKey k) \<longleftrightarrow>
     set algs \<subseteq> {''RS256'', ''RS384'', ''RS512''} \<and> (\<exists>n. rsa_N k = Some n \<and> 2 ^ 2047 \<le> n) \<and> 3 \<le> rsa_E k \<and> odd (rsa_E k)"
| "strong_key J algs (ECDSAKey k) \<longleftrightarrow>
     (\<exists>cu a. ec_Curve k = Some cu \<and> curve_alg cu = Some a \<and> set algs = {a}) \<and> ec_ECDH J k = None"

lemma clone_same:
  "jwt_lib_ok J \<Longrightarrow> clonePublicKey J k = Inr k' \<Longrightarrow> k' = k"
  by (auto simp: clonePublicKey_def jwt_lib_ok_def split: sum.splits jwt_key.splits)

lemma resolveKey_strong:
  assumes "resolveKey J cfg = Inr (fam, key)" and "jwt_lib_ok J"
  shows "(cf_family cfg = familyHMAC \<and> fam = hmacFamilyAlgs) \<or>
    (cf_family cfg \<noteq> familyHMAC \<and> fam \<noteq> [] \<and> (\<forall>algs. set algs \<subseteq> set fam \<and> algs \<noteq> [] \<longrightarrow> strong_key J algs key))"
proof (cases "cf_family cfg")
  case familyRSA
  then obtain k n where k: "rsa_N k = Some n" "\<not> n \<le> 0" "\<not> bit_len (nat n) < 2048" "\<not> (rsa_E k < 3 \<or> rsa_E k mod 2 = 0)"
    "fam = rsaFamilyAlgs" "key = RSAKey k"
    using assms(1) by (auto simp: resolveKey_def split: option.splits if_splits)
  from bit_len_2048 [OF k(3)] k(2) have "2 ^ 2047 \<le> n" by (simp add: le_nat_iff)
  with k familyRSA show ?thesis by (auto simp: rsaFamilyAlgs_def)
next
  case familyECDSA
  then obtain k cu a k' where k: "ec_Curve k = Some cu" "curve_alg cu = Some a" "ec_ECDH J k = None"
    "clonePublicKey J k = Inr k'" "fam = [a]" "key = ECDSAKey k'"
    using assms(1) by (auto simp: resolveKey_def split: option.splits sum.splits)
  from clone_same [OF assms(2) k(4)] k familyECDSA show ?thesis
    by (auto simp: subset_singleton_iff)
qed (use assms(1) in \<open>auto simp: resolveKey_def\<close>)

lemma jwt_finish_Inr:
  assumes "jwt_finish cfg now algs key = Inr v"
  shows "vf_key v = key" "po_validMethods (vf_parserOpts v) = Some algs" "vf_now v = now"
    "\<forall>i. cf_issuerSet cfg \<longrightarrow> po_issuer (vf_parserOpts v) = Some (cf_issuer cfg) \<and> cf_issuer cfg \<noteq> []"
    "\<forall>i. cf_audienceSet cfg \<longrightarrow> po_audience (vf_parserOpts v) = Some (cf_audience cfg) \<and> cf_audience cfg \<noteq> []"
    "po_leeway (vf_parserOpts v) = (if cf_leeway cfg > 0 then Some (cf_leeway cfg) else None)"
    "vf_tenantClaim v = cf_tenantClaim cfg" "vf_rolesClaim v = cf_rolesClaim cfg"
    "po_expirationRequired (vf_parserOpts v)" "po_timeFunc (vf_parserOpts v) = Some now"
  using assms by (auto simp: jwt_finish_def split: if_splits)

lemma hmac_strong:
  assumes "set algs \<subseteq> set hmacFamilyAlgs" "algs \<noteq> []" "\<not> length s < maxHMACKeyBytes 0 algs"
  shows "strong_key J algs (HMACKey s)"
proof -
  have le: "\<forall>a \<in> set algs. hmacKeyBytes a \<le> length s"
    using maxHMACKeyBytes_ge [of 0 algs] assms(3) by (meson linorder_not_less order_trans)
  obtain a where a: "a \<in> set algs" using assms(2) by (cases algs) auto
  then have "32 \<le> hmacKeyBytes a" using assms(1) by (auto simp: hmacFamilyAlgs_def hmacKeyBytes_def)
  with le a assms(1) show ?thesis by (fastforce simp: hmacFamilyAlgs_def)
qed

lemma jwt_New_cfg_Inr:
  assumes "jwt_New_cfg J now cfg = Inr v" and "jwt_lib_ok J"
  shows "strong_key J (the (po_validMethods (vf_parserOpts v))) (vf_key v) \<and> cf_keyCalls cfg = 1 \<and>
    (\<exists>algs key. jwt_finish cfg now algs key = Inr v)"
proof -
  have calls: "cf_keyCalls cfg = 1" using assms(1) by (auto simp: jwt_New_cfg_def split: if_splits)
  obtain fam key algs where r: "resolveKey J cfg = Inr (fam, key)" "effectiveAlgs cfg fam = Inr algs"
    using assms(1) calls by (auto simp: jwt_New_cfg_def split: sum.splits prod.splits)
  show ?thesis
  proof (cases "cf_family cfg = familyHMAC")
    case True
    with resolveKey_strong [OF r(1) assms(2)] have fam: "fam = hmacFamilyAlgs" by simp
    then have "set algs \<subseteq> set hmacFamilyAlgs \<and> algs \<noteq> []"
      using effectiveAlgs_Inr [OF r(2)] by (simp add: hmacFamilyAlgs_def)
    moreover have "\<not> length (cf_hmacSecret cfg) < maxHMACKeyBytes 0 algs"
      and fin: "jwt_finish cfg now algs (HMACKey (cf_hmacSecret cfg)) = Inr v"
      using assms(1) calls r True by (auto simp: jwt_New_cfg_def Let_def split: if_splits)
    ultimately have "strong_key J algs (HMACKey (cf_hmacSecret cfg))" by (intro hmac_strong) auto
    with fin calls jwt_finish_Inr(1,2) [OF fin] show ?thesis by auto
  next
    case False
    have fin: "jwt_finish cfg now algs key = Inr v"
      using assms(1) calls r False by (auto simp: jwt_New_cfg_def)
    from resolveKey_strong [OF r(1) assms(2)] False effectiveAlgs_Inr [OF r(2)]
    have "strong_key J algs key" by auto
    with fin calls jwt_finish_Inr(1,2) [OF fin] show ?thesis by auto
  qed
qed

section \<open>Option order\<close>

lemma opt_fun_commute:
  assumes "opt_kind x \<noteq> opt_kind y"
  shows "opt_fun x \<circ> opt_fun y = opt_fun y \<circ> opt_fun x"
proof
  fix c show "(opt_fun x \<circ> opt_fun y) c = (opt_fun y \<circ> opt_fun x) c"
    using assms
    by (cases x; cases y)
      (simp_all add: WithHMACSecret_def WithRSAPublicKey_def WithECDSAPublicKey_def WithAllowedAlgorithms_def
        WithIssuer_def WithAudience_def WithLeeway_def WithTenantClaim_def WithRolesClaim_def)
qed

lemma keyCalls_opt: "cf_keyCalls (opt_fun x c) = cf_keyCalls c + (if opt_kind x = 0 then 1 else 0)"
  by (cases x) (simp_all add: WithHMACSecret_def WithRSAPublicKey_def WithECDSAPublicKey_def WithAllowedAlgorithms_def
      WithIssuer_def WithAudience_def WithLeeway_def WithTenantClaim_def WithRolesClaim_def)

lemma keyCalls_fold:
  "cf_keyCalls (fold opt_fun opts c) = cf_keyCalls c + length (filter (\<lambda>x. opt_kind x = 0) opts)"
  by (induction opts arbitrary: c) (auto simp: keyCalls_opt)

section \<open>Properties\<close>

lemma strong_key_one: "strong_key J algs k \<Longrightarrow> a \<in> set algs \<Longrightarrow> strong_key J [a] k"
  by (cases k) auto

lemma jwt_New_cfg_algs:
  assumes "jwt_New_cfg J now cfg = Inr v" and "jwt_lib_ok J"
  shows "the (po_validMethods (vf_parserOpts v)) \<noteq> []"
proof -
  obtain fam key algs k' where r: "resolveKey J cfg = Inr (fam, key)" "effectiveAlgs cfg fam = Inr algs"
    "jwt_finish cfg now algs k' = Inr v"
    using assms(1) by (auto simp: jwt_New_cfg_def Let_def split: sum.splits prod.splits if_splits)
  have "fam \<noteq> []" using resolveKey_strong [OF r(1) assms(2)] by (auto simp: hmacFamilyAlgs_def)
  with effectiveAlgs_Inr [OF r(2)] jwt_finish_Inr(2) [OF r(3)] show ?thesis by simp
qed

lemma jwt_New_one_key:
  assumes "length (filter (\<lambda>x. opt_kind x = 0) opts) \<noteq> 1"
  shows "jwt_New J now opts = (if filter (\<lambda>x. opt_kind x = 0) opts = []
     then Inl (ErrNew ''authjwt: no key configured; set exactly one of WithHMACSecret, WithRSAPublicKey, or WithECDSAPublicKey'')
     else Inl (ErrNew ''authjwt: a key was configured more than once; a Verifier accepts exactly one key family, set exactly once''))"
  using assms by (auto simp: jwt_New_def jwt_New_cfg_def keyCalls_fold jwt_default_config_def length_0_conv)
      (metis (no_types, lifting) One_nat_def length_greater_0_conv less_one nat_neq_iff not_less_eq)

text \<open>
  The order of the options never matters. If no two different options set the same
  thing (any number of key options may be given), every permutation of the options gives New
  the same result, the error cases included.
\<close>

lemma jwt_option_order_irrelevant:
  assumes "mset opts = mset opts'"
    and "\<forall>x \<in> set opts. \<forall>y \<in> set opts. x \<noteq> y \<and> opt_kind x = opt_kind y \<longrightarrow> opt_kind x = 0"
  shows "jwt_New J now opts = jwt_New J now opts'"
proof (cases "length (filter (\<lambda>x. opt_kind x = 0) opts) = 1")
  case True
  then obtain k where k: "filter (\<lambda>x. opt_kind x = 0) opts = [k]" by (auto simp: length_Suc_conv)
  have only: "x = k" if "x \<in> set opts" "opt_kind x = 0" for x
  proof -
    have "x \<in> set (filter (\<lambda>x. opt_kind x = 0) opts)" using that by simp
    then show ?thesis by (simp add: k)
  qed
  have "opt_fun x \<circ> opt_fun y = opt_fun y \<circ> opt_fun x" if "x \<in> set opts" "y \<in> set opts" for x y
  proof (cases "opt_kind x = opt_kind y")
    case True
    with that assms(2) only have "x = y" by metis
    then show ?thesis by simp
  qed (rule opt_fun_commute)
  then have "fold opt_fun opts = fold opt_fun opts'" using assms(1) by (rule fold_multiset_equiv)
  then show ?thesis by (simp add: jwt_New_def)
next
  case False
  have "mset (filter (\<lambda>x. opt_kind x = 0) opts) = mset (filter (\<lambda>x. opt_kind x = 0) opts')"
    using assms(1) by simp
  then have "length (filter (\<lambda>x. opt_kind x = 0) opts) = length (filter (\<lambda>x. opt_kind x = 0) opts')"
    by (rule mset_eq_length)
  then show ?thesis using False by (auto simp: jwt_New_one_key)
qed

text \<open>
  A Verifier exists only with a key strong enough for every algorithm it accepts, of one
  family: an HMAC secret at least as long as the hash of each accepted HS algorithm, an RSA
  modulus of at least 2048 bits with an odd exponent from 3 on, or a point on a supported
  curve with the one algorithm of that curve. The accepted algorithms are never empty and
  never cross families, whatever WithAllowedAlgorithms says.
\<close>

lemma jwt_New_strong_key:
  assumes "jwt_New J now opts = Inr v" and "jwt_lib_ok J"
  shows "strong_key J (the (po_validMethods (vf_parserOpts v))) (vf_key v) \<and> the (po_validMethods (vf_parserOpts v)) \<noteq> [] \<and>
    length (filter (\<lambda>x. opt_kind x = 0) opts) = 1"
proof -
  let ?cfg = "fold opt_fun opts jwt_default_config"
  have new: "jwt_New_cfg J now ?cfg = Inr v" using assms(1) by (simp add: jwt_New_def)
  note facts = jwt_New_cfg_Inr [OF new assms(2)]
  have "length (filter (\<lambda>x. opt_kind x = 0) opts) = 1"
    using facts by (simp add: keyCalls_fold jwt_default_config_def)
  moreover have "the (po_validMethods (vf_parserOpts v)) \<noteq> []"
    using jwt_New_cfg_algs [OF new assms(2)] .
  ultimately show ?thesis using facts by simp
qed

text \<open>
  C12: An identity comes only from a genuine token. When Verify of a constructed Verifier
  accepts, the token is not empty, the context is live, the signature verifies under the
  Verifier's own key with an algorithm of that key's family, the token has an expiry that is
  not past (up to the configured leeway), the issuer and audience are the configured ones if any were, and the
  identity is the one of the token: the non-empty subject claim, and the claims themselves.
\<close>

theorem jwt_Verify_sound:
  assumes "jwt_New J now opts = Inr v" and "jwt_lib_ok J" and "jwt_Verify A J v ctx token = Inr i"
  shows "token \<noteq> [] \<and> ctx_err ctx = None \<and> jw_signed J (vf_key v) token \<and>
    strong_key J [jw_alg J token] (vf_key v) \<and> id_Subject i \<noteq> [] \<and> id_Claims i ''sub'' = Some (CStr (id_Subject i)) \<and>
    (\<exists>x. jw_exp J (id_Claims i) = Some x \<and> now < x + max 0 (cf_leeway (fold opt_fun opts jwt_default_config))) \<and>
    (cf_issuerSet (fold opt_fun opts jwt_default_config) \<longrightarrow>
       jw_iss J (id_Claims i) = Some (cf_issuer (fold opt_fun opts jwt_default_config)) \<and> jw_iss J (id_Claims i) \<noteq> Some []) \<and>
    (cf_audienceSet (fold opt_fun opts jwt_default_config) \<longrightarrow>
       cf_audience (fold opt_fun opts jwt_default_config) \<in> set (jw_aud J (id_Claims i)))"
proof -
  let ?cfg = "fold opt_fun opts jwt_default_config"
  have new: "jwt_New_cfg J now ?cfg = Inr v" using assms(1) by (simp add: jwt_New_def)
  obtain algs key where fin: "jwt_finish ?cfg now algs key = Inr v"
    using jwt_New_cfg_Inr [OF new assms(2)] by blast
  note f = jwt_finish_Inr [OF fin]
  obtain cl where cl: "jw_Parse J (vf_parserOpts v) (vf_key v) token = Inr cl" "jwt_identity A J v cl = Inr i"
    "token \<noteq> []" "ctx_err ctx = None"
    using assms(3) by (auto simp: jwt_Verify_def split: if_splits option.splits sum.splits)
  have parsed: "jw_signed J (vf_key v) token" "jw_alg J token \<in> set algs" "jw_exp J cl \<noteq> None"
    "\<forall>x. jw_exp J cl = Some x \<longrightarrow> now < x + (case po_leeway (vf_parserOpts v) of Some d \<Rightarrow> d | None \<Rightarrow> 0)"
    "\<forall>i. po_issuer (vf_parserOpts v) = Some i \<longrightarrow> jw_iss J cl = Some i"
    "\<forall>a. po_audience (vf_parserOpts v) = Some a \<longrightarrow> a \<in> set (jw_aud J cl)"
    using assms(2) cl(1) f(2,9,10) unfolding jwt_lib_ok_def by metis+
  have sub: "id_Subject i \<noteq> []" "jw_GetSubject J cl = Inr (id_Subject i)" "id_Claims i = cl"
    using cl(2) by (auto simp: jwt_identity_def split: sum.splits if_splits)
  then have "cl ''sub'' = Some (CStr (id_Subject i))" using assms(2) unfolding jwt_lib_ok_def by blast
  moreover have "strong_key J [jw_alg J token] (vf_key v)"
    using strong_key_one [OF _ parsed(2)] jwt_New_cfg_Inr [OF new assms(2)] f(2) by auto
  moreover have "(case po_leeway (vf_parserOpts v) of Some d \<Rightarrow> d | None \<Rightarrow> 0) = max 0 (cf_leeway ?cfg)"
    by (simp add: f(6))
  ultimately show ?thesis using parsed f(4,5) sub cl(3,4) by auto
qed

text \<open>The verifier implements the interface of the core.\<close>

lemma jwt_identity_Inl: "jwt_identity A J v cl = Inl e \<Longrightarrow> token_error A e"
  by (auto simp: jwt_identity_def token_error_def split: sum.splits if_splits)

interpretation jwt: token_verifier A "jwt_Verify A J v" for A J v
proof unfold_locales
  fix ctx :: "'b gctx_scheme" and tok i
  assume "jwt_Verify A J v ctx tok = Inr i"
  then show "tok \<noteq> [] \<and> id_Subject i \<noteq> []"
    by (auto simp: jwt_Verify_def jwt_identity_def split: if_splits option.splits sum.splits)
next
  fix ctx :: "'b gctx_scheme" and tok e
  assume "jwt_Verify A J v ctx tok = Inl e"
  then show "token_error A e \<or> ctx_err ctx = Some e"
    by (auto simp: jwt_Verify_def mapVerifyError_def token_error_def split: if_splits option.splits sum.splits
        dest: jwt_identity_Inl [unfolded token_error_def])
qed

text \<open>A library with one genuine token for concrete evaluations.\<close>

definition example_claims :: claims where
  "example_claims = [''sub'' \<mapsto> CStr ''u1'', ''roles'' \<mapsto> CArr [CStr ''admin'', COther ''7'']]"

definition example_jwt :: "unit jwt_lib" where
  "example_jwt = \<lparr>jw_Parse = (\<lambda>po k tok.
       if tok = ''good'' \<and> (case po_validMethods po of Some ms \<Rightarrow> ''HS256'' \<in> set ms | None \<Rightarrow> True) \<and>
          k = HMACKey (replicate 32 CHR ''k'') \<and>
          (case po_timeFunc po of Some t \<Rightarrow> t | None \<Rightarrow> 0) < 100 + (case po_leeway po of Some d \<Rightarrow> d | None \<Rightarrow> 0) \<and>
          po_issuer po \<in> {None, Some ''me''} \<and> po_audience po \<in> {None, Some ''svc''}
       then Inr example_claims else Inl (ErrNew ''token is malformed'')),
     jw_GetSubject = (\<lambda>cl. case cl ''sub'' of Some (CStr s) \<Rightarrow> Inr s | None \<Rightarrow> Inr [] | _ \<Rightarrow> Inl (ErrNew ''sub'')),
     jw_ErrTokenExpired = ErrNew ''token is expired'', jw_alg = (\<lambda>_. ''HS256''),
     jw_signed = (\<lambda>k tok. k = HMACKey (replicate 32 CHR ''k'') \<and> tok = ''good''), jw_exp = (\<lambda>_. Some 100),
     jw_iss = (\<lambda>_. Some ''me''), jw_aud = (\<lambda>_. [''svc'']), ec_ECDH = (\<lambda>_. None),
     x509_Marshal = (\<lambda>_. Inl (ErrNew ''none'')), x509_Parse = (\<lambda>_. Inl (ErrNew ''none''))\<rparr>"

lemma example_jwt_ok: "jwt_lib_ok example_jwt"
  by (auto simp: jwt_lib_ok_def example_jwt_def split: option.splits claim.splits if_splits)

definition example_opts :: "unit jwt_opt list" where
  "example_opts = [OIssuer ''me'', OHMACSecret (replicate 32 CHR ''k''), OAllowedAlgorithms [''HS256'']]"

definition example_verifier :: "unit jwt_verifier" where
  "example_verifier = \<lparr>vf_key = HMACKey (replicate 32 CHR ''k''),
     vf_parserOpts = \<lparr>po_validMethods = Some [''HS256''], po_expirationRequired = True, po_timeFunc = Some 50, po_issuer = Some ''me'', po_audience = None, po_leeway = None\<rparr>,
     vf_tenantClaim = [], vf_rolesClaim = ''roles'', vf_now = 50\<rparr>"

lemmas opt_defs = WithHMACSecret_def WithAllowedAlgorithms_def WithIssuer_def jwt_default_config_def

lemma example_new: "jwt_New example_jwt 50 example_opts = Inr example_verifier"
  by (simp add: jwt_New_def example_opts_def opt_defs jwt_New_cfg_def resolveKey_def effectiveAlgs_def hmacFamilyAlgs_def
      ascii_space_def space_2_def space_3_def hmacKeyBytes_def jwt_finish_def example_verifier_def Let_def)

lemma example_accepts:
  "jwt_Verify example_auth example_jwt example_verifier background ''good'' =
     Inr \<lparr>id_Subject = ''u1'', id_TenantID = [], id_Roles = [''admin''], id_Claims = example_claims\<rparr>"
  by (simp add: jwt_Verify_def jwt_identity_def example_jwt_def example_verifier_def example_claims_def background_def)

theorem jwt_Verify_sound_witness:
  "jw_signed example_jwt (vf_key example_verifier) ''good'' \<and> example_claims ''sub'' = Some (CStr ''u1'')"
  using jwt_Verify_sound [OF example_new example_jwt_ok example_accepts] by simp

end
