(* ===== verification/Authmw.thy ===== *)
theory Authmw
  imports Auth_Core Jwt "HOL-Library.AList"
begin

text \<open>
  The bearer-authentication middleware of \<^verbatim>\<open>transport/http/stdlib/authmw\<close>. A handler is a function
  on the response so far and on a state that stands for everything else the program does. The core's \<^verbatim>\<open>httpx.WriteJSON\<close> is the
  parameter \<open>render\<close>, which gives the status and body written for an error; the verifier is
  used through its interface \<open>token_verifier\<close> and through the JWT verifier in particular.
\<close>

section \<open>Requests and responses\<close>

text \<open>\<^verbatim>\<open>Header.Values\<close> yields the values of a header in order, none when absent.\<close>

record 'z request =
  rq_values :: "string \<Rightarrow> string list"
  rq_ctx :: "'z gctx_scheme"

text \<open>
  A \<^verbatim>\<open>ResponseWriter\<close>: the header map, what the first WriteHeader has sent (the status and the headers at
  that time; a later one has no effect), and the body written.
\<close>

record response =
  rs_headers :: "(string \<times> string) list"
  rs_sent :: "(nat \<times> (string \<times> string) list) option"
  rs_body :: bytes

definition empty_response :: response where
  "empty_response = \<lparr>rs_headers = [], rs_sent = None, rs_body = []\<rparr>"

definition WriteHeader :: "nat \<Rightarrow> response \<Rightarrow> response" where
  "WriteHeader code w = (if rs_sent w = None then w\<lparr>rs_sent := Some (code, rs_headers w)\<rparr> else w)"

type_synonym ('z, 's) handler = "'z request \<Rightarrow> response \<times> 's \<Rightarrow> response \<times> 's"

text \<open>\<^verbatim>\<open>strings.Cut(s, " ")\<close>, \<^verbatim>\<open>strings.EqualFold\<close> against an ASCII word and \<^verbatim>\<open>strings.ContainsAny\<close>.\<close>

fun cut_space :: "string \<Rightarrow> (string \<times> string) option" where
  "cut_space [] = None"
| "cut_space (c # cs) = (if c = CHR '' '' then Some ([], cs) else map_option (\<lambda>(a, b). (c # a, b)) (cut_space cs))"

definition lower :: "char \<Rightarrow> nat" where
  "lower c = (let n = of_char c in if 65 \<le> n \<and> n \<le> 90 then n + 32 else n)"

definition equal_fold :: "string \<Rightarrow> string \<Rightarrow> bool" where
  "equal_fold a b \<longleftrightarrow> map lower a = map lower b"

definition contains_any :: "string \<Rightarrow> string \<Rightarrow> bool" where
  "contains_any s chars \<longleftrightarrow> list_ex (\<lambda>c. c \<in> set chars) s"

definition whitespace :: string where
  "whitespace = [CHR '' '', CHR 0x09, CHR 0x0D, CHR 0x0A]"

section \<open>The middleware\<close>

definition defaultBearerExtractor :: "auth_lib \<Rightarrow> 'z request \<Rightarrow> goerr + string" where
  "defaultBearerExtractor A r =
     (case rq_values r ''Authorization'' of
        [value] \<Rightarrow>
          (case cut_space value of
             None \<Rightarrow> Inl (ErrTokenMissing A)
           | Some (scheme, token) \<Rightarrow>
               if \<not> equal_fold scheme ''Bearer'' \<or> token = [] \<or> contains_any token whitespace
               then Inl (ErrTokenMissing A) else Inr token)
      | _ \<Rightarrow> Inl (ErrTokenMissing A))"

definition write_json :: "(goerr \<Rightarrow> nat \<times> bytes) \<Rightarrow> goerr \<Rightarrow> response \<Rightarrow> response" where
  "write_json render e w = (WriteHeader (fst (render e)) w)\<lparr>rs_body := rs_body w @ snd (render e)\<rparr>"

definition set_header :: "string \<Rightarrow> string \<Rightarrow> response \<Rightarrow> response" where
  "set_header k v w = w\<lparr>rs_headers := AList.update k v (rs_headers w)\<rparr>"

definition defaultErrorResponder ::
  "auth_lib \<Rightarrow> (goerr \<Rightarrow> nat \<times> bytes) \<Rightarrow> goerr \<Rightarrow> response \<Rightarrow> response" where
  "defaultErrorResponder A render err w =
     (case as_coded err of
        None \<Rightarrow> write_json render (ErrxNew CodeUnknown ''internal error'') w
      | Some code \<Rightarrow>
          let w1 = (if code = CodeUnauthorized then
                      (if errors_is err (ErrTokenMissing A) then set_header ''WWW-Authenticate'' ''Bearer'' w
                       else set_header ''WWW-Authenticate'' ''Bearer error=\"invalid_token\"'' w)
                    else w)
          in write_json render err w1)"

record ('z, 's) mw_config =
  mw_extractor :: "'z request \<Rightarrow> goerr + string"
  mw_responder :: "'z request \<Rightarrow> goerr \<Rightarrow> response \<times> 's \<Rightarrow> response \<times> 's"

definition mw_newConfig :: "auth_lib \<Rightarrow> (goerr \<Rightarrow> nat \<times> bytes) \<Rightarrow> ('z, 's) mw_config" where
  "mw_newConfig A render =
     \<lparr>mw_extractor = defaultBearerExtractor A, mw_responder = (\<lambda>_ err (w, st). (defaultErrorResponder A render err w, st))\<rparr>"

definition WithTokenExtractor ::
  "('z request \<Rightarrow> goerr + string) option \<Rightarrow> ('z, 's) mw_config \<Rightarrow> ('z, 's) mw_config" where
  "WithTokenExtractor fn c = (case fn of Some f \<Rightarrow> c\<lparr>mw_extractor := f\<rparr> | None \<Rightarrow> c)"

definition WithErrorResponder ::
  "('z request \<Rightarrow> goerr \<Rightarrow> response \<times> 's \<Rightarrow> response \<times> 's) option \<Rightarrow> ('z, 's) mw_config \<Rightarrow> ('z, 's) mw_config" where
  "WithErrorResponder fn c = (case fn of Some f \<Rightarrow> c\<lparr>mw_responder := f\<rparr> | None \<Rightarrow> c)"

text \<open>A verifier argument: a nil interface, a TokenVerifierFunc that may be nil, or another one.\<close>

datatype 'z verifier_arg = NilVerifier
  | VerifierFunc "('z gctx_scheme \<Rightarrow> string \<Rightarrow> goerr + identity) option"
  | OtherVerifier "'z gctx_scheme \<Rightarrow> string \<Rightarrow> goerr + identity"

fun verifier_of :: "'z verifier_arg \<Rightarrow> ('z gctx_scheme \<Rightarrow> string \<Rightarrow> goerr + identity) option" where
  "verifier_of NilVerifier = None"
| "verifier_of (VerifierFunc f) = f"
| "verifier_of (OtherVerifier f) = Some f"

definition ErrNilVerifier :: goerr where
  "ErrNilVerifier = ErrNew ''authmw: verifier must be a non-nil auth.TokenVerifier''"

definition mw_handler ::
  "auth_lib \<Rightarrow> 'z identity_ctx \<Rightarrow> ('z, 's) mw_config \<Rightarrow> ('z gctx_scheme \<Rightarrow> string \<Rightarrow> goerr + identity) \<Rightarrow>
   ('z, 's) handler \<Rightarrow> ('z, 's) handler" where
  "mw_handler A X cfg verify nxt r w =
     (case mw_extractor cfg r of
        Inl err \<Rightarrow> mw_responder cfg r err w
      | Inr token \<Rightarrow>
          if token = [] then mw_responder cfg r (ErrTokenMissing A) w
          else case verify (rq_ctx r) token of
                 Inl err \<Rightarrow> mw_responder cfg r err w
               | Inr i \<Rightarrow> nxt (r\<lparr>rq_ctx := WithIdentity X (rq_ctx r) i\<rparr>) w)"

definition mw_New ::
  "auth_lib \<Rightarrow> 'z identity_ctx \<Rightarrow> (goerr \<Rightarrow> nat \<times> bytes) \<Rightarrow> 'z verifier_arg \<Rightarrow>
   (('z, 's) mw_config \<Rightarrow> ('z, 's) mw_config) list \<Rightarrow> goerr + (('z, 's) handler \<Rightarrow> ('z, 's) handler)" where
  "mw_New A X render verifier opts =
     (case verifier_of verifier of
        None \<Rightarrow> Inl ErrNilVerifier
      | Some verify \<Rightarrow> Inr (mw_handler A X (fold (\<lambda>opt c. opt c) opts (mw_newConfig A render)) verify))"

section \<open>The extractor\<close>

lemma cut_space_Some: "cut_space s = Some (a, b) \<longleftrightarrow> s = a @ CHR '' '' # b \<and> CHR '' '' \<notin> set a"
proof (induction s arbitrary: a)
  case (Cons c cs)
  then show ?case by (cases a) auto
qed simp

lemma extractor_Inr:
  "defaultBearerExtractor A r = Inr tok \<longleftrightarrow>
     (\<exists>scheme. rq_values r ''Authorization'' = [scheme @ CHR '' '' # tok] \<and> equal_fold scheme ''Bearer'' \<and>
        tok \<noteq> [] \<and> set tok \<inter> set whitespace = {})"
proof -
  have bearer: "CHR '' '' \<notin> set scheme" if "equal_fold scheme ''Bearer''" for scheme
  proof
    assume "CHR '' '' \<in> set scheme"
    then have "lower CHR '' '' \<in> set (map lower scheme)" by simp
    with that show False by (simp add: equal_fold_def lower_def)
  qed
  have any: "contains_any tok whitespace \<longleftrightarrow> set tok \<inter> set whitespace \<noteq> {}"
    by (auto simp: contains_any_def list_ex_iff)
  show ?thesis (is "?l \<longleftrightarrow> ?r")
  proof
    assume ?l
    then show ?r
      by (auto simp: defaultBearerExtractor_def cut_space_Some any split: list.splits option.splits if_splits)
  next
    assume ?r
    then obtain scheme where v: "rq_values r ''Authorization'' = [scheme @ CHR '' '' # tok]" "equal_fold scheme ''Bearer''"
      "tok \<noteq> []" "set tok \<inter> set whitespace = {}" by blast
    then have "cut_space (scheme @ CHR '' '' # tok) = Some (scheme, tok)" using bearer by (simp add: cut_space_Some)
    with v show ?l by (simp add: defaultBearerExtractor_def any)
  qed
qed

lemma extractor_Inl: "defaultBearerExtractor A r = Inl e \<Longrightarrow> e = ErrTokenMissing A"
  by (auto simp: defaultBearerExtractor_def split: list.splits option.splits if_splits)

text \<open>
  The core documents that WriteJSON answers an unauthorized error with 401 and an unknown one
  with 500.
\<close>

definition render_ok :: "(goerr \<Rightarrow> nat \<times> bytes) \<Rightarrow> bool" where
  "render_ok render \<longleftrightarrow>
     (\<forall>e. as_coded e = Some CodeUnauthorized \<longrightarrow> fst (render e) = 401) \<and>
     (\<forall>m. fst (render (ErrxNew CodeUnknown m)) = 500)"

definition challenge :: "auth_lib \<Rightarrow> goerr \<Rightarrow> string" where
  "challenge A e = (if errors_is e (ErrTokenMissing A) then ''Bearer'' else ''Bearer error=\"invalid_token\"'')"

lemma responder_unauthorized:
  assumes "render_ok render" and "as_coded e = Some CodeUnauthorized" and "rs_sent w = None"
  shows "\<exists>hs. rs_sent (defaultErrorResponder A render e w) = Some (401, hs) \<and>
    map_of hs ''WWW-Authenticate'' = Some (challenge A e)"
  using assms
  by (auto simp: defaultErrorResponder_def write_json_def WriteHeader_def set_header_def render_ok_def challenge_def Let_def
      update_conv)

context token_verifier begin

text \<open>
  The middleware over any verifier of the interface, with the default configuration, for a request
  whose context is live and to which nothing has been written: the next handler runs exactly when
  one bearer token was presented and verified, and sees the verified identity; otherwise the
  answer is the 401 of the sentinel, with its challenge, and neither the answer nor the state
  depends on the next handler.
\<close>

lemma middleware_guarded:
  assumes "auth_lib_ok A" "identity_ctx_ok X" "render_ok render" "ctx_err (rq_ctx r) = None" "rs_sent w = None"
  shows "(\<exists>tok i r'. defaultBearerExtractor A r = Inr tok \<and> verify (rq_ctx r) tok = Inr i \<and> id_Subject i \<noteq> [] \<and>
       IdentityFromContext X (rq_ctx r') = Some i \<and> rq_values r' = rq_values r \<and>
       mw_handler A X (mw_newConfig A render) verify nxt r (w, st) = nxt r' (w, st)) \<or>
     (\<forall>tok. defaultBearerExtractor A r = Inr tok \<longrightarrow> (\<exists>e. verify (rq_ctx r) tok = Inl e)) \<and>
     (\<exists>w' hs. (\<forall>nxt. mw_handler A X (mw_newConfig A render) verify nxt r (w, st) = (w', st)) \<and>
       rs_sent w' = Some (401, hs) \<and>
       map_of hs ''WWW-Authenticate'' \<in> {Some ''Bearer'', Some ''Bearer error=\"invalid_token\"''})"
proof (cases "defaultBearerExtractor A r")
  case (Inl e)
  then have "e = ErrTokenMissing A" by (rule extractor_Inl)
  with assms(1) have "as_coded e = Some CodeUnauthorized" by (simp add: auth_lib_ok_def)
  from responder_unauthorized [OF assms(3) this assms(5), of A] Inl show ?thesis
    by (auto simp: mw_handler_def mw_newConfig_def challenge_def split: if_splits)
next
  case (Inr tok)
  then have tok: "tok \<noteq> []" by (auto simp: extractor_Inr)
  show ?thesis
  proof (cases "verify (rq_ctx r) tok")
    case (Inl e)
    from responder_unauthorized [OF assms(3) rejection_coded [OF assms(1) Inl assms(4)] assms(5), of A] Inl Inr tok show ?thesis
      by (auto simp: mw_handler_def mw_newConfig_def challenge_def split: if_splits)
  next
    case (Inr i)
    let ?r = "r\<lparr>rq_ctx := WithIdentity X (rq_ctx r) i\<rparr>"
    have "mw_handler A X (mw_newConfig A render) verify nxt r (w, st) = nxt ?r (w, st)"
      using Inr tok \<open>defaultBearerExtractor A r = Inr tok\<close> by (simp add: mw_handler_def mw_newConfig_def)
    moreover have "IdentityFromContext X (rq_ctx ?r) = Some i" using assms(2) by (simp add: identity_ctx_ok_def)
    ultimately show ?thesis using accepted [OF Inr] Inr \<open>defaultBearerExtractor A r = Inr tok\<close>
      by (intro disjI1 exI [of _ tok] exI [of _ i] exI [of _ ?r]) simp
  qed
qed

end

section \<open>Properties\<close>

text \<open>
  C21: The middleware in front of the JWT verifier lets exactly the authenticated requests
  through. For a request whose context is live, the wrapped handler is called, once, if the request
  carries one Authorization header with a Bearer scheme and one token free of white space and
  Verify accepts it, and it then reads the verified identity from its context. Every other
  request gets a 401 with a Bearer challenge, and the wrapped handler plays no part in it: the
  answer is the same whatever that handler is, and the state it could have changed is as before.
\<close>

theorem authmw_guards_next:
  assumes "auth_lib_ok A" and "identity_ctx_ok X" and "render_ok render" and "ctx_err (rq_ctx r) = None"
    and "rs_sent w = None" and "mw_New A X render (OtherVerifier (jwt_Verify A J v)) [] = Inr mw"
  shows "(\<exists>scheme tok i r'. rq_values r ''Authorization'' = [scheme @ CHR '' '' # tok] \<and> equal_fold scheme ''Bearer'' \<and>
       set tok \<inter> set whitespace = {} \<and> jwt_Verify A J v (rq_ctx r) tok = Inr i \<and> id_Subject i \<noteq> [] \<and>
       IdentityFromContext X (rq_ctx r') = Some i \<and> rq_values r' = rq_values r \<and> mw nxt r (w, st) = nxt r' (w, st)) \<or>
     (\<forall>scheme tok. rq_values r ''Authorization'' = [scheme @ CHR '' '' # tok] \<and> equal_fold scheme ''Bearer'' \<and>
         tok \<noteq> [] \<and> set tok \<inter> set whitespace = {} \<longrightarrow> (\<exists>e. jwt_Verify A J v (rq_ctx r) tok = Inl e)) \<and>
     (\<exists>w' hs. (\<forall>nxt. mw nxt r (w, st) = (w', st)) \<and> rs_sent w' = Some (401, hs) \<and>
       map_of hs ''WWW-Authenticate'' \<in> {Some ''Bearer'', Some ''Bearer error=\"invalid_token\"''})"
proof -
  have mw: "mw = mw_handler A X (mw_newConfig A render) (jwt_Verify A J v)"
    using assms(6) by (simp add: mw_New_def)
  have "(\<exists>tok i r'. defaultBearerExtractor A r = Inr tok \<and> jwt_Verify A J v (rq_ctx r) tok = Inr i \<and> id_Subject i \<noteq> [] \<and>
       IdentityFromContext X (rq_ctx r') = Some i \<and> rq_values r' = rq_values r \<and> mw nxt r (w, st) = nxt r' (w, st)) \<or>
     (\<forall>tok. defaultBearerExtractor A r = Inr tok \<longrightarrow> (\<exists>e. jwt_Verify A J v (rq_ctx r) tok = Inl e)) \<and>
     (\<exists>w' hs. (\<forall>nxt. mw nxt r (w, st) = (w', st)) \<and> rs_sent w' = Some (401, hs) \<and>
       map_of hs ''WWW-Authenticate'' \<in> {Some ''Bearer'', Some ''Bearer error=\"invalid_token\"''})"
    unfolding mw by (rule jwt.middleware_guarded [OF assms(1-5)])
  then show ?thesis unfolding extractor_Inr by blast
qed

text \<open>
  A request whose context has already ended and that presents a token is answered with the fixed
  500, without a challenge, and does not reach the handler either.
\<close>

lemma authmw_cancelled:
  assumes "render_ok render" and "ctx_err (rq_ctx r) = Some e" and "as_coded e = None" and "rs_sent w = None"
    and "defaultBearerExtractor A r = Inr tok" and "mw_New A X render (OtherVerifier (jwt_Verify A J v)) [] = Inr mw"
  shows "\<exists>w'. mw nxt r (w, st) = (w', st) \<and> rs_sent w' = Some (500, rs_headers w)"
proof -
  have "tok \<noteq> []" using assms(5) by (auto simp: extractor_Inr)
  then show ?thesis
    using assms
    by (auto simp: mw_New_def mw_handler_def mw_newConfig_def jwt_Verify_def defaultErrorResponder_def write_json_def
        WriteHeader_def render_ok_def)
qed

text \<open>
  The default responder never leaks an uncoded error. Whatever error without a code a
  custom verifier or extractor returns, the response is the fixed 500 of "internal error",
  the same for all of them and with no challenge; a 401 always carries a challenge, bare
  only when the token was missing.
\<close>

lemma authmw_no_leak:
  assumes "auth_lib_ok A" and "render_ok render" and "rs_sent w = None"
  shows "(as_coded e = None \<longrightarrow>
      defaultErrorResponder A render e w = write_json render (ErrxNew CodeUnknown ''internal error'') w \<and>
      rs_sent (defaultErrorResponder A render e w) = Some (500, rs_headers w)) \<and>
    (as_coded e = Some CodeUnauthorized \<longrightarrow>
      (\<exists>hs. rs_sent (defaultErrorResponder A render e w) = Some (401, hs) \<and>
        map_of hs ''WWW-Authenticate'' =
          Some (if errors_is e (ErrTokenMissing A) then ''Bearer'' else ''Bearer error=\"invalid_token\"'')))"
  using responder_unauthorized [OF assms(2) _ assms(3), of e A] assms(2,3)
  by (auto simp: defaultErrorResponder_def write_json_def WriteHeader_def render_ok_def challenge_def)

text \<open>A rendering for concrete evaluations.\<close>

definition example_render :: "goerr \<Rightarrow> nat \<times> bytes" where
  "example_render e = (case as_coded e of Some CodeUnauthorized \<Rightarrow> (401, ''unauthorized'') | _ \<Rightarrow> (500, ''error''))"

lemma example_render_ok: "render_ok example_render"
  by (simp add: render_ok_def example_render_def)

definition example_request :: "string list \<Rightarrow> \<lparr>ctx_identity :: identity option\<rparr> request" where
  "example_request vs = \<lparr>rq_values = (\<lambda>k. if k = ''Authorization'' then vs else []),
     rq_ctx = \<lparr>ctx_err = None, ctx_values = (\<lambda>_. None), ctx_identity = None\<rparr>\<rparr>"

text \<open>A handler that answers 200 and counts its calls.\<close>

definition example_next :: "(\<lparr>ctx_identity :: identity option\<rparr>, nat) handler" where
  "example_next r = (\<lambda>(w, n). (WriteHeader 200 w, n + 1))"

theorem authmw_guards_next_witness:
  "\<exists>mw. mw_New example_auth example_identity_ctx example_render
      (OtherVerifier (jwt_Verify example_auth example_jwt example_verifier)) [] = Inr mw \<and>
    mw example_next (example_request [''bearer good'']) (empty_response, 0) = (WriteHeader 200 empty_response, 1) \<and>
    (\<exists>w' hs. mw example_next (example_request []) (empty_response, 0) = (w', 0) \<and> rs_sent w' = Some (401, hs))"
proof -
  let ?mw = "mw_handler example_auth example_identity_ctx (mw_newConfig example_auth example_render)
    (jwt_Verify example_auth example_jwt example_verifier)"
  have new: "mw_New example_auth example_identity_ctx example_render
      (OtherVerifier (jwt_Verify example_auth example_jwt example_verifier)) [] = Inr ?mw"
    by (simp add: mw_New_def)
  have fresh: "rs_sent empty_response = None" by (simp add: empty_response_def)
  have live: "ctx_err (rq_ctx (example_request vs)) = None" for vs by (simp add: example_request_def)
  note guards = authmw_guards_next [OF example_auth_ok example_render_ok live fresh new, where nxt = example_next and st = 0]
  have none: "rq_values (example_request []) ''Authorization'' = []"
    and one: "rq_values (example_request [''bearer good'']) ''Authorization'' = [''bearer'' @ CHR '' '' # ''good'']"
    by (simp_all add: example_request_def)
  have rej: "\<exists>w' hs. ?mw example_next (example_request []) (empty_response, 0) = (w', 0) \<and> rs_sent w' = Some (401, hs)"
    using guards [of "[]"] none by auto
  have acc: "\<exists>i. jwt_Verify example_auth example_jwt example_verifier (rq_ctx (example_request [''bearer good''])) ''good'' = Inr i"
    by (simp add: jwt_Verify_def jwt_identity_def example_jwt_def example_verifier_def example_claims_def example_request_def)
  have "equal_fold ''bearer'' ''Bearer''" "set ''good'' \<inter> set whitespace = {}"
    by (simp_all add: equal_fold_def lower_def whitespace_def)
  with guards [of "[''bearer good'']"] one acc
  obtain r' where "?mw example_next (example_request [''bearer good'']) (empty_response, 0) = example_next r' (empty_response, 0)"
    by (metis (no_types, lifting) list.distinct(1) sum.distinct(1))
  then have "?mw example_next (example_request [''bearer good'']) (empty_response, 0) = (WriteHeader 200 empty_response, 1)"
    by (simp add: example_next_def)
  with rej new show ?thesis by blast
qed

end
