(* ===== verification/Casbin.thy ===== *)
theory Casbin
  imports Auth_Core
begin

text \<open>
  The Casbin authorizer of \<^verbatim>\<open>auth/casbin\<close>: \<^verbatim>\<open>New\<close>, \<^verbatim>\<open>Allow\<close> and the default request builder. The
  policy engine is the parameter \<open>Enforce\<close> of the authorizer; a request value is a string here
  (the default builder passes three of them).
\<close>

text \<open>An enforcer argument: nil, one of the two Casbin types with its pointer, or another one.\<close>

type_synonym enforcer = "string list \<Rightarrow> goerr + bool"

datatype enforcer_arg = NilEnforcer | CasbinEnforcer "enforcer option" | CasbinSyncedEnforcer "enforcer option"
  | CustomEnforcer enforcer

fun enforcer_of :: "enforcer_arg \<Rightarrow> enforcer option" where
  "enforcer_of NilEnforcer = None"
| "enforcer_of (CasbinEnforcer e) = e"
| "enforcer_of (CasbinSyncedEnforcer e) = e"
| "enforcer_of (CustomEnforcer e) = Some e"

type_synonym 'z requestBuilder = "'z gctx_scheme \<Rightarrow> identity \<Rightarrow> string \<Rightarrow> resource \<Rightarrow> goerr + string list"

record 'z authorizer =
  az_enforcer :: enforcer
  az_requestBuilder :: "'z requestBuilder"

definition ErrNilEnforcer :: goerr where
  "ErrNilEnforcer = ErrNew ''casbinauth: enforcer must not be nil''"

definition ErrNilRequestBuilder :: goerr where
  "ErrNilRequestBuilder = ErrNew ''casbinauth: request builder must not be nil''"

definition defaultRequestBuilder :: "'z requestBuilder" where
  "defaultRequestBuilder ctx caller action resource =
     (let obj = (if res_ID resource \<noteq> [] then res_Type resource @ '':'' @ res_ID resource else res_Type resource)
      in Inr [id_Subject caller, obj, action])"

definition WithRequestBuilder :: "'z requestBuilder option \<Rightarrow> 'z requestBuilder option \<Rightarrow> 'z requestBuilder option" where
  "WithRequestBuilder fn cfg = fn"

definition casbin_New ::
  "enforcer_arg \<Rightarrow> ('z requestBuilder option \<Rightarrow> 'z requestBuilder option) list \<Rightarrow> goerr + 'z authorizer" where
  "casbin_New e opts =
     (case enforcer_of e of
        None \<Rightarrow> Inl ErrNilEnforcer
      | Some enf \<Rightarrow>
          (case fold (\<lambda>opt cfg. opt cfg) opts (Some defaultRequestBuilder) of
             None \<Rightarrow> Inl ErrNilRequestBuilder
           | Some rb \<Rightarrow> Inr \<lparr>az_enforcer = enf, az_requestBuilder = rb\<rparr>))"

text \<open>The claims map is empty when no claim is present.\<close>

definition isZeroIdentity :: "identity \<Rightarrow> bool" where
  "isZeroIdentity i \<longleftrightarrow> id_Subject i = [] \<and> id_TenantID i = [] \<and> id_Roles i = [] \<and> id_Claims i = Map.empty"

definition casbin_Allow ::
  "auth_lib \<Rightarrow> 'z authorizer \<Rightarrow> 'z gctx_scheme \<Rightarrow> identity \<Rightarrow> string \<Rightarrow> resource \<Rightarrow> goerr option" where
  "casbin_Allow A a ctx caller action resource =
     (if isZeroIdentity caller then Some (ErrInvalidAuthorizationRequest A)
      else if action = [] then Some (ErrInvalidAuthorizationRequest A)
      else if res_Type resource = [] then Some (ErrInvalidAuthorizationRequest A)
      else case ctx_err ctx of
             Some err \<Rightarrow> Some err
           | None \<Rightarrow>
               (case az_requestBuilder a ctx caller action resource of
                  Inl err \<Rightarrow> Some err
                | Inr rvals \<Rightarrow>
                    if rvals = [] then Some (ErrInvalidAuthorizationRequest A)
                    else case az_enforcer a rvals of
                           Inl err \<Rightarrow> Some err
                         | Inr ok \<Rightarrow> if \<not> ok then Some (ErrForbidden A) else None))"

lemma object_inj:
  assumes "CHR '':'' \<notin> set (res_Type r)" "CHR '':'' \<notin> set (res_Type r')"
    "defaultRequestBuilder ctx c act r = defaultRequestBuilder ctx' c' act' r'"
  shows "r = r' \<and> id_Subject c = id_Subject c' \<and> act = act'"
proof -
  have obj: "(if res_ID r \<noteq> [] then res_Type r @ CHR '':'' # res_ID r else res_Type r) =
      (if res_ID r' \<noteq> [] then res_Type r' @ CHR '':'' # res_ID r' else res_Type r')"
    and rest: "id_Subject c = id_Subject c'" "act = act'"
    using assms(3) by (auto simp: defaultRequestBuilder_def Let_def)
  have colon: "CHR '':'' \<in> set (a @ CHR '':'' # b)" for a b by simp
  have "res_Type r = res_Type r' \<and> res_ID r = res_ID r'"
    using obj assms(1,2) colon [of "res_Type r" "res_ID r"] colon [of "res_Type r'" "res_ID r'"]
    by (cases "res_ID r = []"; cases "res_ID r' = []") (simp_all del: set_append add: sep_append_inj)
  with rest show ?thesis by simp
qed

text \<open>
  C33: Access is granted only by the policy engine. Allow of a constructed authorizer returns
  nil exactly when the request is well formed (a non-zero identity, an action and a resource
  type), the context is live, the builder produced values and the enforcer said yes to them.
  A malformed request is rejected as such even on a cancelled context; a no of the enforcer is
  ErrForbidden, and its error comes back as it is. With the default builder the enforcer is asked
  about the subject, the object (the type, followed by a colon and the id when there is an id) and
  the action; and for two resources whose types contain no colon, the values asked about differ
  unless subject, resource and action are the same.
\<close>

theorem casbin_Allow_iff:
  assumes "casbin_New e opts = Inr a" and "enforcer_of e = Some enf"
  shows "(casbin_Allow A a ctx caller action resource = None \<longleftrightarrow>
      \<not> isZeroIdentity caller \<and> action \<noteq> [] \<and> res_Type resource \<noteq> [] \<and> ctx_err ctx = None \<and>
      (\<exists>rvals. az_requestBuilder a ctx caller action resource = Inr rvals \<and> rvals \<noteq> [] \<and> enf rvals = Inr True)) \<and>
    (isZeroIdentity caller \<or> action = [] \<or> res_Type resource = [] \<longrightarrow>
      casbin_Allow A a ctx caller action resource = Some (ErrInvalidAuthorizationRequest A)) \<and>
    (\<forall>rvals. \<not> isZeroIdentity caller \<and> action \<noteq> [] \<and> res_Type resource \<noteq> [] \<and> ctx_err ctx = None \<and>
       az_requestBuilder a ctx caller action resource = Inr rvals \<and> rvals \<noteq> [] \<longrightarrow>
       (enf rvals = Inr False \<longrightarrow> casbin_Allow A a ctx caller action resource = Some (ErrForbidden A)) \<and>
       (\<forall>err. enf rvals = Inl err \<longrightarrow> casbin_Allow A a ctx caller action resource = Some err)) \<and>
    (opts = [] \<longrightarrow>
       az_requestBuilder a ctx caller action resource =
         Inr [id_Subject caller, if res_ID resource = [] then res_Type resource else res_Type resource @ '':'' @ res_ID resource,
              action] \<and>
       (CHR '':'' \<notin> set (res_Type resource) \<and> CHR '':'' \<notin> set (res_Type resource') \<and>
        az_requestBuilder a ctx caller action resource = az_requestBuilder a ctx caller' action' resource' \<longrightarrow>
         resource = resource' \<and> id_Subject caller = id_Subject caller' \<and> action = action'))"
proof -
  have enf: "az_enforcer a = enf" and rb: "opts = [] \<Longrightarrow> az_requestBuilder a = defaultRequestBuilder"
    using assms by (auto simp: casbin_New_def split: option.splits)
  have yes: "casbin_Allow A a ctx caller action resource = None \<longleftrightarrow>
      \<not> isZeroIdentity caller \<and> action \<noteq> [] \<and> res_Type resource \<noteq> [] \<and> ctx_err ctx = None \<and>
      (\<exists>rvals. az_requestBuilder a ctx caller action resource = Inr rvals \<and> rvals \<noteq> [] \<and> enf rvals = Inr True)"
    by (auto simp: casbin_Allow_def enf split: option.splits sum.splits)
  have inj: "resource = resource' \<and> id_Subject caller = id_Subject caller' \<and> action = action'"
    if "opts = []" "CHR '':'' \<notin> set (res_Type resource)" "CHR '':'' \<notin> set (res_Type resource')"
      "az_requestBuilder a ctx caller action resource = az_requestBuilder a ctx caller' action' resource'"
    using object_inj that rb by metis
  show ?thesis
    using rb inj by (intro conjI impI allI yes) (auto simp: casbin_Allow_def enf defaultRequestBuilder_def)
qed

text \<open>A policy for concrete evaluations: alice may ship order 7.\<close>

definition example_enforcer :: enforcer where
  "example_enforcer rvals = Inr (rvals = [''alice'', ''order:7'', ''ship''])"

definition example_authorizer :: "unit authorizer" where
  "example_authorizer = \<lparr>az_enforcer = example_enforcer, az_requestBuilder = defaultRequestBuilder\<rparr>"

definition example_caller :: "string \<Rightarrow> identity" where
  "example_caller s = \<lparr>id_Subject = s, id_TenantID = [], id_Roles = [], id_Claims = Map.empty\<rparr>"

theorem casbin_Allow_iff_witness:
  "casbin_Allow example_auth example_authorizer background (example_caller ''alice'') ''ship''
      \<lparr>res_Type = ''order'', res_ID = ''7''\<rparr> = None \<and>
   casbin_Allow example_auth example_authorizer background (example_caller ''bob'') ''ship''
      \<lparr>res_Type = ''order'', res_ID = ''7''\<rparr> = Some (ErrForbidden example_auth)"
proof -
  have new: "casbin_New (CasbinEnforcer (Some example_enforcer)) [] = Inr example_authorizer"
    by (simp add: casbin_New_def example_authorizer_def)
  have enf: "enforcer_of (CasbinEnforcer (Some example_enforcer)) = Some example_enforcer" by simp
  note eval = isZeroIdentity_def example_caller_def background_def example_authorizer_def defaultRequestBuilder_def
    example_enforcer_def Let_def
  have "casbin_Allow example_auth example_authorizer background (example_caller ''alice'') ''ship''
      \<lparr>res_Type = ''order'', res_ID = ''7''\<rparr> = None"
    by (subst casbin_Allow_iff [OF new enf, THEN conjunct1]) (simp add: eval)
  moreover have "casbin_Allow example_auth example_authorizer background (example_caller ''bob'') ''ship''
      \<lparr>res_Type = ''order'', res_ID = ''7''\<rparr> = Some (ErrForbidden example_auth)"
    using casbin_Allow_iff [OF new enf, THEN conjunct2, THEN conjunct2, THEN conjunct1, rule_format,
        of "example_caller ''bob''" "''ship''" "\<lparr>res_Type = ''order'', res_ID = ''7''\<rparr>" background
        "[''bob'', ''order:7'', ''ship'']" example_auth]
    by (simp add: eval)
  ultimately show ?thesis by blast
qed

end
