(* ===== verification/Orders_Domain.thy ===== *)
theory Orders_Domain
  imports Eventbus
begin

text \<open>
  The order aggregate of the example service (\<^verbatim>\<open>examples/orders/domain/order\<close>), its events, and the
  read model \<^verbatim>\<open>projection/order_view.go\<close> with the query handler over it. Quantities, prices and
  totals are 64-bit words read as signed. The aggregate base of the core is the parameter
  \<open>core_lib\<close>: the version of a new aggregate, how IncrementVersion moves it, the clock that
  stamps events, and the core's sentinel errors.
\<close>

section \<open>Data\<close>

type_synonym int64 = "64 word"

record item =
  it_SKU :: string
  it_Quantity :: int64
  it_PriceCents :: int64

definition StatusDraft :: string where "StatusDraft = ''draft''"
definition StatusPlaced :: string where "StatusPlaced = ''placed''"
definition StatusShipped :: string where "StatusShipped = ''shipped''"

lemmas status_defs = StatusDraft_def StatusPlaced_def StatusShipped_def

definition EventNamePlaced :: string where "EventNamePlaced = ''order.placed''"
definition EventNameShipped :: string where "EventNameShipped = ''order.shipped''"

text \<open>The fields of \<^verbatim>\<open>OrderPlaced\<close> and \<^verbatim>\<open>OrderShipped\<close> beyond the base event.\<close>

datatype order_body = PlacedBody string int64 | ShippedBody string

type_synonym order_event = "order_body devent"

record order =
  or_ID :: string
  or_customerID :: string
  or_items :: "item list"
  or_status :: string
  or_totalCents :: int64
  or_version :: int
  or_events :: "order_event list"

text \<open>A rule violation with its code, or another error.\<close>

datatype order_err = RuleViolation string string | OtherErr goerr

record core_lib =
  co_initialVersion :: int
  co_IncrementVersion :: "int \<Rightarrow> int"
  co_now :: "string \<Rightarrow> time"
  ErrNotFound :: goerr
  ErrConcurrencyConflict :: goerr

text \<open>What the repository's comments rely on: a mutation moves the version by exactly one.\<close>

definition core_ok :: "core_lib \<Rightarrow> bool" where
  "core_ok K \<longleftrightarrow> (\<forall>v. co_IncrementVersion K v = v + 1)"

section \<open>The aggregate\<close>

definition order_New :: "core_lib \<Rightarrow> string \<Rightarrow> string \<Rightarrow> order" where
  "order_New K i customerID = \<lparr>or_ID = i, or_customerID = customerID, or_items = [], or_status = StatusDraft,
     or_totalCents = 0, or_version = co_initialVersion K, or_events = []\<rparr>"

definition order_Hydrate :: "core_lib \<Rightarrow> string \<Rightarrow> string \<Rightarrow> string \<Rightarrow> int \<Rightarrow> int64 \<Rightarrow> item list \<Rightarrow> order" where
  "order_Hydrate K i customerID status version totalCents items =
     (order_New K i customerID)\<lparr>or_status := status, or_totalCents := totalCents, or_items := items,
        or_version := version\<rparr>"

definition NewOrderPlaced :: "core_lib \<Rightarrow> string \<Rightarrow> string \<Rightarrow> int \<Rightarrow> string \<Rightarrow> int64 \<Rightarrow> order_event" where
  "NewOrderPlaced K eventID aggregateID version customerID totalCents =
     \<lparr>ev_EventID = eventID, ev_EventName = EventNamePlaced, ev_AggregateID = aggregateID, ev_AggregateType = ''Order'',
      ev_OccurredAt = co_now K eventID, ev_Version = version, ev_Body = PlacedBody customerID totalCents\<rparr>"

definition NewOrderShipped :: "core_lib \<Rightarrow> string \<Rightarrow> string \<Rightarrow> int \<Rightarrow> string \<Rightarrow> order_event" where
  "NewOrderShipped K eventID aggregateID version carrier =
     \<lparr>ev_EventID = eventID, ev_EventName = EventNameShipped, ev_AggregateID = aggregateID, ev_AggregateType = ''Order'',
      ev_OccurredAt = co_now K eventID, ev_Version = version, ev_Body = ShippedBody carrier\<rparr>"

text \<open>The loop of Place: it adds up 64-bit products and stops at the first bad quantity.\<close>

fun place_total :: "int64 \<Rightarrow> item list \<Rightarrow> int64 option" where
  "place_total tot [] = Some tot"
| "place_total tot (it # its) =
     (if sint (it_Quantity it) \<le> 0 then None
      else place_total (tot + it_PriceCents it * it_Quantity it) its)"

definition order_Place :: "core_lib \<Rightarrow> item list \<Rightarrow> string \<Rightarrow> order \<Rightarrow> order_err option \<times> order" where
  "order_Place K items eventID o' =
     (if or_status o' \<noteq> StatusDraft then (Some (RuleViolation ''ORDER_NOT_DRAFT'' ''order is not in draft state''), o')
      else if items = [] then (Some (RuleViolation ''ORDER_EMPTY'' ''order must have at least one item''), o')
      else case place_total 0 items of
             None \<Rightarrow> (Some (RuleViolation ''ITEM_INVALID_QTY'' ''item quantity must be positive''), o')
           | Some tot \<Rightarrow>
               let o1 = o'\<lparr>or_items := items, or_totalCents := tot, or_status := StatusPlaced\<rparr>;
                   o2 = o1\<lparr>or_version := co_IncrementVersion K (or_version o1)\<rparr>;
                   ev = NewOrderPlaced K eventID (or_ID o2) (or_version o2) (or_customerID o2) tot
               in (None, o2\<lparr>or_events := or_events o2 @ [ev]\<rparr>))"

definition order_Ship :: "core_lib \<Rightarrow> string \<Rightarrow> string \<Rightarrow> order \<Rightarrow> order_err option \<times> order" where
  "order_Ship K eventID carrier o' =
     (if or_status o' = StatusShipped then (Some (RuleViolation ''ORDER_ALREADY_SHIPPED'' ''order is already shipped''), o')
      else if or_status o' \<noteq> StatusPlaced then
        (Some (RuleViolation ''ORDER_NOT_PLACED'' ''order must be placed before shipping''), o')
      else let o1 = o'\<lparr>or_status := StatusShipped\<rparr>;
               o2 = o1\<lparr>or_version := co_IncrementVersion K (or_version o1)\<rparr>;
               ev = NewOrderShipped K eventID (or_ID o2) (or_version o2) carrier
           in (None, o2\<lparr>or_events := or_events o2 @ [ev]\<rparr>))"

text \<open>The accessors; \<^verbatim>\<open>Items\<close> returns a copy.\<close>

definition order_CustomerID :: "order \<Rightarrow> string" where
  "order_CustomerID o' = or_customerID o'"

definition order_Status :: "order \<Rightarrow> string" where
  "order_Status o' = or_status o'"

definition order_Items :: "order \<Rightarrow> item list" where
  "order_Items o' = map (\<lambda>i. or_items o' ! i) [0..<length (or_items o')]"

definition order_TotalCents :: "order \<Rightarrow> int64" where
  "order_TotalCents o' = or_totalCents o'"

definition order_ClearEvents :: "order \<Rightarrow> order" where
  "order_ClearEvents o' = o'\<lparr>or_events := []\<rparr>"

section \<open>The read model\<close>

record order_view =
  vw_OrderID :: string
  vw_CustomerID :: string
  vw_Status :: string
  vw_TotalCents :: int64
  vw_Carrier :: string
  vw_Version :: int

type_synonym view_store = "string \<rightharpoonup> order_view"

definition NewOrderViewStore :: view_store where
  "NewOrderViewStore = Map.empty"

definition applyPlaced :: "order_event \<Rightarrow> string \<Rightarrow> int64 \<Rightarrow> view_store \<Rightarrow> view_store" where
  "applyPlaced e customer tot s =
     s(ev_AggregateID e \<mapsto> \<lparr>vw_OrderID = ev_AggregateID e, vw_CustomerID = customer, vw_Status = StatusPlaced,
        vw_TotalCents = tot, vw_Carrier = [], vw_Version = ev_Version e\<rparr>)"

definition applyShipped :: "order_event \<Rightarrow> string \<Rightarrow> view_store \<Rightarrow> view_store" where
  "applyShipped e carrier s =
     (let v = (case s (ev_AggregateID e) of
                 Some v \<Rightarrow> v
               | None \<Rightarrow> \<lparr>vw_OrderID = ev_AggregateID e, vw_CustomerID = [], vw_Status = [], vw_TotalCents = 0,
                          vw_Carrier = [], vw_Version = 0\<rparr>)
      in s(ev_AggregateID e \<mapsto> v\<lparr>vw_Status := StatusShipped, vw_Carrier := carrier, vw_Version := ev_Version e\<rparr>))"

fun view_Apply :: "order_event \<Rightarrow> view_store \<Rightarrow> view_store" where
  "view_Apply e s = (case ev_Body e of PlacedBody c t \<Rightarrow> applyPlaced e c t s | ShippedBody c \<Rightarrow> applyShipped e c s)"

definition view_Find :: "core_lib \<Rightarrow> string \<Rightarrow> view_store \<Rightarrow> goerr + order_view" where
  "view_Find K i s = (case s i of None \<Rightarrow> Inl (ErrNotFound K) | Some v \<Rightarrow> Inr v)"

definition GetOrder_Handle :: "core_lib \<Rightarrow> string \<Rightarrow> view_store \<Rightarrow> goerr + order_view" where
  "GetOrder_Handle K orderID s = view_Find K orderID s"

section \<open>The life of an order\<close>

text \<open>A draft, and then any sequence of accepted and refused calls.\<close>

inductive order_life :: "core_lib \<Rightarrow> order \<Rightarrow> bool" for K :: core_lib where
  life_new: "order_life K (order_New K i customer)"
| life_place: "order_life K o' \<Longrightarrow> order_life K (snd (order_Place K items eventID o'))"
| life_ship: "order_life K o' \<Longrightarrow> order_life K (snd (order_Ship K eventID carrier o'))"

text \<open>The mathematical totalal, and the events an order must have recorded for its status.\<close>

definition exact_total :: "item list \<Rightarrow> int" where
  "exact_total its = (\<Sum>it \<leftarrow> its. sint (it_PriceCents it) * sint (it_Quantity it))"

definition is_placed_of :: "core_lib \<Rightarrow> order \<Rightarrow> order_event \<Rightarrow> bool" where
  "is_placed_of K o' e \<longleftrightarrow> ev_EventName e = EventNamePlaced \<and> ev_AggregateID e = or_ID o' \<and>
     ev_Version e = co_initialVersion K + 1 \<and> ev_Body e = PlacedBody (or_customerID o') (or_totalCents o')"

definition order_ok :: "core_lib \<Rightarrow> order \<Rightarrow> bool" where
  "order_ok K o' \<longleftrightarrow>
     or_version o' = co_initialVersion K + int (length (or_events o')) \<and>
     (or_status o' = StatusDraft \<and> or_events o' = [] \<and> or_items o' = [] \<and> or_totalCents o' = 0 \<or>
      or_status o' \<in> {StatusPlaced, StatusShipped} \<and> or_items o' \<noteq> [] \<and>
      (\<forall>it \<in> set (or_items o'). 0 < sint (it_Quantity it)) \<and>
      or_totalCents o' = word_of_int (exact_total (or_items o')) \<and>
      (\<exists>p. is_placed_of K o' p \<and>
         (or_status o' = StatusPlaced \<and> or_events o' = [p] \<or>
          or_status o' = StatusShipped \<and> (\<exists>s c. or_events o' = [p, s] \<and> ev_EventName s = EventNameShipped \<and>
             ev_AggregateID s = or_ID o' \<and> ev_Version s = co_initialVersion K + 2 \<and> ev_Body s = ShippedBody c))))"

lemma place_total_Some:
  "place_total t its = Some r \<Longrightarrow>
     r = t + word_of_int (exact_total its) \<and> (\<forall>it \<in> set its. 0 < sint (it_Quantity it))"
proof (induction t its rule: place_total.induct)
  case (2 t it its)
  then have "r = t + it_PriceCents it * it_Quantity it + word_of_int (exact_total its)"
    and "\<forall>it \<in> set its. 0 < sint (it_Quantity it)" and "0 < sint (it_Quantity it)"
    by (auto split: if_splits)
  then show ?case by (simp add: exact_total_def flip: wi_hom_mult wi_hom_add)
qed (simp add: exact_total_def)

lemma place_total_ok: "place_total t its = None \<longleftrightarrow> (\<exists>it \<in> set its. sint (it_Quantity it) \<le> 0)"
  by (induction t its rule: place_total.induct) auto

lemma order_Place_ok: "core_ok K \<Longrightarrow> order_ok K o' \<Longrightarrow> order_ok K (snd (order_Place K items eventID o'))"
  using place_total_Some [of 0 items]
  by (auto simp: order_Place_def order_ok_def core_ok_def is_placed_of_def NewOrderPlaced_def status_defs Let_def
      split: option.splits)

lemma order_Ship_ok: "core_ok K \<Longrightarrow> order_ok K o' \<Longrightarrow> order_ok K (snd (order_Ship K eventID carrier o'))"
  by (auto simp: order_Ship_def order_ok_def core_ok_def is_placed_of_def NewOrderShipped_def status_defs Let_def)

lemma order_New_ok: "order_ok K (order_New K i customer)"
  by (simp add: order_ok_def order_New_def)

lemma order_life_ok: "order_life K o' \<Longrightarrow> core_ok K \<Longrightarrow> order_ok K o'"
  by (induction rule: order_life.induct) (simp_all only: order_New_ok order_Place_ok order_Ship_ok)

section \<open>Properties\<close>

text \<open>
  C29: Whatever calls are made on an order, in whatever order and with whatever arguments, it
  is a draft without items, or placed, or shipped after having been placed; its version is the
  initial one plus the number of events recorded; the events are OrderPlaced and then, if it
  is shipped, OrderShipped, with consecutive versions and the order's own id, customer and
  total; every item has a positive quantity, and the total is the sum of price times quantity
  modulo 2^64, so it is exact whenever that sum fits into 64 bits.
\<close>

theorem order_lifecycle:
  assumes "order_life K o'" and "core_ok K"
  shows "order_ok K o' \<and>
    (- (2 ^ 63) \<le> exact_total (or_items o') \<and> exact_total (or_items o') < 2 ^ 63 \<longrightarrow>
       sint (or_totalCents o') = exact_total (or_items o'))"
proof
  show ok: "order_ok K o'" using assms by (rule order_life_ok)
  show "- (2 ^ 63) \<le> exact_total (or_items o') \<and> exact_total (or_items o') < 2 ^ 63 \<longrightarrow>
       sint (or_totalCents o') = exact_total (or_items o')"
  proof
    assume b: "- (2 ^ 63) \<le> exact_total (or_items o') \<and> exact_total (or_items o') < 2 ^ 63"
    have "or_totalCents o' = word_of_int (exact_total (or_items o'))"
      using ok by (auto simp: order_ok_def exact_total_def)
    then show "sint (or_totalCents o') = exact_total (or_items o')"
      using b by (simp add: sint_sbintrunc' signed_take_bit_int_eq_self)
  qed
qed

text \<open>What the read model has to show of an order.\<close>

definition shows_order :: "order \<Rightarrow> view_store \<Rightarrow> bool" where
  "shows_order o' s \<longleftrightarrow>
     (if or_events o' = [] then s (or_ID o') = None
      else \<exists>v. s (or_ID o') = Some v \<and> vw_OrderID v = or_ID o' \<and> vw_CustomerID v = or_customerID o' \<and>
             vw_Status v = or_status o' \<and> vw_TotalCents v = or_totalCents o' \<and> vw_Version v = or_version o')"

lemma view_Apply_other: "ev_AggregateID e \<noteq> i \<Longrightarrow> view_Apply e s i = s i"
  by (simp add: applyPlaced_def applyShipped_def Let_def split: order_body.split)

lemma view_fold_other: "\<forall>e \<in> set es. ev_AggregateID e \<noteq> i \<Longrightarrow> fold view_Apply es s i = s i"
  by (induction es arbitrary: s) (simp_all add: view_Apply_other del: view_Apply.simps)

text \<open>Only the events of an order reach its view, wherever the others are interleaved.\<close>

lemma view_fold_filter:
  "s i = s' i \<Longrightarrow> fold view_Apply es s i = fold view_Apply (filter (\<lambda>e. ev_AggregateID e = i) es) s' i"
proof (induction es arbitrary: s s')
  case (Cons e es)
  show ?case
  proof (cases "ev_AggregateID e = i")
    case True
    have "view_Apply e s i = view_Apply e s' i"
      using True Cons.prems by (simp add: applyPlaced_def applyShipped_def Let_def split: order_body.split)
    from Cons.IH [of "view_Apply e s" "view_Apply e s'", OF this] True show ?thesis by (simp del: view_Apply.simps)
  next
    case False
    then have "view_Apply e s i = s' i" using Cons.prems by (simp add: view_Apply_other del: view_Apply.simps)
    from Cons.IH [of "view_Apply e s" s', OF this] False show ?thesis by (simp del: view_Apply.simps)
  qed
qed simp

lemma projection_of_own_events:
  assumes "order_ok K o'"
  shows "shows_order o' (fold view_Apply (or_events o') Map.empty)"
  using assms
  by (auto simp: order_ok_def shows_order_def is_placed_of_def applyPlaced_def applyShipped_def status_defs Let_def)

text \<open>
  C28: The read model refines the aggregates. If a stream of events contains the events an
  order has recorded in the order they were recorded, interleaved in any way with the events
  of other orders, the projection of the stream shows the order as it is: its id, customer,
  status, total and version, and GetOrder answers with exactly that view; an order with no
  event is not found.
\<close>

theorem projection_refines_order:
  assumes "order_life K o'" and "core_ok K" and "filter (\<lambda>e. ev_AggregateID e = or_ID o') es = or_events o'"
  shows "case GetOrder_Handle K (or_ID o') (fold view_Apply es Map.empty) of
      Inl err \<Rightarrow> or_status o' = StatusDraft \<and> err = ErrNotFound K
    | Inr v \<Rightarrow> or_status o' \<noteq> StatusDraft \<and> vw_OrderID v = or_ID o' \<and> vw_CustomerID v = or_customerID o' \<and>
        vw_Status v = or_status o' \<and> vw_TotalCents v = or_totalCents o' \<and> vw_Version v = or_version o'"
proof -
  have ok: "order_ok K o'" using assms(1,2) by (rule order_life_ok)
  have eq: "fold view_Apply es Map.empty (or_ID o') = fold view_Apply (or_events o') Map.empty (or_ID o')"
    using view_fold_filter [of Map.empty "or_ID o'" Map.empty es] assms(3) by simp
  have "shows_order o' (fold view_Apply es Map.empty)"
    using projection_of_own_events [OF ok] eq by (simp add: shows_order_def)
  moreover have "or_events o' = [] \<longleftrightarrow> or_status o' = StatusDraft" using ok by (auto simp: order_ok_def status_defs)
  ultimately show ?thesis
    by (auto simp: GetOrder_Handle_def view_Find_def shows_order_def split: if_splits)
qed

text \<open>
  Out of order the projection is not the order: with the two topics of the reader, OrderShipped
  can be applied before OrderPlaced, and the view then stays at placed, without a carrier.
\<close>

lemma projection_out_of_order:
  assumes "ev_Body p = PlacedBody c t" "ev_Body s = ShippedBody carrier" "ev_AggregateID s = ev_AggregateID p"
  shows "\<exists>v. fold view_Apply [s, p] Map.empty (ev_AggregateID p) = Some v \<and>
    vw_Status v = StatusPlaced \<and> vw_Carrier v = [] \<and> vw_Version v = ev_Version p"
  using assms by (simp add: applyPlaced_def applyShipped_def)

text \<open>The total wraps: four items at 2^62 cents are placed with a total of zero.\<close>

lemma order_total_wraps:
  "fst (order_Place K [\<lparr>it_SKU = ''a'', it_Quantity = 4, it_PriceCents = 4611686018427387904\<rparr>] e (order_New K i c)) = None"
  "or_totalCents (snd (order_Place K [\<lparr>it_SKU = ''a'', it_Quantity = 4, it_PriceCents = 4611686018427387904\<rparr>] e (order_New K i c))) = 0"
  by (simp_all add: order_Place_def order_New_def Let_def)

section \<open>The in-memory repository\<close>

text \<open>
  \<^verbatim>\<open>infra/memrepo\<close> stores pointers, so the orders live in a heap shared with the callers: FindByID
  returns the address that was saved.
\<close>

record memrepo =
  mr_store :: "string \<rightharpoonup> nat"
  mr_heap :: "nat \<Rightarrow> order"

definition memrepo_FindByID :: "core_lib \<Rightarrow> string \<Rightarrow> memrepo \<Rightarrow> goerr + nat" where
  "memrepo_FindByID K i r = (case mr_store r i of None \<Rightarrow> Inl (ErrNotFound K) | Some a \<Rightarrow> Inr a)"

definition memrepo_Save :: "nat \<Rightarrow> memrepo \<Rightarrow> goerr option \<times> memrepo" where
  "memrepo_Save a r = (None, r\<lparr>mr_store := (mr_store r)(or_ID (mr_heap r a) \<mapsto> a)\<rparr>)"

definition memrepo_Delete :: "string \<Rightarrow> memrepo \<Rightarrow> goerr option \<times> memrepo" where
  "memrepo_Delete i r = (None, r\<lparr>mr_store := (mr_store r)(i := None)\<rparr>)"

text \<open>
  What was saved is found and what was deleted is not, and no other id is touched; a later
  change through the pointer is seen by everyone who finds the order, saved or not.
\<close>

lemma memrepo_laws:
  "memrepo_FindByID K (or_ID (mr_heap r a)) (snd (memrepo_Save a r)) = Inr a"
  "i \<noteq> or_ID (mr_heap r a) \<Longrightarrow> memrepo_FindByID K i (snd (memrepo_Save a r)) = memrepo_FindByID K i r"
  "memrepo_FindByID K i (snd (memrepo_Delete i r)) = Inl (ErrNotFound K)"
  "memrepo_FindByID K i r = Inr a \<Longrightarrow> memrepo_FindByID K i (r\<lparr>mr_heap := (mr_heap r)(a := o')\<rparr>) = Inr a"
  by (simp_all add: memrepo_FindByID_def memrepo_Save_def memrepo_Delete_def)

section \<open>Concrete orders\<close>

text \<open>An order for concrete evaluations.\<close>

definition example_core :: core_lib where
  "example_core = \<lparr>co_initialVersion = 0, co_IncrementVersion = (\<lambda>v. v + 1), co_now = (\<lambda>_. 0),
     ErrNotFound = ErrNew ''not found'', ErrConcurrencyConflict = ErrNew ''concurrency conflict''\<rparr>"

definition example_items :: "item list" where
  "example_items = [\<lparr>it_SKU = ''a'', it_Quantity = 2, it_PriceCents = 150\<rparr>, \<lparr>it_SKU = ''b'', it_Quantity = 1, it_PriceCents = 50\<rparr>]"

definition example_order :: order where
  "example_order = snd (order_Place example_core example_items ''e1'' (order_New example_core ''o1'' ''c1''))"

lemma example_core_ok: "core_ok example_core"
  by (simp add: core_ok_def example_core_def)

lemma example_order_life: "order_life example_core example_order"
  unfolding example_order_def by (intro life_place life_new)

lemma example_order_fields: "or_ID example_order = ''o1''" "or_items example_order = example_items"
  "or_status example_order = StatusPlaced" "or_totalCents example_order = 350"
  by (simp_all add: example_order_def order_Place_def order_New_def example_items_def Let_def)

theorem order_lifecycle_witness: "sint (or_totalCents example_order) = 350"
proof -
  have "exact_total (or_items example_order) = 350"
    by (simp add: example_order_fields example_items_def exact_total_def)
  with order_lifecycle [OF example_order_life example_core_ok] show ?thesis by simp
qed

theorem projection_refines_order_witness:
  "\<exists>v. GetOrder_Handle example_core ''o1'' (fold view_Apply (or_events example_order) Map.empty) = Inr v \<and>
     vw_TotalCents v = 350"
proof -
  have "filter (\<lambda>e. ev_AggregateID e = or_ID example_order) (or_events example_order) = or_events example_order"
    by (simp add: example_order_def order_Place_def order_New_def example_items_def NewOrderPlaced_def Let_def)
  from projection_refines_order [OF example_order_life example_core_ok this] show ?thesis
    by (auto simp: example_order_fields status_defs split: sum.splits)
qed

end
