(* ===== verification/Orders_App.thy ===== *)
theory Orders_App
  imports Orders_Domain Pgx_Outbox_Props Kafka_Codec Kafka_Consumer
begin

text \<open>
  The application layer of the example service over Postgres: the order repository
  (\<^verbatim>\<open>infra/pgxrepo\<close>), the event codec (\<^verbatim>\<open>infra/eventcodec\<close>), the command handlers
  (\<^verbatim>\<open>application/order\<close>) and the worker's consumer (\<^verbatim>\<open>workerflow/handler.go\<close>). The orders table and the
  outbox tables are one database, so its contents extend \<open>pgdb\<close>. The unit of work of the core
  is a parameter of the handlers; the wiring makes it WithinTx of the transaction manager.
\<close>

section \<open>The repository\<close>

record order_row =
  ow_customer_id :: string
  ow_status :: string
  ow_version :: int
  ow_total_cents :: int64
  ow_items :: bytes

record shop_db = pgdb +
  sd_orders :: "string \<rightharpoonup> order_row"

text \<open>JSON of the items, and what the JSONB column returns for it.\<close>

record items_lib =
  il_Marshal :: "item list \<Rightarrow> goerr + bytes"
  il_jsonb :: "bytes \<Rightarrow> bytes"
  il_Unmarshal :: "bytes \<Rightarrow> goerr + item list"

definition items_ok :: "items_lib \<Rightarrow> bool" where
  "items_ok L \<longleftrightarrow> (\<forall>its b. il_Marshal L its = Inr b \<longrightarrow> il_Unmarshal L (il_jsonb L b) = Inr its)"

text \<open>A statement on the executor of the context: the transaction's copy, or the pool.\<close>

definition exec_stmt ::
  "pg_env \<Rightarrow> gctx \<Rightarrow> ('z pgdb_scheme \<Rightarrow> (goerr + 'a) \<times> 'z pgdb_scheme) \<Rightarrow> 'z pgdb_scheme pgworld \<Rightarrow>
   (goerr + 'a) \<times> 'z pgdb_scheme pgworld" where
  "exec_stmt env ctx stmt w =
     (case Executor ctx of
        OnPool \<Rightarrow> let (r, d) = pg_run env stmt (pw_db w) in (r, w\<lparr>pw_db := d\<rparr>)
      | OnTx tx \<Rightarrow>
          (case pw_txs w tx of
             None \<Rightarrow> (Inl ErrTxClosed, w)
           | Some d0 \<Rightarrow> let (r, d) = pg_run env stmt d0 in (r, w\<lparr>pw_txs := (pw_txs w)(tx \<mapsto> d)\<rparr>)))"

definition find_stmt :: "string \<Rightarrow> shop_db \<Rightarrow> (goerr + order_row option) \<times> shop_db" where
  "find_stmt i d = (Inr (sd_orders d i), d)"

definition upsert_stmt :: "string \<Rightarrow> order_row \<Rightarrow> shop_db \<Rightarrow> (goerr + nat) \<times> shop_db" where
  "upsert_stmt i row d =
     (case sd_orders d i of
        None \<Rightarrow> (Inr 1, d\<lparr>sd_orders := (sd_orders d)(i \<mapsto> row)\<rparr>)
      | Some old \<Rightarrow> if ow_version old = ow_version row - 1
                     then (Inr 1, d\<lparr>sd_orders := (sd_orders d)(i \<mapsto> row)\<rparr>) else (Inr 0, d))"

definition delete_stmt :: "string \<Rightarrow> shop_db \<Rightarrow> (goerr + unit) \<times> shop_db" where
  "delete_stmt i d = (Inr (), d\<lparr>sd_orders := (sd_orders d)(i := None)\<rparr>)"

definition repo_FindByID ::
  "core_lib \<Rightarrow> items_lib \<Rightarrow> pg_env \<Rightarrow> gctx \<Rightarrow> string \<Rightarrow> shop_db pgworld \<Rightarrow> (goerr + order) \<times> shop_db pgworld" where
  "repo_FindByID K L env ctx i w =
     (case exec_stmt env ctx (find_stmt i) w of
        (Inl err, w') \<Rightarrow> (Inl (Errorf (''pgxrepo: find order '' @ i) [err]), w')
      | (Inr None, w') \<Rightarrow> (Inl (ErrNotFound K), w')
      | (Inr (Some r), w') \<Rightarrow>
          (case il_Unmarshal L (ow_items r) of
             Inl err \<Rightarrow> (Inl (Errorf (''pgxrepo: decode items for '' @ i) [err]), w')
           | Inr items \<Rightarrow>
               (Inr (order_Hydrate K i (ow_customer_id r) (ow_status r) (ow_version r) (ow_total_cents r) items), w')))"

definition row_of :: "items_lib \<Rightarrow> order \<Rightarrow> bytes \<Rightarrow> order_row" where
  "row_of L o' itemsJSON = \<lparr>ow_customer_id = or_customerID o', ow_status = or_status o', ow_version = or_version o',
     ow_total_cents = or_totalCents o', ow_items = il_jsonb L itemsJSON\<rparr>"

definition repo_Save ::
  "core_lib \<Rightarrow> items_lib \<Rightarrow> pg_env \<Rightarrow> gctx \<Rightarrow> order \<Rightarrow> shop_db pgworld \<Rightarrow> goerr option \<times> shop_db pgworld" where
  "repo_Save K L env ctx o' w =
     (case il_Marshal L (or_items o') of
        Inl err \<Rightarrow> (Some (Errorf (''pgxrepo: encode items for '' @ or_ID o') [err]), w)
      | Inr itemsJSON \<Rightarrow>
          (case exec_stmt env ctx (upsert_stmt (or_ID o') (row_of L o' itemsJSON)) w of
             (Inl err, w') \<Rightarrow> (Some (Errorf (''pgxrepo: upsert order '' @ or_ID o') [err]), w')
           | (Inr rows, w') \<Rightarrow>
               if rows = 0
               then (Some (Errorf (''pgxrepo: optimistic lock conflict on order '' @ or_ID o') [ErrConcurrencyConflict K]), w')
               else (None, w')))"

definition repo_Delete ::
  "pg_env \<Rightarrow> gctx \<Rightarrow> string \<Rightarrow> shop_db pgworld \<Rightarrow> goerr option \<times> shop_db pgworld" where
  "repo_Delete env ctx i w =
     (case exec_stmt env ctx (delete_stmt i) w of
        (Inl err, w') \<Rightarrow> (Some (Errorf (''pgxrepo: delete order '' @ i) [err]), w')
      | (Inr _, w') \<Rightarrow> (None, w'))"

section \<open>The command handlers\<close>

type_synonym 'd uow =
  "gctx \<Rightarrow> (gctx \<Rightarrow> 'd pgworld \<Rightarrow> goerr option outcome \<times> 'd pgworld) \<Rightarrow> 'd pgworld \<Rightarrow>
   goerr option outcome \<times> 'd pgworld"

record 'd order_deps =
  hd_uow :: "'d uow"
  hd_FindByID :: "gctx \<Rightarrow> string \<Rightarrow> 'd pgworld \<Rightarrow> (goerr + order) \<times> 'd pgworld"
  hd_Save :: "gctx \<Rightarrow> order \<Rightarrow> 'd pgworld \<Rightarrow> goerr option \<times> 'd pgworld"
  hd_Stage :: "gctx \<Rightarrow> string \<Rightarrow> order_event list \<Rightarrow> 'd pgworld \<Rightarrow> goerr option \<times> 'd pgworld"
  hd_topic :: string

text \<open>The function both handlers run in the unit of work.\<close>

definition save_and_stage ::
  "'d order_deps \<Rightarrow> order \<Rightarrow> gctx \<Rightarrow> 'd pgworld \<Rightarrow> goerr option outcome \<times> 'd pgworld" where
  "save_and_stage h o' ctx w =
     (case hd_Save h ctx o' w of
        (Some err, w1) \<Rightarrow> (Ret (Some err), w1)
      | (None, w1) \<Rightarrow> (case hd_Stage h ctx (hd_topic h) (or_events o') w1 of (e, w2) \<Rightarrow> (Ret e, w2)))"

text \<open>Handle of PlaceOrder; \<open>newID\<close> is the value \<^verbatim>\<open>h.newID()\<close> returns in this call.\<close>

definition place_Handle ::
  "core_lib \<Rightarrow> 'd order_deps \<Rightarrow> string \<Rightarrow> gctx \<Rightarrow> string \<Rightarrow> string \<Rightarrow> item list \<Rightarrow> 'd pgworld \<Rightarrow>
   (order_err + string \<times> int64) outcome \<times> 'd pgworld" where
  "place_Handle K h newID ctx orderID customerID items w =
     (case order_Place K items newID (order_New K orderID customerID) of
        (Some err, _) \<Rightarrow> (Ret (Inl err), w)
      | (None, o') \<Rightarrow>
          (case hd_uow h ctx (save_and_stage h o') w of
             (Panic p, w') \<Rightarrow> (Panic p, w')
           | (Ret (Some err), w') \<Rightarrow> (Ret (Inl (OtherErr err)), w')
           | (Ret None, w') \<Rightarrow> (Ret (Inr (orderID, or_totalCents (order_ClearEvents o'))), w')))"

definition ship_Handle ::
  "core_lib \<Rightarrow> 'd order_deps \<Rightarrow> string \<Rightarrow> gctx \<Rightarrow> string \<Rightarrow> string \<Rightarrow> 'd pgworld \<Rightarrow>
   (order_err + string) outcome \<times> 'd pgworld" where
  "ship_Handle K h newID ctx orderID carrier w =
     (case hd_FindByID h ctx orderID w of
        (Inl err, w1) \<Rightarrow> (Ret (Inl (OtherErr err)), w1)
      | (Inr o0, w1) \<Rightarrow>
          (case order_Ship K newID carrier o0 of
             (Some err, _) \<Rightarrow>
               (case err of
                  RuleViolation code msg \<Rightarrow>
                    if code = ''ORDER_ALREADY_SHIPPED'' then (Ret (Inr orderID), w1) else (Ret (Inl err), w1)
                | OtherErr _ \<Rightarrow> (Ret (Inl err), w1))
           | (None, o') \<Rightarrow>
               (case hd_uow h ctx (save_and_stage h o') w1 of
                  (Panic p, w') \<Rightarrow> (Panic p, w')
                | (Ret (Some err), w') \<Rightarrow> (Ret (Inl (OtherErr err)), w')
                | (Ret None, w') \<Rightarrow> (Ret (Inr orderID), w'))))"

text \<open>The wiring of the API and the worker: repository, outbox store and unit of work on one pool.\<close>

definition pgx_deps ::
  "core_lib \<Rightarrow> items_lib \<Rightarrow> pg_env \<Rightarrow> order_body pgx_store \<Rightarrow> (shop_db, 'o) tx_manager \<Rightarrow> string \<Rightarrow> shop_db order_deps" where
  "pgx_deps K L env s m topic = \<lparr>hd_uow = WithinTx m, hd_FindByID = repo_FindByID K L env,
     hd_Save = repo_Save K L env, hd_Stage = pgx_Stage env s, hd_topic = topic\<rparr>"

section \<open>The codec and the worker\<close>

datatype event_factory = NewPlaced | NewShipped

definition eventcodec_New :: "event_factory registry" where
  "eventcodec_New = codec_Register EventNameShipped (Ret NewShipped) (codec_Register EventNamePlaced (Ret NewPlaced) NewJSONCodec)"

definition DefaultCarrier :: string where "DefaultCarrier = ''demo-carrier''"

text \<open>
  \<^verbatim>\<open>HandleOrderPlaced\<close>: an event that is not OrderPlaced is refused. \<open>env_raw\<close> is the raw message, which
  may be nil; \<open>dispatch\<close> is the command bus with the ship command. The second result is the lines logged.
\<close>

definition HandleOrderPlaced ::
  "('f, order_body) codec_lib \<Rightarrow> (gctx \<Rightarrow> string \<Rightarrow> string \<Rightarrow> 'w \<Rightarrow> goerr option outcome \<times> 'w) \<Rightarrow> gctx \<Rightarrow>
   order_event \<Rightarrow> string \<Rightarrow> wm_msg option \<Rightarrow> 'w \<Rightarrow> goerr option outcome \<times> (string \<times> log_fields) list \<times> 'w" where
  "HandleOrderPlaced CL dispatch ctx ev name raw w =
     (case ev_Body ev of
        ShippedBody _ \<Rightarrow> (Ret (Some (Errorf (''unexpected event type: '' @ name) [])), [], w)
      | PlacedBody _ _ \<Rightarrow>
          let ctx1 = (case raw of Some m \<Rightarrow> RestoreCoreHeaders CL ctx (msg_Metadata m) | None \<Rightarrow> ctx);
              ctx2 = WithCausationID ctx1 (ev_EventID ev)
          in case dispatch ctx2 (ev_AggregateID ev) DefaultCarrier w of
               (Panic p, w') \<Rightarrow> (Panic p, [], w')
             | (Ret (Some err), w') \<Rightarrow> (Ret (Some (Errorf (''ship dispatch order='' @ ev_AggregateID ev) [err])), [], w')
             | (Ret None, w') \<Rightarrow>
                 (Ret None, [(''shipped'', [(''order_id'', ev_AggregateID ev), (''carrier'', DefaultCarrier)])], w'))"

section \<open>Statements in a transaction\<close>

lemma pg_run_Inr: "pg_run env stmt d = (Inr a, d') \<Longrightarrow> stmt (d\<lparr>db_stmts := Suc (db_stmts d)\<rparr>) = (Inr a, d')"
  by (auto simp: pg_run_def Let_def split: fault.splits prod.splits sum.splits)

lemma exec_stmt_in_tx:
  assumes "exec_stmt env ctx stmt w = (r, w')" "TxFromContext ctx = Some tx" "pw_txs w tx = Some d"
  obtains d' where "pg_run env stmt d = (r, d')" "w' = w\<lparr>pw_txs := (pw_txs w)(tx \<mapsto> d')\<rparr>"
  using assms by (auto simp: exec_stmt_def Executor_def split: prod.splits)

lemma Save_in_tx:
  assumes "repo_Save K L env ctx o' w = (res, w')" "TxFromContext ctx = Some tx" "pw_txs w tx = Some d"
  shows "\<exists>d'. w' = w\<lparr>pw_txs := (pw_txs w)(tx \<mapsto> d')\<rparr>"
proof (cases "il_Marshal L (or_items o')")
  case (Inl e)
  then have "w' = w\<lparr>pw_txs := (pw_txs w)(tx \<mapsto> d)\<rparr>" using assms(1,3) by (simp add: repo_Save_def fun_upd_idem)
  then show ?thesis by blast
next
  case (Inr js)
  obtain r w1 where x: "exec_stmt env ctx (upsert_stmt (or_ID o') (row_of L o' js)) w = (r, w1)" by (metis surj_pair)
  with assms(1) Inr have "w' = w1" by (auto simp: repo_Save_def split: sum.splits if_splits)
  with exec_stmt_in_tx [OF x assms(2,3)] show ?thesis by metis
qed

text \<open>What a nil from Save in a transaction has written.\<close>

definition saved_as :: "items_lib \<Rightarrow> order \<Rightarrow> shop_db \<Rightarrow> shop_db \<Rightarrow> bool" where
  "saved_as L o' d d' \<longleftrightarrow> (\<exists>js. il_Marshal L (or_items o') = Inr js \<and>
     sd_orders d' = (sd_orders d)(or_ID o' \<mapsto> row_of L o' js)) \<and>
     (\<forall>old. sd_orders d (or_ID o') = Some old \<longrightarrow> ow_version old = or_version o' - 1) \<and> db_rows d' = db_rows d"

lemma upsert_Inr:
  "upsert_stmt i row d = (Inr n, d') \<Longrightarrow> n \<noteq> 0 \<Longrightarrow>
     sd_orders d' = (sd_orders d)(i \<mapsto> row) \<and> (\<forall>old. sd_orders d i = Some old \<longrightarrow> ow_version old = ow_version row - 1) \<and>
     db_rows d' = db_rows d"
  by (auto simp: upsert_stmt_def split: option.splits if_splits)

lemma Save_nil:
  assumes "repo_Save K L env ctx o' w = (None, w')" "TxFromContext ctx = Some tx" "pw_txs w tx = Some d"
  shows "\<exists>d'. w' = w\<lparr>pw_txs := (pw_txs w)(tx \<mapsto> d')\<rparr> \<and> saved_as L o' d d'"
proof -
  obtain js n where js: "il_Marshal L (or_items o') = Inr js"
    and x: "exec_stmt env ctx (upsert_stmt (or_ID o') (row_of L o' js)) w = (Inr n, w')" and n: "n \<noteq> 0"
    using assms(1) by (auto simp: repo_Save_def split: sum.splits prod.splits if_splits)
  obtain d' where d': "pg_run env (upsert_stmt (or_ID o') (row_of L o' js)) d = (Inr n, d')"
    "w' = w\<lparr>pw_txs := (pw_txs w)(tx \<mapsto> d')\<rparr>"
    using exec_stmt_in_tx [OF x assms(2,3)] by metis
  from upsert_Inr [OF pg_run_Inr [OF d'(1)] n] js have "saved_as L o' d d'"
    by (auto simp: saved_as_def row_of_def)
  with d'(2) show ?thesis by blast
qed

lemma stage_keeps_orders:
  assumes "pgx_Stage env s c topic events w = (None, w2)" "TxFromContext c = Some tx" "pw_txs w tx = Some d"
    "pw_txs w2 tx = Some d'"
  shows "sd_orders d' = sd_orders d"
  using assms
  by (auto simp: pgx_Stage_def pg_run_def Let_def pg_insert_spec split: if_splits sum.splits fault.splits)

text \<open>The order is stored under its version guard, and its events are staged, or neither.\<close>

definition persisted ::
  "items_lib \<Rightarrow> pg_env \<Rightarrow> order_body codec \<Rightarrow> gctx \<Rightarrow> string \<Rightarrow> order \<Rightarrow> shop_db \<Rightarrow> shop_db \<Rightarrow> bool" where
  "persisted L env cd ctx topic o' d d' \<longleftrightarrow>
     (\<exists>js. il_Marshal L (or_items o') = Inr js \<and> sd_orders d' = (sd_orders d)(or_ID o' \<mapsto> row_of L o' js)) \<and>
     (\<forall>old. sd_orders d (or_ID o') = Some old \<longrightarrow> ow_version old = or_version o' - 1) \<and>
     (\<exists>new tx. db_rows d' = db_rows d @ new \<and> staged_as env cd (WithTx ctx tx) topic (or_events o') new)"

definition unchanged :: "shop_db \<Rightarrow> shop_db \<Rightarrow> bool" where
  "unchanged d d' \<longleftrightarrow> sd_orders d' = sd_orders d \<and> db_rows d' = db_rows d"

text \<open>The headers of every message the codec makes survive the JSONB column.\<close>

definition headers_survive :: "pg_env \<Rightarrow> 'b codec \<Rightarrow> bool" where
  "headers_survive env cd \<longleftrightarrow> (\<forall>c ev msg. cd_Marshal cd c ev = Inr msg \<longrightarrow> json_survives env (msg_Metadata msg))"

lemma save_and_stage_in_tx: "runs_in_tx (save_and_stage (pgx_deps K L env s m topic) o')"
  unfolding runs_in_tx_def
proof (intro allI impI, goal_cases)
  case (1 c tx w d res w')
  obtain e w1 where sv: "repo_Save K L env c o' w = (e, w1)" by (metis surj_pair)
  obtain d1 where w1: "w1 = w\<lparr>pw_txs := (pw_txs w)(tx \<mapsto> d1)\<rparr>" using Save_in_tx [OF sv 1(1,2)] by blast
  show ?case
  proof (cases e)
    case (Some err)
    then show ?thesis using 1(3) sv w1 by (auto simp: save_and_stage_def pgx_deps_def)
  next
    case None
    obtain e2 w2 where st: "pgx_Stage env s c topic (or_events o') w1 = (e2, w2)" by (metis surj_pair)
    have "\<exists>d'. w2 = w1\<lparr>pw_txs := (pw_txs w1)(tx \<mapsto> d')\<rparr>"
      by (rule runs_in_txD [OF pgx_Stage_runs_in_tx [of env s topic "or_events o'"] 1(1), where res = "Ret e2"])
        (simp_all add: w1 st [unfolded w1])
    then show ?thesis using 1(3) sv st None w1 by (auto simp: save_and_stage_def pgx_deps_def)
  qed
qed

lemma save_and_stage_nil:
  assumes "save_and_stage (pgx_deps K L env s m topic) o' (WithTx ctx tx) w = (Ret None, w2)"
    "pw_txs w tx = Some d" "pw_txs w2 tx = Some d'" "or_events o' \<noteq> []" "headers_survive env (ps_codec s)"
  shows "persisted L env (ps_codec s) ctx topic o' d d'"
proof -
  let ?c = "WithTx ctx tx"
  obtain w1 where sv: "repo_Save K L env ?c o' w = (None, w1)"
    and st: "pgx_Stage env s ?c topic (or_events o') w1 = (None, w2)"
    using assms(1) by (auto simp: save_and_stage_def pgx_deps_def split: prod.splits option.splits)
  obtain d1 where d1: "w1 = w\<lparr>pw_txs := (pw_txs w)(tx \<mapsto> d1)\<rparr>" "saved_as L o' d d1"
    using Save_nil [OF sv TxFromContext_WithTx assms(2)] by blast
  then have tx1: "pw_txs w1 tx = Some d1" by simp
  have "\<exists>db' new. pw_txs w2 tx = Some db' \<and> db_rows db' = db_rows d1 @ new \<and>
      staged_as env (ps_codec s) ?c topic (or_events o') new"
    by (rule pgx_Stage_nil [OF st assms(4) TxFromContext_WithTx tx1]) (use assms(5) in \<open>auto simp: headers_survive_def\<close>)
  moreover have "sd_orders d' = sd_orders d1" by (rule stage_keeps_orders [OF st TxFromContext_WithTx tx1 assms(3)])
  ultimately show ?thesis using d1(2) assms(3) by (auto simp: persisted_def saved_as_def)
qed

text \<open>The unit of work as a whole.\<close>

lemma unit_of_work:
  assumes "tx_laws (tm_pool m)" "or_events o' \<noteq> []" "headers_survive env (ps_codec s)"
    "WithinTx m ctx (save_and_stage (pgx_deps K L env s m topic) o') w = (res, w')"
  shows "pw_txs w' = pw_txs w \<and>
    (case res of Ret None \<Rightarrow> persisted L env (ps_codec s) ctx topic o' (pw_db w) (pw_db w')
     | Ret (Some e) \<Rightarrow> pw_db w' = pw_db w \<or> persisted L env (ps_codec s) ctx topic o' (pw_db w) (pw_db w')
     | Panic p \<Rightarrow> pw_db w' = pw_db w)"
  using assms(1) save_and_stage_in_tx assms(4)
proof (cases rule: WithinTx_cases)
  case (undone tx w2 fres)
  then show ?thesis by (auto split: outcome.splits option.splits)
next
  case (unsure tx w2 d err)
  have "persisted L env (ps_codec s) ctx topic o' (pw_db w) d"
    by (rule save_and_stage_nil [OF unsure(2) _ unsure(3) assms(2,3)]) simp
  with unsure show ?thesis by auto
next
  case (committed tx w2 d)
  have "persisted L env (ps_codec s) ctx topic o' (pw_db w) d"
    by (rule save_and_stage_nil [OF committed(2) _ committed(3) assms(2,3)]) simp
  with committed show ?thesis by auto
qed auto

lemma Place_events: "order_Place K items e (order_New K i c) = (None, o') \<Longrightarrow>
    or_ID o' = i \<and> or_status o' = StatusPlaced \<and> (\<exists>ev. or_events o' = [ev])"
  by (auto simp: order_Place_def order_New_def Let_def split: if_splits option.splits)

lemma Ship_events: "order_Ship K e carrier o0 = (None, o') \<Longrightarrow>
    or_ID o' = or_ID o0 \<and> or_status o0 = StatusPlaced \<and> or_status o' = StatusShipped \<and>
    or_version o' = co_IncrementVersion K (or_version o0) \<and>
    or_events o' = or_events o0 @ [NewOrderShipped K e (or_ID o0) (or_version o') carrier]"
  by (auto simp: order_Ship_def Let_def split: if_splits)

section \<open>Properties\<close>

lemma place_Handle_atomic:
  assumes "tx_laws (tm_pool m)" and "headers_survive env (ps_codec s)"
    and "place_Handle K (pgx_deps K L env s m topic) newID ctx orderID customerID items w = (res, w')"
  shows "pw_txs w' = pw_txs w \<and>
    (case res of
       Ret (Inr (i, tot)) \<Rightarrow> i = orderID \<and> (\<exists>o' ev. order_Place K items newID (order_New K orderID customerID) = (None, o') \<and>
         or_events o' = [ev] \<and> tot = or_totalCents o' \<and> persisted L env (ps_codec s) ctx topic o' (pw_db w) (pw_db w'))
     | Ret (Inl e) \<Rightarrow> unchanged (pw_db w) (pw_db w') \<or>
         (\<exists>o'. order_Place K items newID (order_New K orderID customerID) = (None, o') \<and>
            persisted L env (ps_codec s) ctx topic o' (pw_db w) (pw_db w'))
     | Panic p \<Rightarrow> unchanged (pw_db w) (pw_db w'))"
proof -
  obtain e o' where pl: "order_Place K items newID (order_New K orderID customerID) = (e, o')" by (metis surj_pair)
  show ?thesis
  proof (cases e)
    case (Some err)
    then show ?thesis using assms(3) pl by (auto simp: place_Handle_def unchanged_def)
  next
    case None
    obtain ev where ev: "or_events o' = [ev]" using Place_events pl None by blast
    then have ne: "or_events o' \<noteq> []" by simp
    obtain r w1 where u: "WithinTx m ctx (save_and_stage (pgx_deps K L env s m topic) o') w = (r, w1)" by (metis surj_pair)
    have w1: "w' = w1" "res = (case r of Panic p \<Rightarrow> Panic p | Ret (Some err) \<Rightarrow> Ret (Inl (OtherErr err))
        | Ret None \<Rightarrow> Ret (Inr (orderID, or_totalCents o')))"
      using assms(3) pl None u
      by (auto simp: place_Handle_def pgx_deps_def order_ClearEvents_def split: outcome.splits option.splits)
    from unit_of_work [OF assms(1) ne assms(2) u] w1 pl None ev show ?thesis
      by (auto simp: unchanged_def split: outcome.splits option.splits)
  qed
qed

text \<open>
  C8: Placing an order is atomic with its event. When PlaceOrder answers, the orders table has
  the placed order under its version guard and the outbox has exactly the OrderPlaced it
  recorded, staged in the caller's context; when it fails, both tables are as before, except
  that a failed commit may have taken effect, and then again as a whole; a panic leaves
  nothing. No transaction is left open.
\<close>

theorem place_order_atomic:
  assumes "tx_laws (tm_pool m)" and "headers_survive env (ps_codec s)"
    and "place_Handle K (pgx_deps K L env s m topic) newID ctx orderID customerID items w = (res, w')"
  shows "pw_txs w' = pw_txs w \<and>
    (case res of
       Ret (Inr (i, tot)) \<Rightarrow> i = orderID \<and> (\<exists>o' ev. order_Place K items newID (order_New K orderID customerID) = (None, o') \<and>
         or_events o' = [ev] \<and> tot = or_totalCents o' \<and> persisted L env (ps_codec s) ctx topic o' (pw_db w) (pw_db w'))
     | Ret (Inl e) \<Rightarrow> unchanged (pw_db w) (pw_db w') \<or>
         (\<exists>o'. order_Place K items newID (order_New K orderID customerID) = (None, o') \<and>
            persisted L env (ps_codec s) ctx topic o' (pw_db w) (pw_db w'))
     | Panic p \<Rightarrow> unchanged (pw_db w) (pw_db w'))"
  using assms by (rule place_Handle_atomic)

lemma exec_stmt_on_pool:
  assumes "exec_stmt env ctx stmt w = (r, w')" "TxFromContext ctx = None"
  obtains d' where "pg_run env stmt (pw_db w) = (r, d')" "w' = w\<lparr>pw_db := d'\<rparr>"
  using assms by (auto simp: exec_stmt_def Executor_def split: prod.splits)

lemma pg_run_find: "pg_run env (find_stmt i) d = (r, d') \<Longrightarrow> d' = d\<lparr>db_stmts := Suc (db_stmts d)\<rparr>"
  by (auto simp: pg_run_def find_stmt_def Let_def split: fault.splits)

lemma FindByID_cases:
  assumes "repo_FindByID K L env ctx i w = (r, w1)" "TxFromContext ctx = None"
  shows "unchanged (pw_db w) (pw_db w1) \<and> pw_txs w1 = pw_txs w \<and>
    (\<forall>o0. r = Inr o0 \<longrightarrow> (\<exists>row items. sd_orders (pw_db w) i = Some row \<and> il_Unmarshal L (ow_items row) = Inr items \<and>
       o0 = order_Hydrate K i (ow_customer_id row) (ow_status row) (ow_version row) (ow_total_cents row) items))"
proof -
  obtain q w2 where x: "exec_stmt env ctx (find_stmt i) w = (q, w2)" by (metis surj_pair)
  obtain d' where d': "pg_run env (find_stmt i) (pw_db w) = (q, d')" "w2 = w\<lparr>pw_db := d'\<rparr>"
    using exec_stmt_on_pool [OF x assms(2)] by metis
  have w2: "w1 = w2" using assms(1) x by (auto simp: repo_FindByID_def split: sum.splits option.splits)
  have "unchanged (pw_db w) (pw_db w1) \<and> pw_txs w1 = pw_txs w"
    using pg_run_find [OF d'(1)] d'(2) w2 by (simp add: unchanged_def)
  moreover have "\<exists>row items. sd_orders (pw_db w) i = Some row \<and> il_Unmarshal L (ow_items row) = Inr items \<and>
       o0 = order_Hydrate K i (ow_customer_id row) (ow_status row) (ow_version row) (ow_total_cents row) items"
    if r: "r = Inr o0" for o0
  proof -
    obtain row items where q: "q = Inr (Some row)" "il_Unmarshal L (ow_items row) = Inr items"
      "o0 = order_Hydrate K i (ow_customer_id row) (ow_status row) (ow_version row) (ow_total_cents row) items"
      using assms(1) x r by (auto simp: repo_FindByID_def split: sum.splits option.splits)
    from pg_run_Inr [OF d'(1) [unfolded q(1)]] q show ?thesis by (auto simp: find_stmt_def)
  qed
  ultimately show ?thesis by blast
qed

lemma Hydrate_simps [simp]:
  "or_ID (order_Hydrate K i c st v t its) = i" "or_status (order_Hydrate K i c st v t its) = st"
  "or_version (order_Hydrate K i c st v t its) = v" "or_events (order_Hydrate K i c st v t its) = []"
  by (simp_all add: order_Hydrate_def order_New_def)

lemma persisted_cong:
  "unchanged d d1 \<Longrightarrow> persisted L env cd ctx topic o' d1 d' = persisted L env cd ctx topic o' d d'"
  by (simp add: unchanged_def persisted_def)

text \<open>
  The order goes from placed to shipped: the row is stored with the next version, under the
  guard of the version read, together with exactly one OrderShipped.
\<close>

definition ships ::
  "core_lib \<Rightarrow> items_lib \<Rightarrow> pg_env \<Rightarrow> order_body codec \<Rightarrow> gctx \<Rightarrow> string \<Rightarrow> string \<Rightarrow> string \<Rightarrow> string \<Rightarrow>
   shop_db \<Rightarrow> shop_db \<Rightarrow> bool" where
  "ships K L env cd ctx topic newID orderID carrier d d' \<longleftrightarrow>
     (\<exists>row o'. sd_orders d orderID = Some row \<and> ow_status row = StatusPlaced \<and>
        or_ID o' = orderID \<and> or_status o' = StatusShipped \<and> or_version o' = ow_version row + 1 \<and>
        or_events o' = [NewOrderShipped K newID orderID (ow_version row + 1) carrier] \<and>
        persisted L env cd ctx topic o' d d')"

lemma ship_Handle_once:
  assumes "tx_laws (tm_pool m)" and "headers_survive env (ps_codec s)" and "core_ok K" and "TxFromContext ctx = None"
    and "ship_Handle K (pgx_deps K L env s m topic) newID ctx orderID carrier w = (res, w')"
  shows "pw_txs w' = pw_txs w \<and>
    (case res of
       Ret (Inr i) \<Rightarrow> i = orderID \<and>
         ((\<exists>row. sd_orders (pw_db w) orderID = Some row \<and> ow_status row = StatusShipped) \<and> unchanged (pw_db w) (pw_db w') \<or>
          ships K L env (ps_codec s) ctx topic newID orderID carrier (pw_db w) (pw_db w'))
     | Ret (Inl e) \<Rightarrow> unchanged (pw_db w) (pw_db w') \<or>
         ships K L env (ps_codec s) ctx topic newID orderID carrier (pw_db w) (pw_db w')
     | Panic p \<Rightarrow> unchanged (pw_db w) (pw_db w'))"
proof -
  let ?h = "pgx_deps K L env s m topic"
  obtain r w1 where f: "repo_FindByID K L env ctx orderID w = (r, w1)" by (metis surj_pair)
  note find = FindByID_cases [OF f assms(4)]
  show ?thesis
  proof (cases r)
    case (Inl err)
    then have "res = Ret (Inl (OtherErr err))" "w' = w1" using assms(5) f by (auto simp: ship_Handle_def pgx_deps_def)
    then show ?thesis using find by simp
  next
    case (Inr o0)
    then obtain row items where row: "sd_orders (pw_db w) orderID = Some row"
      and o0: "o0 = order_Hydrate K orderID (ow_customer_id row) (ow_status row) (ow_version row) (ow_total_cents row) items"
      using find by blast
    obtain e o' where sh: "order_Ship K newID carrier o0 = (e, o')" by (metis surj_pair)
    show ?thesis
    proof (cases e)
      case (Some err)
      have w1: "w' = w1" using assms(5) f Inr sh Some
        by (auto simp: ship_Handle_def pgx_deps_def split: order_err.splits if_splits)
      have "\<forall>i. res = Ret (Inr i) \<longrightarrow> i = orderID \<and> ow_status row = StatusShipped" and "\<forall>p. res \<noteq> Panic p"
        using assms(5) f Inr sh Some o0
        by (auto simp: ship_Handle_def pgx_deps_def order_Ship_def Let_def split: order_err.splits if_splits)
      then show ?thesis using find w1 row by (auto split: outcome.splits sum.splits)
    next
      case None
      note ev = Ship_events [OF sh [unfolded None]]
      then have ne: "or_events o' \<noteq> []" by simp
      obtain u w2 where u: "WithinTx m ctx (save_and_stage ?h o') w1 = (u, w2)" by (metis surj_pair)
      have w2: "w' = w2" "res = (case u of Panic p \<Rightarrow> Panic p | Ret (Some err) \<Rightarrow> Ret (Inl (OtherErr err))
          | Ret None \<Rightarrow> Ret (Inr orderID))"
        using assms(5) f Inr sh None u by (auto simp: ship_Handle_def pgx_deps_def split: outcome.splits option.splits)
      have un: "unchanged (pw_db w) (pw_db w1)" "pw_txs w1 = pw_txs w" using find by auto
      note uw = unit_of_work [OF assms(1) ne assms(2) u] persisted_cong [OF un(1)]
      have o': "or_ID o' = orderID" "or_status o' = StatusShipped" "ow_status row = StatusPlaced"
        "or_version o' = ow_version row + 1" "or_events o' = [NewOrderShipped K newID orderID (ow_version row + 1) carrier]"
        using ev assms(3) by (auto simp: o0 core_ok_def)
      show ?thesis
        using uw w2 un o' row by (auto simp: ships_def split: outcome.splits option.splits)
    qed
  qed
qed

text \<open>
  C14: Shipping is atomic with its event and happens once. When ShipOrder answers, the order was
  found and was already shipped, and then nothing has changed and no event was staged, or it
  was placed, and then the table has it shipped with the next version, guarded by the version
  that was read, and the outbox has exactly one OrderShipped for it. When it fails both
  tables are as before, except for a failed commit, which is all or nothing.
\<close>

theorem ship_order_once:
  assumes "tx_laws (tm_pool m)" and "headers_survive env (ps_codec s)" and "core_ok K" and "TxFromContext ctx = None"
    and "ship_Handle K (pgx_deps K L env s m topic) newID ctx orderID carrier w = (res, w')"
  shows "pw_txs w' = pw_txs w \<and>
    (case res of
       Ret (Inr i) \<Rightarrow> i = orderID \<and>
         ((\<exists>row. sd_orders (pw_db w) orderID = Some row \<and> ow_status row = StatusShipped) \<and> unchanged (pw_db w) (pw_db w') \<or>
          ships K L env (ps_codec s) ctx topic newID orderID carrier (pw_db w) (pw_db w'))
     | Ret (Inl e) \<Rightarrow> unchanged (pw_db w) (pw_db w') \<or>
         ships K L env (ps_codec s) ctx topic newID orderID carrier (pw_db w) (pw_db w')
     | Panic p \<Rightarrow> unchanged (pw_db w) (pw_db w'))"
  using assms by (rule ship_Handle_once)

text \<open>The contents a statement in this context works on.\<close>

definition visible :: "gctx \<Rightarrow> 'd pgworld \<Rightarrow> 'd option" where
  "visible ctx w = (case Executor ctx of OnPool \<Rightarrow> Some (pw_db w) | OnTx tx \<Rightarrow> pw_txs w tx)"

lemma exec_stmt_visible:
  assumes "exec_stmt env ctx stmt w = (r, w')"
  shows "(visible ctx w = None \<and> r = Inl ErrTxClosed \<and> w' = w) \<or>
    (\<exists>d d'. visible ctx w = Some d \<and> visible ctx w' = Some d' \<and> pg_run env stmt d = (r, d'))"
  using assms by (auto simp: exec_stmt_def visible_def split: executor.splits option.splits prod.splits)

lemma Save_visible_nil:
  assumes "repo_Save K L env ctx o' w = (None, w')"
  obtains d d' js where "visible ctx w = Some d" "visible ctx w' = Some d'" "il_Marshal L (or_items o') = Inr js"
    "sd_orders d' = (sd_orders d)(or_ID o' \<mapsto> row_of L o' js)"
    "\<forall>old. sd_orders d (or_ID o') = Some old \<longrightarrow> ow_version old = or_version o' - 1"
proof -
  obtain js n where js: "il_Marshal L (or_items o') = Inr js"
    and x: "exec_stmt env ctx (upsert_stmt (or_ID o') (row_of L o' js)) w = (Inr n, w')" and n: "n \<noteq> 0"
    using assms by (auto simp: repo_Save_def split: sum.splits prod.splits if_splits)
  obtain d d' where d: "visible ctx w = Some d" "visible ctx w' = Some d'"
    "pg_run env (upsert_stmt (or_ID o') (row_of L o' js)) d = (Inr n, d')"
    using exec_stmt_visible [OF x] by auto
  from upsert_Inr [OF pg_run_Inr [OF d(3)] n] show thesis
    using that [OF d(1,2) js] by (auto simp: row_of_def)
qed

lemma pg_run_upsert_refused:
  assumes "pg_run env (upsert_stmt i row) d = (r, d')" "sd_orders d i = Some old" "ow_version old \<noteq> ow_version row - 1"
  shows "sd_orders d' = sd_orders d \<and> (r = Inr 0 \<or> (\<exists>e. r = Inl e))"
  using assms by (auto simp: pg_run_def upsert_stmt_def Let_def split: fault.splits)

lemma Save_refused:
  assumes "visible ctx w = Some d" "sd_orders d (or_ID o') = Some old" "ow_version old \<noteq> or_version o' - 1"
    "repo_Save K L env ctx o' w = (r, w')"
  shows "r \<noteq> None \<and> (\<exists>d'. visible ctx w' = Some d' \<and> sd_orders d' = sd_orders d)"
proof (cases "il_Marshal L (or_items o')")
  case (Inl e)
  then show ?thesis using assms by (auto simp: repo_Save_def)
next
  case (Inr js)
  obtain q w1 where x: "exec_stmt env ctx (upsert_stmt (or_ID o') (row_of L o' js)) w = (q, w1)" by (metis surj_pair)
  obtain d' where d': "visible ctx w1 = Some d'" "pg_run env (upsert_stmt (or_ID o') (row_of L o' js)) d = (q, d')"
    using exec_stmt_visible [OF x] assms(1) by auto
  have "sd_orders d' = sd_orders d \<and> (q = Inr 0 \<or> (\<exists>e. q = Inl e))"
    by (rule pg_run_upsert_refused [OF d'(2) assms(2)]) (simp add: row_of_def assms(3))
  then show ?thesis using assms(4) Inr x d' by (auto simp: repo_Save_def)
qed

lemma Find_visible:
  assumes "repo_FindByID K L env ctx i w = (r, w')" "visible ctx w = Some d" "sd_orders d i = Some row"
    "il_Unmarshal L (ow_items row) = Inr items"
  shows "r = Inr (order_Hydrate K i (ow_customer_id row) (ow_status row) (ow_version row) (ow_total_cents row) items) \<or>
    (\<exists>err. r = Inl (Errorf (''pgxrepo: find order '' @ i) [err]))"
proof -
  obtain q w1 where x: "exec_stmt env ctx (find_stmt i) w = (q, w1)" by (metis surj_pair)
  obtain d' where d': "pg_run env (find_stmt i) d = (q, d')"
    using exec_stmt_visible [OF x] assms(2) by auto
  then have "q = Inr (Some row) \<or> (\<exists>e. q = Inl e)"
    using assms(3) by (auto simp: pg_run_def find_stmt_def Let_def split: fault.splits)
  then show ?thesis using assms(1,4) x by (auto simp: repo_FindByID_def)
qed

text \<open>
  C24: The repository never loses an update and reads back what it stored. After a Save that
  returned nil, a second Save of the same order at the same version (the work of someone who
  had loaded the same state) does not return nil and leaves the stored row as it was; and
  FindByID in between returns exactly the order that was saved, without its recorded events,
  unless the server fails the query.
\<close>

theorem repo_no_lost_update:
  assumes "items_ok L" and "repo_Save K L env ctx o1 w = (None, w1)"
    and "or_ID o2 = or_ID o1" and "or_version o2 = or_version o1" and "repo_Save K L env ctx o2 w1 = (r2, w2)"
    and "repo_FindByID K L env ctx (or_ID o1) w1 = (r3, w3)"
  shows "r2 \<noteq> None \<and> map_option sd_orders (visible ctx w2) = map_option sd_orders (visible ctx w1) \<and>
    (r3 = Inr (order_ClearEvents o1) \<or> (\<exists>err. r3 = Inl (Errorf (''pgxrepo: find order '' @ or_ID o1) [err])))"
proof -
  from assms(2) obtain d d1 js where "visible ctx w = Some d"
    and d1: "visible ctx w1 = Some d1" "il_Marshal L (or_items o1) = Inr js"
      "sd_orders d1 = (sd_orders d)(or_ID o1 \<mapsto> row_of L o1 js)"
    by (rule Save_visible_nil)
  have row: "sd_orders d1 (or_ID o1) = Some (row_of L o1 js)" by (simp add: d1(3))
  have "r2 \<noteq> None \<and> (\<exists>d'. visible ctx w2 = Some d' \<and> sd_orders d' = sd_orders d1)"
    by (rule Save_refused [OF d1(1) _ _ assms(5), of "row_of L o1 js"])
      (use row assms(3,4) in \<open>simp_all add: row_of_def\<close>)
  moreover have "il_Unmarshal L (ow_items (row_of L o1 js)) = Inr (or_items o1)"
    using assms(1) d1(2) by (simp add: items_ok_def row_of_def)
  note Find_visible [OF assms(6) d1(1) row this]
  moreover have "order_Hydrate K (or_ID o1) (ow_customer_id (row_of L o1 js)) (ow_status (row_of L o1 js))
      (ow_version (row_of L o1 js)) (ow_total_cents (row_of L o1 js)) (or_items o1) = order_ClearEvents o1"
    by (simp add: order_Hydrate_def order_New_def order_ClearEvents_def row_of_def)
  ultimately show ?thesis using d1(1) by auto
qed

text \<open>
  The worker keeps the chain of causes. For a consumed OrderPlaced the ship command is
  dispatched in a context whose trace and correlation ids are those of the consumed message
  (or the worker's own, where the message has none) and whose causation id is the id of the
  consumed event, so the message of the OrderShipped staged in that context carries exactly
  these headers. It logs the order as shipped exactly when the dispatch succeeded. Any other event
  is refused without a dispatch.
\<close>

lemma worker_causation_chain:
  assumes "lib_ok CL"
  shows "(case ev_Body ev of
      ShippedBody c \<Rightarrow> \<exists>e. HandleOrderPlaced CL dispatch ctx ev name raw w = (Ret (Some e), [], w)
    | PlacedBody c t \<Rightarrow> \<exists>ctx2. snd (snd (HandleOrderPlaced CL dispatch ctx ev name raw w)) =
          snd (dispatch ctx2 (ev_AggregateID ev) DefaultCarrier w) \<and>
        (fst (HandleOrderPlaced CL dispatch ctx ev name raw w) = Ret None \<longleftrightarrow>
          fst (dispatch ctx2 (ev_AggregateID ev) DefaultCarrier w) = Ret None) \<and>
        (fst (snd (HandleOrderPlaced CL dispatch ctx ev name raw w)) \<noteq> [] \<longleftrightarrow>
          fst (dispatch ctx2 (ev_AggregateID ev) DefaultCarrier w) = Ret None) \<and>
        (\<forall>shipped msg. codec_Marshal CL ctx2 shipped = Inr msg \<and> ev_EventID ev \<noteq> [] \<longrightarrow>
           msg_Metadata msg (hn_CausationID CL) = Some (ev_EventID ev) \<and>
           (\<forall>m t. raw = Some m \<and> msg_Metadata m (hn_TraceID CL) = Some t \<and> t \<noteq> [] \<longrightarrow>
              msg_Metadata msg (hn_TraceID CL) = Some t) \<and>
           (\<forall>m t. raw = Some m \<and> msg_Metadata m (hn_CorrelationID CL) = Some t \<and> t \<noteq> [] \<longrightarrow>
              msg_Metadata msg (hn_CorrelationID CL) = Some t)))"
proof (cases "ev_Body ev")
  case (PlacedBody c t)
  let ?c1 = "case raw of Some m \<Rightarrow> RestoreCoreHeaders CL ctx (msg_Metadata m) | None \<Rightarrow> ctx"
  let ?c2 = "WithCausationID ?c1 (ev_EventID ev)"
  have h: "snd (snd (HandleOrderPlaced CL dispatch ctx ev name raw w)) = snd (dispatch ?c2 (ev_AggregateID ev) DefaultCarrier w)"
    "fst (HandleOrderPlaced CL dispatch ctx ev name raw w) = Ret None \<longleftrightarrow>
       fst (dispatch ?c2 (ev_AggregateID ev) DefaultCarrier w) = Ret None"
    "fst (snd (HandleOrderPlaced CL dispatch ctx ev name raw w)) \<noteq> [] \<longleftrightarrow>
       fst (dispatch ?c2 (ev_AggregateID ev) DefaultCarrier w) = Ret None"
    using PlacedBody by (auto simp: HandleOrderPlaced_def Let_def split: prod.splits outcome.splits option.splits)
  have ids: "CausationIDFrom (WithCausationID c v) = (if v = [] then None else Some v)"
    "TraceIDFrom (WithCausationID c v) = TraceIDFrom c" "CorrelationIDFrom (WithCausationID c v) = CorrelationIDFrom c" for c v
    by (simp_all add: CausationIDFrom_def TraceIDFrom_def CorrelationIDFrom_def WithCausationID_def stringValue_with)
  show ?thesis
    using PlacedBody h
    by (auto intro!: exI [of _ ?c2] simp: Marshal_headers [OF assms] ids Restore_ids map_get_def)
next
  case (ShippedBody c)
  then show ?thesis by (simp add: HandleOrderPlaced_def)
qed

text \<open>A shop for concrete evaluations: an empty database, and a JSON that knows the example items.\<close>

definition example_items_lib :: items_lib where
  "example_items_lib = \<lparr>il_Marshal = (\<lambda>its. if its = example_items then Inr ''[..]'' else Inl (ErrNew ''json'')),
     il_jsonb = (\<lambda>b. b), il_Unmarshal = (\<lambda>b. if b = ''[..]'' then Inr example_items else Inl (ErrNew ''json''))\<rparr>"

definition example_order_codec :: "order_body codec" where
  "example_order_codec = \<lparr>cd_Marshal = (\<lambda>ctx ev. Inr (new_message (ev_EventID ev) (ev_EventName ev))),
     cd_Unmarshal = (\<lambda>ctx msg. Ret (Inl (ErrNew ''none'')))\<rparr>"

definition example_shop :: "shop_db pgworld" where
  "example_shop = \<lparr>pw_db = \<lparr>db_rows = [], db_dead = [], db_seq = 1, db_uuids = 0, db_ticks = 0, db_stmts = 0,
     sd_orders = Map.empty\<rparr>, pw_txs = Map.empty\<rparr>"

definition example_deps :: "shop_db order_deps" where
  "example_deps = pgx_deps example_core example_items_lib example_env
     \<lparr>ps_codec = example_order_codec, ps_claimLease = defaultClaimLease\<rparr> (example_manager (\<lambda>d. False)) ''orders''"

lemma example_items_ok: "items_ok example_items_lib"
  by (auto simp: items_ok_def example_items_lib_def split: if_splits)

lemma example_headers: "headers_survive example_env example_order_codec"
  by (auto simp: headers_survive_def example_order_codec_def json_survives_def example_env_def)

lemma example_manager_laws: "tx_laws (tm_pool (example_manager (\<lambda>d. False)))"
  by (simp add: example_manager_def example_pool_laws)

lemma example_place:
  "order_Place example_core example_items ''e1'' (order_New example_core ''o1'' ''c1'') = (None, example_order)"
  by (simp add: example_order_def order_Place_def order_New_def example_items_def Let_def)

lemma example_order_more: "or_version example_order = 1" "or_customerID example_order = ''c1''"
  "or_events example_order = [NewOrderPlaced example_core ''e1'' ''o1'' 1 ''c1'' 350]"
  by (simp_all add: example_order_def order_Place_def order_New_def example_items_def example_core_def Let_def)

lemmas example_run = pgx_deps_def WithinTx_def example_manager_def example_pool_def save_and_stage_def
  repo_Save_def exec_stmt_def Executor_def WithTx_def TxFromContext_def background_def pg_run_def upsert_stmt_def
  example_items_lib_def example_env_def example_shop_def pgx_Stage_def pgx_stage_one_def example_order_codec_def
  example_order_fields example_order_more

theorem place_order_atomic_witness:
  "let (res, w') = place_Handle example_core example_deps ''e1'' background ''o1'' ''c1'' example_items example_shop
   in res = Ret (Inr (''o1'', 350)) \<and> sd_orders (pw_db w') ''o1'' \<noteq> None \<and> length (db_rows (pw_db w')) = 1"
proof -
  obtain res w' where r: "place_Handle example_core example_deps ''e1'' background ''o1'' ''c1'' example_items example_shop = (res, w')"
    by (metis surj_pair)
  have res: "res = Ret (Inr (''o1'', 350))"
    using r by (simp add: place_Handle_def example_place example_deps_def example_run order_ClearEvents_def Let_def)
  have laws: "headers_survive example_env (ps_codec \<lparr>ps_codec = example_order_codec, ps_claimLease = defaultClaimLease\<rparr>)"
    by (simp add: example_headers)
  note place = place_order_atomic [OF example_manager_laws laws r [unfolded example_deps_def]]
  from place res obtain o' where "or_ID o' = ''o1''" "persisted example_items_lib example_env example_order_codec background
      ''orders'' o' (pw_db example_shop) (pw_db w')" "length (or_events o') = 1"
    by (auto dest: Place_events)
  then have "sd_orders (pw_db w') ''o1'' \<noteq> None" "length (db_rows (pw_db w')) = 1"
    by (auto simp: persisted_def staged_as_def example_shop_def)
  with r res show ?thesis by simp
qed

text \<open>The same shop with the order placed.\<close>

definition example_placed_shop :: "shop_db pgworld" where
  "example_placed_shop = \<lparr>pw_db = \<lparr>db_rows = [], db_dead = [], db_seq = 1, db_uuids = 0, db_ticks = 0, db_stmts = 0,
     sd_orders = [''o1'' \<mapsto> row_of example_items_lib example_order ''[..]'']\<rparr>, pw_txs = Map.empty\<rparr>"

lemma example_ship_found:
  "repo_FindByID example_core example_items_lib example_env background ''o1'' example_placed_shop =
     (Inr (order_ClearEvents example_order), example_placed_shop\<lparr>pw_db := (pw_db example_placed_shop)\<lparr>db_stmts := 1\<rparr>\<rparr>)"
  by (simp add: repo_FindByID_def exec_stmt_def Executor_def TxFromContext_def background_def pg_run_def find_stmt_def
      example_env_def example_placed_shop_def row_of_def example_items_lib_def order_Hydrate_def order_New_def
      order_ClearEvents_def example_order_fields example_order_more Let_def)

definition example_shipped :: order where
  "example_shipped = snd (order_Ship example_core ''e2'' ''dhl'' (order_ClearEvents example_order))"

lemma example_ship:
  "order_Ship example_core ''e2'' ''dhl'' (order_ClearEvents example_order) = (None, example_shipped)"
  "or_ID example_shipped = ''o1''" "or_items example_shipped = example_items" "or_version example_shipped = 2"
  "or_events example_shipped = [NewOrderShipped example_core ''e2'' ''o1'' 2 ''dhl'']"
  by (simp_all add: example_shipped_def order_Ship_def order_ClearEvents_def example_order_fields example_order_more
      status_defs example_core_def Let_def)

theorem ship_order_once_witness:
  "let (res, w') = ship_Handle example_core example_deps ''e2'' background ''o1'' ''dhl'' example_placed_shop
   in res = Ret (Inr ''o1'') \<and> length (db_rows (pw_db w')) = 1"
proof -
  obtain res w' where r: "ship_Handle example_core example_deps ''e2'' background ''o1'' ''dhl'' example_placed_shop = (res, w')"
    by (metis surj_pair)
  have find: "hd_FindByID example_deps = repo_FindByID example_core example_items_lib example_env"
    by (simp add: example_deps_def pgx_deps_def)
  let ?w1 = "example_placed_shop\<lparr>pw_db := (pw_db example_placed_shop)\<lparr>db_stmts := 1\<rparr>\<rparr>"
  have "fst (hd_uow example_deps background (save_and_stage example_deps example_shipped) ?w1) = Ret None"
    by (simp add: example_deps_def example_run example_ship example_placed_shop_def row_of_def Let_def)
  then have res: "res = Ret (Inr ''o1'')"
    using r by (auto simp: ship_Handle_def find example_ship_found example_ship(1) split: prod.splits)
  have laws: "headers_survive example_env (ps_codec \<lparr>ps_codec = example_order_codec, ps_claimLease = defaultClaimLease\<rparr>)"
    by (simp add: example_headers)
  have notx: "TxFromContext background = None" by (simp add: TxFromContext_def background_def)
  have placed: "sd_orders (pw_db example_placed_shop) ''o1'' = Some (row_of example_items_lib example_order ''[..]'')"
    "ow_status (row_of example_items_lib example_order ''[..]'') \<noteq> StatusShipped"
    by (simp_all add: example_placed_shop_def row_of_def example_order_fields status_defs)
  note ship = ship_order_once [OF example_manager_laws laws example_core_ok notx r [unfolded example_deps_def]]
  from ship have "\<exists>row. sd_orders (pw_db example_placed_shop) ''o1'' = Some row \<and> (ow_status row = StatusShipped \<or>
      (\<exists>o' ev. or_events o' = [ev] \<and> persisted example_items_lib example_env example_order_codec background ''orders'' o'
         (pw_db example_placed_shop) (pw_db w')))"
    unfolding res outcome.case sum.case pgx_store.select_convs ships_def by blast
  with placed obtain o' ev where o': "or_events o' = [ev]"
    "persisted example_items_lib example_env example_order_codec background ''orders'' o'
       (pw_db example_placed_shop) (pw_db w')" by auto
  then obtain new where "db_rows (pw_db w') = db_rows (pw_db example_placed_shop) @ new" "length new = 1"
    by (auto simp: persisted_def staged_as_def)
  then have "length (db_rows (pw_db w')) = 1" by (simp add: example_placed_shop_def)
  with r res show ?thesis by simp
qed

theorem repo_no_lost_update_witness:
  "\<exists>w1 r2 w2. repo_Save example_core example_items_lib example_env background example_order example_shop = (None, w1) \<and>
     repo_Save example_core example_items_lib example_env background (order_ClearEvents example_order) w1 = (r2, w2) \<and> r2 \<noteq> None"
proof -
  obtain r w1 where s1: "repo_Save example_core example_items_lib example_env background example_order example_shop = (r, w1)"
    by (metis surj_pair)
  have r: "r = None" using s1 by (simp add: example_run Let_def)
  obtain r2 w2 where s2: "repo_Save example_core example_items_lib example_env background (order_ClearEvents example_order) w1 = (r2, w2)"
    by (metis surj_pair)
  obtain r3 w3 where s3: "repo_FindByID example_core example_items_lib example_env background (or_ID example_order) w1 = (r3, w3)"
    by (metis surj_pair)
  have "or_ID (order_ClearEvents example_order) = or_ID example_order"
    "or_version (order_ClearEvents example_order) = or_version example_order" by (simp_all add: order_ClearEvents_def)
  from repo_no_lost_update [OF example_items_ok s1 [unfolded r] this s2 s3] s1 s2 r show ?thesis by blast
qed

text \<open>A codec library over order events for concrete evaluations.\<close>

definition example_order_lib :: "(event_factory, order_body) codec_lib" where
  "example_order_lib = \<lparr>hn_EventID = ''event_id'', hn_EventName = ''event_name'', hn_AggregateID = ''aggregate_id'',
     hn_AggregateType = ''aggregate_type'', hn_OccurredAt = ''occurred_at'', hn_EventVersion = ''event_version'',
     hn_TraceID = ''trace_id'', hn_CausationID = ''causation_id'', hn_CorrelationID = ''correlation_id'',
     json_Marshal = (\<lambda>ev. Inr (ev_EventID ev)), json_Unmarshal = (\<lambda>b f. Inl (ErrNew ''none'')),
     fmt_RFC3339Nano = (\<lambda>t. ''2024-01-01T00:00:00Z'')\<rparr>"

end
