(* ===== verification/Orders_Service.thy ===== *)
theory Orders_Service
  imports Orders_App
begin

text \<open>
  The entry points of the example service: configuration from the environment
  (\<^verbatim>\<open>cmd/internal/runtime\<close>), the HTTP routes of the API (\<^verbatim>\<open>cmd/api\<close>) and of the reader (\<^verbatim>\<open>cmd/reader\<close>). The
  command bus and the query bus of the core dispatch to the one handler registered; JSON
  decoding of the request is an argument.
\<close>

section \<open>Environment\<close>

definition RequiredEnv :: "(string \<Rightarrow> string) \<Rightarrow> string \<Rightarrow> goerr + string" where
  "RequiredEnv getenv key =
     (let v = getenv key in if v = [] then Inl (Errorf (''env '' @ key @ '' is required'') []) else Inr v)"

definition EnvOr :: "(string \<Rightarrow> string) \<Rightarrow> string \<Rightarrow> string \<Rightarrow> string" where
  "EnvOr getenv key fallback = (let v = getenv key in if v \<noteq> [] then v else fallback)"

text \<open>\<^verbatim>\<open>strings.Split(s, ",")\<close>.\<close>

fun split_on :: "char \<Rightarrow> string \<Rightarrow> string list" where
  "split_on c [] = [[]]"
| "split_on c (x # xs) =
     (case split_on c xs of
        [] \<Rightarrow> [[]]
      | w # ws \<Rightarrow> if x = c then [] # w # ws else (x # w) # ws)"

definition BrokersFromEnv :: "(string \<Rightarrow> string) \<Rightarrow> goerr + string list" where
  "BrokersFromEnv getenv =
     (case RequiredEnv getenv ''KAFKA_BROKERS'' of
        Inl err \<Rightarrow> Inl err
      | Inr v \<Rightarrow> Inr (split_on CHR '','' v))"

section \<open>Routes\<close>

datatype reply = HttpError nat string | Created string int64 | Shown order_view | Aborted string

text \<open>
  POST /orders. \<open>body\<close> is the decoded request, \<open>fresh\<close> the id drawn for an order without one,
  \<open>dispatch\<close> the command bus with the place command, and \<open>errText\<close> is \<^verbatim>\<open>err.Error()\<close>; the result is the
  reply, the lines logged and the state after it. net/http ends the request on a panic.
\<close>

definition api_post_orders ::
  "core_lib \<Rightarrow> (order_err \<Rightarrow> string) \<Rightarrow>
   (gctx \<Rightarrow> string \<Rightarrow> string \<Rightarrow> item list \<Rightarrow> 'w \<Rightarrow> (order_err + string \<times> int64) outcome \<times> 'w) \<Rightarrow>
   string \<Rightarrow> gctx \<Rightarrow> goerr + string \<times> string \<times> item list \<Rightarrow> 'w \<Rightarrow> reply \<times> (string \<times> log_fields) list \<times> 'w" where
  "api_post_orders K errText dispatch fresh rctx body w =
     (case body of
        Inl err \<Rightarrow> (HttpError 400 (errText (OtherErr err)), [], w)
      | Inr (orderID0, customerID, items) \<Rightarrow>
          let orderID = (if orderID0 = [] then fresh else orderID0);
              ctx = WithCorrelationID rctx orderID
          in case dispatch ctx orderID customerID items w of
               (Panic p, w') \<Rightarrow> (Aborted p, [], w')
             | (Ret (Inl err), w') \<Rightarrow>
                 let logged = [(''place order failed'', [(''err'', errText err)])];
                     conflict = (case err of OtherErr e \<Rightarrow> errors_is e (ErrConcurrencyConflict K)
                                           | RuleViolation code msg \<Rightarrow> False)
                 in if conflict then (HttpError 409 (errText err), logged, w')
                    else (HttpError 400 (errText err), logged, w')
             | (Ret (Inr (i, tot)), w') \<Rightarrow> (Created i tot, [], w'))"

text \<open>GET /orders/{id} over the query bus. \<^verbatim>\<open>http.NotFound\<close> is an error reply with a fixed text.\<close>

definition reader_get_order :: "core_lib \<Rightarrow> (goerr \<Rightarrow> string) \<Rightarrow> string \<Rightarrow> view_store \<Rightarrow> reply \<times> (string \<times> log_fields) list" where
  "reader_get_order K errText i s =
     (case GetOrder_Handle K i s of
        Inl err \<Rightarrow>
          if errors_is err (ErrNotFound K) then (HttpError 404 ''404 page not found'', [])
          else (HttpError 500 (errText err), [(''get order failed'', [(''err'', errText err)])])
      | Inr v \<Rightarrow> (Shown v, []))"

text \<open>
  The handler the reader gives to its consumers: apply the event, always acknowledge. Its line is at
  debug level, below the level of the reader's logger.
\<close>

definition reader_apply :: "order_body envelope \<Rightarrow> view_store \<Rightarrow> goerr option \<times> (string \<times> log_fields) list \<times> view_store" where
  "reader_apply env s = (None, [(''projection updated'', [(''event_name'', env_Name env)])], view_Apply (env_Event env) s)"

text \<open>
  What the two services write: the API its result with \<^verbatim>\<open>writeJSON\<close>, the reader a view with the status
  that net/http implies, and both an error with \<^verbatim>\<open>http.Error\<close>. \<open>enc\<close> is the JSON encoding, and \<^verbatim>\<open>Encode\<close>
  adds a newline.
\<close>

definition json_line :: "goerr + bytes \<Rightarrow> bytes" where
  "json_line r = (case r of Inl _ \<Rightarrow> [] | Inr b \<Rightarrow> b @ [CHR 0x0A])"

definition api_writeJSON :: "('p \<Rightarrow> goerr + bytes) \<Rightarrow> nat \<Rightarrow> 'p \<Rightarrow> string \<times> nat \<times> bytes" where
  "api_writeJSON enc status body = (''application/json'', status, json_line (enc body))"

definition http_Error :: "nat \<Rightarrow> string \<Rightarrow> string \<times> nat \<times> bytes" where
  "http_Error code text = (''text/plain; charset=utf-8'', code, text @ [CHR 0x0A])"

definition api_respond :: "(string \<times> int64 \<Rightarrow> goerr + bytes) \<Rightarrow> reply \<Rightarrow> (string \<times> nat \<times> bytes) option" where
  "api_respond enc r =
     (case r of
        Created i tot \<Rightarrow> Some (api_writeJSON enc 201 (i, tot))
      | HttpError code text \<Rightarrow> Some (http_Error code text)
      | _ \<Rightarrow> None)"

definition reader_respond :: "(order_view \<Rightarrow> goerr + bytes) \<Rightarrow> reply \<Rightarrow> (string \<times> nat \<times> bytes) option" where
  "reader_respond enc r =
     (case r of
        Shown v \<Rightarrow> Some (''application/json'', 200, json_line (enc v))
      | HttpError code text \<Rightarrow> Some (http_Error code text)
      | _ \<Rightarrow> None)"

section \<open>Facts\<close>

lemma split_on_nonempty: "split_on c s \<noteq> []"
  by (cases s) (auto split: list.splits)

lemma split_on_parts: "w \<in> set (split_on c s) \<Longrightarrow> c \<notin> set w"
  by (induction s arbitrary: w) (auto split: list.splits if_splits)

text \<open>Splitting is undone by joining, so no broker is lost.\<close>

fun join_with :: "char \<Rightarrow> string list \<Rightarrow> string" where
  "join_with c [] = []"
| "join_with c [w] = w"
| "join_with c (w # ws) = w @ c # join_with c ws"

lemma join_with_Cons: "ws \<noteq> [] \<Longrightarrow> join_with c (w # ws) = w @ c # join_with c ws"
  by (cases ws) auto

lemma join_split: "join_with c (split_on c s) = s"
proof (induction s)
  case (Cons x xs)
  obtain w ws where ws: "split_on c xs = w # ws" using split_on_nonempty [of c xs] by (cases "split_on c xs") auto
  show ?case
  proof (cases "x = c")
    case True
    then show ?thesis using Cons ws by simp
  next
    case False
    have "join_with c ((x # w) # ws) = x # join_with c (w # ws)" by (cases ws) auto
    with False Cons ws show ?thesis by simp
  qed
qed simp

lemma brokers_from_env:
  assumes "BrokersFromEnv getenv = Inr brokers"
  shows "brokers \<noteq> [] \<and> join_with CHR '','' brokers = getenv ''KAFKA_BROKERS'' \<and> (\<forall>b \<in> set brokers. CHR '','' \<notin> set b)"
  using assms split_on_nonempty join_split split_on_parts
  by (auto simp: BrokersFromEnv_def RequiredEnv_def Let_def split: if_splits)

text \<open>
  A created order is stored and its event staged in a context whose correlation id is the id of
  the order; every other answer but the one after a failed commit leaves both tables alone.
\<close>

lemma api_created_persisted:
  assumes "tx_laws (tm_pool m)" and "headers_survive env (ps_codec s)"
    and "api_post_orders K errText (place_Handle K (pgx_deps K L env s m topic) newID) fresh rctx (Inr (oid, customerID, items)) w = (rep, logs, w')"
  shows "(\<forall>i tot. rep = Created i tot \<longrightarrow>
      i = (if oid = [] then fresh else oid) \<and>
      (\<exists>o'. order_Place K items newID (order_New K i customerID) = (None, o') \<and> tot = or_totalCents o' \<and>
         persisted L env (ps_codec s) (WithCorrelationID rctx i) topic o' (pw_db w) (pw_db w'))) \<and>
    (\<forall>p. rep = Aborted p \<longrightarrow> unchanged (pw_db w) (pw_db w'))"
proof -
  let ?i = "if oid = [] then fresh else oid"
  obtain res w1 where p: "place_Handle K (pgx_deps K L env s m topic) newID (WithCorrelationID rctx ?i) ?i customerID items w = (res, w1)"
    by (metis surj_pair)
  note at = place_Handle_atomic [OF assms(1,2) p]
  have rep: "w' = w1" "\<exists>code text. rep = (case res of Panic p \<Rightarrow> Aborted p | Ret (Inr (i, tot)) \<Rightarrow> Created i tot
      | Ret (Inl err) \<Rightarrow> HttpError code text)"
    using assms(3) p by (auto simp: api_post_orders_def Let_def split: outcome.splits sum.splits if_splits)
  show ?thesis
  proof (cases res)
    case (Panic x)
    then show ?thesis using at rep by simp
  next
    case (Ret y)
    show ?thesis
    proof (cases y)
      case (Inl err)
      then show ?thesis using rep Ret by auto
    next
      case (Inr z)
      obtain i tot where z: "z = (i, tot)" by (cases z)
      have c: "rep = Created i tot" using rep Ret Inr z by simp
      from at Ret Inr z obtain o' ev where "i = ?i" "or_events o' = [ev]" "tot = or_totalCents o'"
        "order_Place K items newID (order_New K ?i customerID) = (None, o')"
        "persisted L env (ps_codec s) (WithCorrelationID rctx ?i) topic o' (pw_db w) (pw_db w1)"
        by auto
      with c rep(1) show ?thesis by auto
    qed
  qed
qed

text \<open>The reader answers 404 exactly for an order it has no view of, and never 500; it logs nothing.\<close>

lemma reader_replies:
  "reader_get_order K errText i s =
     (case s i of None \<Rightarrow> HttpError 404 ''404 page not found'' | Some v \<Rightarrow> Shown v, [])"
  by (simp add: reader_get_order_def GetOrder_Handle_def view_Find_def split: option.split)

end
