(* ===== verification/Telemetry.thy ===== *)
theory Telemetry
  imports Bootstrap
begin

text \<open>
  Logging and tracing: the logger of \<^verbatim>\<open>logger/slogger\<close> over log/slog, and the provider of
  \<^verbatim>\<open>observability/otel\<close> over the OpenTelemetry SDK. A slog handler is its three operations \<open>slog_ops\<close>
  on a handler value; what the logger relies on of them is the locale \<open>slog_sink\<close>, which the
  handlers that \<^verbatim>\<open>New\<close> builds satisfy. The SDK's constructors are the fields of \<open>otel_sdk\<close>.
\<close>

section \<open>The logger\<close>

type_synonym 'v attrs = "(string \<times> 'v) list"

record 'v slog_record =
  sr_Level :: int
  sr_Msg :: string
  sr_Attrs :: "'v attrs"

record ('h, 'v, 'w) slog_ops =
  so_Enabled :: "'h \<Rightarrow> gctx \<Rightarrow> int \<Rightarrow> bool"
  so_Handle :: "'h \<Rightarrow> gctx \<Rightarrow> 'v slog_record \<Rightarrow> 'w \<Rightarrow> 'w"
  so_WithAttrs :: "'h \<Rightarrow> 'v attrs \<Rightarrow> 'h"

text \<open>
  What \<^verbatim>\<open>slog.Logger\<close> does with its handler: a record below the handler's level is not built, an
  error of the handler is dropped, and With of no attributes returns the same logger.
\<close>

definition slog_LogAttrs ::
  "('h, 'v, 'w) slog_ops \<Rightarrow> 'h \<Rightarrow> gctx \<Rightarrow> int \<Rightarrow> string \<Rightarrow> 'v attrs \<Rightarrow> 'w \<Rightarrow> 'w" where
  "slog_LogAttrs S h ctx level msg as w =
     (if \<not> so_Enabled S h ctx level then w
      else so_Handle S h ctx \<lparr>sr_Level = level, sr_Msg = msg, sr_Attrs = as\<rparr> w)"

definition slog_With :: "('h, 'v, 'w) slog_ops \<Rightarrow> 'h \<Rightarrow> 'v attrs \<Rightarrow> 'h" where
  "slog_With S h as = (if as = [] then h else so_WithAttrs S h as)"

text \<open>The two handlers of the standard library, on a list of the lines written.\<close>

record ('d, 'v) std_handler =
  sh_Writer :: 'd
  sh_Text :: bool
  sh_Level :: int
  sh_AddSource :: bool
  sh_Attrs :: "'v attrs"

record ('d, 'v) log_line =
  ll_Writer :: 'd
  ll_Text :: bool
  ll_Source :: bool
  ll_Record :: "'v slog_record"

definition std_slog :: "(('d, 'v) std_handler, 'v, ('d, 'v) log_line list) slog_ops" where
  "std_slog = \<lparr>so_Enabled = (\<lambda>h ctx l. sh_Level h \<le> l),
     so_Handle = (\<lambda>h ctx r w. w @ [\<lparr>ll_Writer = sh_Writer h, ll_Text = sh_Text h, ll_Source = sh_AddSource h,
                                    ll_Record = r\<lparr>sr_Attrs := sh_Attrs h @ sr_Attrs r\<rparr>\<rparr>]),
     so_WithAttrs = (\<lambda>h as. h\<lparr>sh_Attrs := sh_Attrs h @ as\<rparr>)\<rparr>"

record 'd logger_config =
  lc_Writer :: "'d option"
  lc_Level :: int
  lc_Format :: string
  lc_AddSource :: bool

record 'h logger =
  lg_inner :: 'h

definition logger_New :: "'d \<Rightarrow> 'd logger_config \<Rightarrow> ('d, 'v) std_handler logger" where
  "logger_New os_Stdout cfg =
     (let w = (case lc_Writer cfg of None \<Rightarrow> os_Stdout | Some w \<Rightarrow> w);
          opts = \<lparr>sh_Writer = w, sh_Text = False, sh_Level = lc_Level cfg, sh_AddSource = lc_AddSource cfg, sh_Attrs = []\<rparr>;
          h = (if lc_Format cfg = ''text'' then opts\<lparr>sh_Text := True\<rparr> else opts)
      in \<lparr>lg_inner = h\<rparr>)"

definition NewWithHandler :: "'h \<Rightarrow> 'h logger" where
  "NewWithHandler h = \<lparr>lg_inner = h\<rparr>"

definition toAnySlice :: "'v attrs \<Rightarrow> 'v attrs" where
  "toAnySlice as = map (\<lambda>i. as ! i) [0..<length as]"

fun toSlogAttrs :: "'v attrs \<Rightarrow> 'v attrs" where
  "toSlogAttrs [] = []"
| "toSlogAttrs (a # as) = (fst a, snd a) # toSlogAttrs as"

definition logger_Log ::
  "('h, 'v, 'w) slog_ops \<Rightarrow> 'h logger \<Rightarrow> gctx \<Rightarrow> int \<Rightarrow> string \<Rightarrow> 'v attrs \<Rightarrow> 'w \<Rightarrow> 'w" where
  "logger_Log S l ctx level msg as w = slog_LogAttrs S (lg_inner l) ctx level msg (toSlogAttrs as) w"

definition logger_With :: "('h, 'v, 'w) slog_ops \<Rightarrow> 'h logger \<Rightarrow> 'v attrs \<Rightarrow> 'h logger" where
  "logger_With S l as = \<lparr>lg_inner = slog_With S (lg_inner l) (toAnySlice (toSlogAttrs as))\<rparr>"

definition logger_Enabled :: "('h, 'v, 'w) slog_ops \<Rightarrow> 'h logger \<Rightarrow> gctx \<Rightarrow> int \<Rightarrow> bool" where
  "logger_Enabled S l ctx level = so_Enabled S (lg_inner l) ctx level"

lemma toAnySlice_id [simp]: "toAnySlice as = as"
  by (simp add: toAnySlice_def map_nth)

lemma toSlogAttrs_id [simp]: "toSlogAttrs as = as"
  by (induction as) simp_all

text \<open>What slog documents of a handler: WithAttrs adds attributes in front and changes no level.\<close>

locale slog_sink =
  fixes S :: "('h, 'v, 'w) slog_ops"
  assumes with_enabled: "so_Enabled S (so_WithAttrs S h as) = so_Enabled S h"
    and with_handle: "so_Handle S (so_WithAttrs S h as) ctx r w = so_Handle S h ctx (r\<lparr>sr_Attrs := as @ sr_Attrs r\<rparr>) w"
begin

lemma With_Log: "logger_Log S (logger_With S l as) ctx level msg bs w = logger_Log S l ctx level msg (as @ bs) w"
  by (simp add: logger_Log_def logger_With_def slog_LogAttrs_def slog_With_def with_enabled with_handle)

lemma With_With_Log:
  "logger_Log S (logger_With S (logger_With S l as) bs) ctx level msg cs w
     = logger_Log S l ctx level msg (as @ bs @ cs) w"
  by (simp add: With_Log)

lemma With_Enabled: "logger_Enabled S (logger_With S l as) = logger_Enabled S l"
  by (rule ext)+ (simp add: logger_Enabled_def logger_With_def slog_With_def with_enabled)

lemma disabled_silent: "\<not> logger_Enabled S l ctx level \<Longrightarrow> logger_Log S l ctx level msg as w = w"
  by (simp add: logger_Log_def logger_Enabled_def slog_LogAttrs_def)

end

interpretation std_sink: slog_sink "std_slog :: (('d, 'v) std_handler, 'v, ('d, 'v) log_line list) slog_ops"
  by unfold_locales (simp_all add: std_slog_def fun_eq_iff)

text \<open>
  A logger from New, with the attributes of any number of With calls: an enabled record is one
  line on the configured writer with the attributes in the order they were given, and a
  record below the configured level writes nothing.
\<close>

lemma logger_New_lines:
  "logger_Log std_slog (fold (\<lambda>as l. logger_With std_slog l as) ass (logger_New out cfg)) ctx level msg bs lines =
     (if level < lc_Level cfg then lines
      else lines @ [\<lparr>ll_Writer = (case lc_Writer cfg of None \<Rightarrow> out | Some w \<Rightarrow> w), ll_Text = (lc_Format cfg = ''text''),
                    ll_Source = lc_AddSource cfg,
                    ll_Record = \<lparr>sr_Level = level, sr_Msg = msg, sr_Attrs = concat ass @ bs\<rparr>\<rparr>])"
proof (induction ass arbitrary: bs rule: rev_induct)
  case Nil
  then show ?case
    by (simp add: logger_Log_def slog_LogAttrs_def logger_New_def std_slog_def not_le Let_def)
next
  case (snoc as ass)
  then show ?case by (simp add: std_sink.With_Log)
qed

section \<open>The observability provider\<close>

text \<open>\<^verbatim>\<open>errors.Join\<close> drops nil errors and is nil when all are.\<close>

definition errors_join :: "goerr option list \<Rightarrow> goerr option" where
  "errors_join es = (let xs = [e. Some e \<leftarrow> es] in if xs = [] then None else Some (ErrJoin xs))"

record ('kv, 'exp, 'rdr, 'prop) otel_config =
  oc_ServiceName :: string
  oc_ServiceVersion :: string
  oc_Environment :: string
  oc_SpanExporter :: "'exp option"
  oc_MetricReader :: "'rdr option"
  oc_Propagator :: "'prop option"
  oc_ExtraResource :: "'kv list"

text \<open>The SDK: the three resource attributes, the resource, the two providers, the propagator.\<close>

record ('kv, 'exp, 'rdr, 'prop, 'res, 'tp, 'mp) otel_sdk =
  sdk_ServiceName :: "string \<Rightarrow> 'kv"
  sdk_ServiceVersion :: "string \<Rightarrow> 'kv"
  sdk_DeploymentEnvironment :: "string \<Rightarrow> 'kv"
  sdk_resource :: "gctx \<Rightarrow> 'kv list \<Rightarrow> goerr + 'res"
  sdk_NewTracerProvider :: "'res \<Rightarrow> 'exp option \<Rightarrow> 'tp"
  sdk_NewMeterProvider :: "'res \<Rightarrow> 'rdr option \<Rightarrow> 'mp"
  sdk_composite :: 'prop

record ('tp, 'mp, 'prop) otel_provider =
  op_tp :: 'tp
  op_mp :: 'mp
  op_prop :: 'prop

definition otel_New ::
  "('kv, 'exp, 'rdr, 'prop, 'res, 'tp, 'mp) otel_sdk \<Rightarrow> gctx \<Rightarrow> ('kv, 'exp, 'rdr, 'prop) otel_config \<Rightarrow>
   goerr + ('tp, 'mp, 'prop) otel_provider" where
  "otel_New T ctx cfg =
     (if oc_ServiceName cfg = [] then Inl (ErrNew ''otel: Config.ServiceName is required'')
      else
        let attrs0 = [sdk_ServiceName T (oc_ServiceName cfg)];
            attrs1 = (if oc_ServiceVersion cfg \<noteq> [] then attrs0 @ [sdk_ServiceVersion T (oc_ServiceVersion cfg)] else attrs0);
            attrs2 = (if oc_Environment cfg \<noteq> [] then attrs1 @ [sdk_DeploymentEnvironment T (oc_Environment cfg)] else attrs1);
            attrs = attrs2 @ oc_ExtraResource cfg
        in case sdk_resource T ctx attrs of
             Inl err \<Rightarrow> Inl (Errorf ''otel: build resource'' [err])
           | Inr res \<Rightarrow>
               let tp = sdk_NewTracerProvider T res (oc_SpanExporter cfg);
                   mp = sdk_NewMeterProvider T res (oc_MetricReader cfg);
                   prop = (case oc_Propagator cfg of None \<Rightarrow> sdk_composite T | Some p \<Rightarrow> p)
               in Inr \<lparr>op_tp = tp, op_mp = mp, op_prop = prop\<rparr>)"

definition TextMapPropagator :: "('tp, 'mp, 'prop) otel_provider \<Rightarrow> 'prop" where
  "TextMapPropagator p = op_prop p"

definition otel_Shutdown ::
  "('tp \<Rightarrow> gctx \<Rightarrow> 'w \<Rightarrow> goerr option \<times> 'w) \<Rightarrow> ('mp \<Rightarrow> gctx \<Rightarrow> 'w \<Rightarrow> goerr option \<times> 'w) \<Rightarrow>
   ('tp, 'mp, 'prop) otel_provider \<Rightarrow> gctx \<Rightarrow> 'w \<Rightarrow> goerr option \<times> 'w" where
  "otel_Shutdown tpShutdown mpShutdown p ctx w =
     (let (tperr, w1) = tpShutdown (op_tp p) ctx w; (mperr, w2) = mpShutdown (op_mp p) ctx w1
      in (errors_join [tperr, mperr], w2))"

text \<open>The providers scope tracers and meters by name; the options pass through.\<close>

definition otel_Tracer ::
  "('tp \<Rightarrow> string \<Rightarrow> 'o list \<Rightarrow> 'tr) \<Rightarrow> ('tp, 'mp, 'prop) otel_provider \<Rightarrow> string \<Rightarrow> 'o list \<Rightarrow> 'tr" where
  "otel_Tracer tpTracer p name opts = tpTracer (op_tp p) name opts"

definition otel_Meter ::
  "('mp \<Rightarrow> string \<Rightarrow> 'o list \<Rightarrow> 'mt) \<Rightarrow> ('tp, 'mp, 'prop) otel_provider \<Rightarrow> string \<Rightarrow> 'o list \<Rightarrow> 'mt" where
  "otel_Meter mpMeter p name opts = mpMeter (op_mp p) name opts"

definition otel_Module ::
  "('tp \<Rightarrow> gctx \<Rightarrow> 'w \<Rightarrow> goerr option \<times> 'w) \<Rightarrow> ('mp \<Rightarrow> gctx \<Rightarrow> 'w \<Rightarrow> goerr option \<times> 'w) \<Rightarrow>
   ('tp, 'mp, 'prop) otel_provider \<Rightarrow> 'w module_func" where
  "otel_Module tpShutdown mpShutdown p = \<lparr>md_ModuleName = ''otel'', md_StartFn = None,
     md_StopFn = Some (\<lambda>ctx w. otel_Shutdown tpShutdown mpShutdown p ctx w)\<rparr>"

text \<open>New fails only without a service name or when the resource cannot be built.\<close>

lemma otel_New_ok:
  "(\<exists>p. otel_New T ctx cfg = Inr p) \<longleftrightarrow> oc_ServiceName cfg \<noteq> [] \<and>
     (\<exists>res. sdk_resource T ctx
        (sdk_ServiceName T (oc_ServiceName cfg) #
         (if oc_ServiceVersion cfg = [] then [] else [sdk_ServiceVersion T (oc_ServiceVersion cfg)]) @
         (if oc_Environment cfg = [] then [] else [sdk_DeploymentEnvironment T (oc_Environment cfg)]) @
         oc_ExtraResource cfg) = Inr res)"
  by (auto simp: otel_New_def Let_def split: sum.split)

lemma otel_New_propagator:
  "otel_New T ctx cfg = Inr p \<Longrightarrow>
     TextMapPropagator p = (case oc_Propagator cfg of None \<Rightarrow> sdk_composite T | Some x \<Rightarrow> x)"
  by (auto simp: otel_New_def TextMapPropagator_def Let_def split: if_splits sum.splits)

text \<open>Both providers are always shut down, and every error of the two is found in the result.\<close>

lemma otel_Shutdown_both:
  assumes "otel_Shutdown tps mps p ctx w = (res, w')"
  shows "w' = snd (mps (op_mp p) ctx (snd (tps (op_tp p) ctx w))) \<and>
    (res = None \<longleftrightarrow> fst (tps (op_tp p) ctx w) = None \<and> fst (mps (op_mp p) ctx (snd (tps (op_tp p) ctx w))) = None) \<and>
    (\<forall>e. fst (tps (op_tp p) ctx w) = Some e \<or> fst (mps (op_mp p) ctx (snd (tps (op_tp p) ctx w))) = Some e \<longrightarrow>
       (\<exists>j. res = Some j \<and> errors_is j e))"
proof -
  have is_join: "errors_is (ErrJoin es) e" if "e \<in> set es" for es e
    using that by (subst errors_is.simps) (auto simp: list_ex_iff intro: bexI [of _ e])
  show ?thesis
    using assms
    by (auto simp: otel_Shutdown_def errors_join_def Let_def is_join split: prod.splits option.splits if_splits)
qed

end
