(* ===== verification/Orders_Main.thy ===== *)
theory Orders_Main
  imports Orders_Service Telemetry
begin

text \<open>
  The four binaries of the example service (\<^verbatim>\<open>cmd/api\<close>, \<^verbatim>\<open>cmd/worker\<close>, \<^verbatim>\<open>cmd/reader\<close>, \<^verbatim>\<open>cmd/relay\<close>) and the
  rest of \<^verbatim>\<open>cmd/internal/runtime\<close>: how \<^verbatim>\<open>run\<close> of each reads its configuration, constructs the adapters
  and hands the modules to the core's bootstrap. The bootstrap, the connection pool and the
  broker clients are parameters; a \<^verbatim>\<open>run\<close> function is its result and its effect on the process's
  world.
\<close>

section \<open>Runtime helpers\<close>

text \<open>\<^verbatim>\<open>Recover\<close> as the deferred call of a goroutine: a panic is logged and goes no further.\<close>

definition Recover :: "(string \<Rightarrow> (string \<times> string) list \<Rightarrow> 'w \<Rightarrow> 'w) \<Rightarrow> string \<Rightarrow> 'a outcome \<Rightarrow> 'w \<Rightarrow> 'w" where
  "Recover log loc r w =
     (case r of Ret _ \<Rightarrow> w | Panic p \<Rightarrow> log ''panic recovered'' [(''where'', loc), (''recover'', p)] w)"

definition otelexp_New :: "(gctx \<Rightarrow> string \<Rightarrow> goerr + 'exp) \<Rightarrow> gctx \<Rightarrow> string \<Rightarrow> goerr + 'exp" where
  "otelexp_New otlptracegrpc_New ctx endpoint =
     (case otlptracegrpc_New ctx endpoint of
        Inl err \<Rightarrow> Inl (Errorf (''otelexp: dial '' @ endpoint) [err])
      | Inr exp \<Rightarrow> Inr exp)"

definition OTelProvider ::
  "('kv, 'exp, 'rdr, 'prop, 'res, 'tp, 'mp) otel_sdk \<Rightarrow> (gctx \<Rightarrow> string \<Rightarrow> goerr + 'exp) \<Rightarrow> gctx \<Rightarrow> string \<Rightarrow> string \<Rightarrow>
   goerr + ('tp, 'mp, 'prop) otel_provider" where
  "OTelProvider T dial ctx serviceName otlpEndpoint =
     (let cfg = \<lparr>oc_ServiceName = serviceName, oc_ServiceVersion = [], oc_Environment = [], oc_SpanExporter = None,
                 oc_MetricReader = None, oc_Propagator = None, oc_ExtraResource = []\<rparr>;
          build = (\<lambda>cfg. case otel_New T ctx cfg of
                            Inl err \<Rightarrow> Inl (Errorf ''otel provider'' [err])
                          | Inr prov \<Rightarrow> Inr prov)
      in if otlpEndpoint \<noteq> [] then
           (case otelexp_New dial ctx otlpEndpoint of
              Inl err \<Rightarrow> Inl (Errorf ''otel exporter'' [err])
            | Inr exp \<Rightarrow> build (cfg\<lparr>oc_SpanExporter := Some exp\<rparr>))
         else build cfg)"

text \<open>
  The goroutine of \<^verbatim>\<open>HTTPModule\<close>, from the outcome of ListenAndServe, and the goroutine of the
  runtime's own \<^verbatim>\<open>ConsumerModule\<close> over the envelopes its channel yields until it closes: a panic of
  the handler ends this goroutine.
\<close>

definition http_serve ::
  "(goerr \<Rightarrow> string) \<Rightarrow> (string \<Rightarrow> (string \<times> string) list \<Rightarrow> 'w \<Rightarrow> 'w) \<Rightarrow> goerr \<Rightarrow> string \<Rightarrow>
   ('w \<Rightarrow> goerr option outcome \<times> 'w) \<Rightarrow> 'w \<Rightarrow> 'w" where
  "http_serve errtext log errServerClosed addr listenAndServe w =
     (let (r, w1) = listenAndServe w;
          w2 = (case r of
                  Ret (Some err) \<Rightarrow>
                    if \<not> errors_is err errServerClosed then log ''http serve error'' [(''err'', errtext err)] w1 else w1
                | _ \<Rightarrow> w1)
      in Recover log (''http:'' @ addr) r w2)"

definition OTelModule ::
  "('tp \<Rightarrow> gctx \<Rightarrow> 'w \<Rightarrow> goerr option \<times> 'w) \<Rightarrow> ('mp \<Rightarrow> gctx \<Rightarrow> 'w \<Rightarrow> goerr option \<times> 'w) \<Rightarrow>
   ('tp, 'mp, 'prop) otel_provider \<Rightarrow> 'w module_func" where
  "OTelModule tpShutdown mpShutdown prov = \<lparr>md_ModuleName = ''otel'', md_StartFn = None,
     md_StopFn = Some (otel_Shutdown tpShutdown mpShutdown prov)\<rparr>"

text \<open>
  \<^verbatim>\<open>HTTPModule\<close> over its http.Server; \<open>spawn\<close> is the go statement, and ListenAndServe and Shutdown of
  the server are arguments.
\<close>

record 'h rt_server =
  rs_Addr :: string
  rs_Handler :: 'h
  rs_ReadHeaderTimeout :: duration

definition HTTPModule ::
  "(goerr \<Rightarrow> string) \<Rightarrow> (string \<Rightarrow> (string \<times> string) list \<Rightarrow> 'w \<Rightarrow> 'w) \<Rightarrow> goerr \<Rightarrow> (('w \<Rightarrow> 'w) \<Rightarrow> 'w \<Rightarrow> 'w) \<Rightarrow>
   ('h rt_server \<Rightarrow> 'w \<Rightarrow> goerr option outcome \<times> 'w) \<Rightarrow> ('h rt_server \<Rightarrow> 'w hook) \<Rightarrow> string \<Rightarrow> 'h \<Rightarrow> 'w module_func" where
  "HTTPModule errtext log errServerClosed spawn listenAndServe shutdown addr handler =
     (let server = \<lparr>rs_Addr = addr, rs_Handler = handler, rs_ReadHeaderTimeout = 5 * second\<rparr>
      in \<lparr>md_ModuleName = ''http:'' @ addr,
          md_StartFn = Some (\<lambda>ctx w. (None, spawn (http_serve errtext log errServerClosed addr (listenAndServe server))
                                        (log ''http listening'' [(''addr'', addr)] w))),
          md_StopFn = Some (shutdown server)\<rparr>)"

fun consume_all :: "('e \<Rightarrow> 'w \<Rightarrow> unit outcome \<times> 'w) \<Rightarrow> 'e list \<Rightarrow> 'w \<Rightarrow> unit outcome \<times> 'w" where
  "consume_all handle [] w = (Ret (), w)"
| "consume_all handle (env # envs) w =
     (case handle env w of
        (Panic p, w') \<Rightarrow> (Panic p, w')
      | (Ret _, w') \<Rightarrow> consume_all handle envs w')"

definition runtime_consumer ::
  "(string \<Rightarrow> (string \<times> string) list \<Rightarrow> 'w \<Rightarrow> 'w) \<Rightarrow> string \<Rightarrow> goerr + 'e list \<Rightarrow>
   ('e \<Rightarrow> 'w \<Rightarrow> unit outcome \<times> 'w) \<Rightarrow> int option \<times> 'w \<Rightarrow> goerr option \<times> int option \<times> 'w" where
  "runtime_consumer log topic subscribed handle = (\<lambda>(wg, w).
     case subscribed of
       Inl err \<Rightarrow> (Some (Errorf (''subscribe '' @ topic) [err]), wg, w)
     | Inr envs \<Rightarrow>
         let w1 = log ''consumer started'' [(''topic'', topic)] w;
             wg1 = map_option (\<lambda>n. n + 1) wg;
             (r, w2) = consume_all handle envs w1
         in (None, map_option (\<lambda>n. n - 1) wg1, Recover log (''consumer:'' @ topic) r w2))"

section \<open>The binaries\<close>

text \<open>The modules a binary registers, in the order of its \<^verbatim>\<open>Use\<close> calls.\<close>

datatype ('prov, 'pub, 'relay, 'sub, 'h, 'http) app_module =
  OTelM 'prov | PublisherM 'pub | RelayM 'relay | SubscriberM 'sub | ConsumerM "string list" 'h | HTTPM string 'http

text \<open>The process around \<^verbatim>\<open>run\<close>: environment, telemetry, pool, and the bootstrap's Run.\<close>

record ('kv, 'exp, 'rdr, 'prop, 'res, 'tp, 'mp, 'pool, 'm, 'w) process =
  px_getenv :: "string \<Rightarrow> string"
  px_sdk :: "('kv, 'exp, 'rdr, 'prop, 'res, 'tp, 'mp) otel_sdk"
  px_dial :: "gctx \<Rightarrow> string \<Rightarrow> goerr + 'exp"
  px_pool_New :: "gctx \<Rightarrow> string \<Rightarrow> 'w \<Rightarrow> (goerr + 'pool) \<times> 'w"
  px_pool_Close :: "'pool \<Rightarrow> 'w \<Rightarrow> 'w"
  px_app_Run :: "gctx \<Rightarrow> 'm list \<Rightarrow> 'w \<Rightarrow> goerr option outcome \<times> 'w"

definition topicPlaced :: string where "topicPlaced = ''orders.placed''"
definition topicShipped :: string where "topicShipped = ''orders.shipped''"

text \<open>
  The common shape of api, worker and relay: open the pool, close it when run ends, by return or
  by panic, wire the modules, and run the application.
\<close>

definition run_with_pool ::
  "('kv, 'exp, 'rdr, 'prop, 'res, 'tp, 'mp, 'pool, 'm, 'w) process \<Rightarrow> gctx \<Rightarrow> string \<Rightarrow>
   ('pool \<Rightarrow> (goerr + 'm list) outcome) \<Rightarrow> 'w \<Rightarrow> goerr option outcome \<times> 'w" where
  "run_with_pool X ctx dbURL wire w =
     (case px_pool_New X ctx dbURL w of
        (Inl err, w1) \<Rightarrow> (Ret (Some (Errorf ''pgxpool'' [err])), w1)
      | (Inr pool, w1) \<Rightarrow>
          (case wire pool of
             Panic p \<Rightarrow> (Panic p, px_pool_Close X pool w1)
           | Ret (Inl err) \<Rightarrow> (Ret (Some err), px_pool_Close X pool w1)
           | Ret (Inr mods) \<Rightarrow> let (r, w2) = px_app_Run X ctx mods w1 in (r, px_pool_Close X pool w2)))"

text \<open>The relay. The Postgres store as the port of the relay, and the publisher as its Publish.\<close>

definition pgx_port :: "pg_env \<Rightarrow> 'b pgx_store \<Rightarrow> pgdb outbox_port" where
  "pgx_port env s = \<lparr>op_Fetch = pgx_Fetch env s, op_MarkSent = pgx_MarkSent env, op_MarkFailed = pgx_MarkFailed env,
     op_Terminate = Some (pgx_Terminate env)\<rparr>"

definition publish_port ::
  "('w, 'b) kafka_publisher \<Rightarrow> gctx \<Rightarrow> string \<Rightarrow> 'b devent list \<Rightarrow> 'w \<Rightarrow> goerr option outcome \<times> 'w" where
  "publish_port p ctx topic events w = (let (e, w') = kafka_Publish p ctx topic events w in (Ret e, w'))"

definition relay_wire where
  "relay_wire (CL :: (event_factory, order_body) codec_lib) wmNewPublisher env rnd now errText log prov brokers =
     (let codec = json_codec CL eventcodec_New
      in case NewStore True (Some codec) [] of
           Inl err \<Rightarrow> Inl (Errorf ''pgxoutbox store'' [err])
         | Inr store \<Rightarrow>
             (case NewPublisher CL brokers (Some codec) True wmNewPublisher of
                Inl err \<Rightarrow> Inl (Errorf ''kafka publisher'' [err])
              | Inr pub \<Rightarrow>
                  (case NewRelay rnd now errText
                          \<lparr>rc_Store = Some (pgx_port env store), rc_Publisher = Some (publish_port pub),
                           rc_Codec = Some codec, rc_Logger = Some log\<rparr>
                          [WithHeaderRestorer (Some (\<lambda>c h. Ret (RestoreCoreHeaders CL c h)))] of
                     Inl err \<Rightarrow> Inl (Errorf ''new relay'' [err])
                   | Inr relay \<Rightarrow> Inr [OTelM prov, PublisherM pub, RelayM relay])))"

definition relay_run where
  "relay_run X CL wmNewPublisher env rnd now errText log w =
     (case BrokersFromEnv (px_getenv X) of Inl err \<Rightarrow> (Ret (Some err), w) | Inr brokers \<Rightarrow>
      case RequiredEnv (px_getenv X) ''DATABASE_URL'' of Inl err \<Rightarrow> (Ret (Some err), w) | Inr dbURL \<Rightarrow>
      case OTelProvider (px_sdk X) (px_dial X) background ''orders-relay'' (px_getenv X ''OTEL_OTLP_ENDPOINT'') of
        Inl err \<Rightarrow> (Ret (Some err), w) | Inr prov \<Rightarrow>
      run_with_pool X background dbURL
        (\<lambda>pool. Ret (relay_wire CL wmNewPublisher env rnd now errText log prov brokers)) w)"

text \<open>
  The API. The values of the two calls of \<^verbatim>\<open>uuid.NewString\<close> in a request are arguments of the
  route. UnitOfWorkFromTxManager is WithinTx; the command bus calls the registered handler.
\<close>

definition api_wire where
  "api_wire K L CL env errText zeroTx poolTx getenv prov pool =
     (let codec = json_codec CL eventcodec_New
      in case NewStore True (Some codec) [] of
           Inl err \<Rightarrow> Ret (Inl (Errorf ''pgxoutbox store'' [err]))
         | Inr store \<Rightarrow>
             (case NewTxManager zeroTx (Some (poolTx pool)) [] of
                Panic p \<Rightarrow> Panic p
              | Ret txMgr \<Rightarrow>
                  let route = (\<lambda>newID fresh. api_post_orders K errText (place_Handle K (pgx_deps K L env store txMgr topicPlaced) newID) fresh)
                  in Ret (Inr [OTelM prov, HTTPM (EnvOr getenv ''HTTP_ADDR'' '':8080'') route])))"

definition api_run where
  "api_run X K L CL env errText zeroTx poolTx w =
     (case RequiredEnv (px_getenv X) ''DATABASE_URL'' of Inl err \<Rightarrow> (Ret (Some err), w) | Inr dbURL \<Rightarrow>
      case OTelProvider (px_sdk X) (px_dial X) background ''orders-api'' (px_getenv X ''OTEL_OTLP_ENDPOINT'') of
        Inl err \<Rightarrow> (Ret (Some err), w) | Inr prov \<Rightarrow>
      run_with_pool X background dbURL (api_wire K L CL env errText zeroTx poolTx (px_getenv X) prov) w)"

text \<open>
  The worker. \<open>rule\<close> is the error value of a rule violation of the core; the handler is the
  function given to the consumer, for the value \<open>newID\<close> of \<^verbatim>\<open>uuid.NewString\<close>.
\<close>

definition ship_dispatch ::
  "core_lib \<Rightarrow> (string \<Rightarrow> string \<Rightarrow> goerr) \<Rightarrow> 'd order_deps \<Rightarrow> string \<Rightarrow> gctx \<Rightarrow> string \<Rightarrow> string \<Rightarrow> 'd pgworld \<Rightarrow>
   goerr option outcome \<times> 'd pgworld" where
  "ship_dispatch K rule h newID ctx orderID carrier w =
     (case ship_Handle K h newID ctx orderID carrier w of
        (Panic p, w') \<Rightarrow> (Panic p, w')
      | (Ret (Inl (RuleViolation code msg)), w') \<Rightarrow> (Ret (Some (rule code msg)), w')
      | (Ret (Inl (OtherErr e)), w') \<Rightarrow> (Ret (Some e), w')
      | (Ret (Inr i), w') \<Rightarrow> (Ret None, w'))"

definition worker_handle where
  "worker_handle K L CL env rule store txMgr newID ctx (e :: order_body envelope) w =
     HandleOrderPlaced CL (ship_dispatch K rule (pgx_deps K L env store txMgr topicShipped) newID) ctx
       (env_Event e) (env_Name e) (Some (env_Raw e)) w"

text \<open>\<^verbatim>\<open>newSubscriber\<close> of the worker; the broker client gets the consumer group.\<close>

definition newSubscriber where
  "newSubscriber wmNewSubscriber defaultSarama fromOldest brokers codec =
     (case NewSubscriber brokers (Some codec) None defaultSarama fromOldest (wmNewSubscriber brokers ''orders-worker'') of
        Inl err \<Rightarrow> Inl (Errorf ''kafka subscriber'' [err])
      | Inr sub \<Rightarrow> Inr sub)"

definition worker_wire where
  "worker_wire K L CL env rule zeroTx poolTx newSub prov brokers pool =
     (let codec = json_codec CL eventcodec_New
      in case NewStore True (Some codec) [] of
           Inl err \<Rightarrow> Ret (Inl (Errorf ''pgxoutbox store'' [err]))
         | Inr store \<Rightarrow>
             (case NewTxManager zeroTx (Some (poolTx pool)) [] of
                Panic p \<Rightarrow> Panic p
              | Ret txMgr \<Rightarrow>
                  (case newSub brokers codec of
                     Inl err \<Rightarrow> Ret (Inl err)
                   | Inr sub \<Rightarrow>
                       Ret (Inr [OTelM prov, SubscriberM sub,
                                 ConsumerM [topicPlaced] (worker_handle K L CL env rule store txMgr)]))))"

definition worker_run where
  "worker_run X K L CL env rule zeroTx poolTx wmNewSubscriber defaultSarama fromOldest w =
     (case BrokersFromEnv (px_getenv X) of Inl err \<Rightarrow> (Ret (Some err), w) | Inr brokers \<Rightarrow>
      case RequiredEnv (px_getenv X) ''DATABASE_URL'' of Inl err \<Rightarrow> (Ret (Some err), w) | Inr dbURL \<Rightarrow>
      case OTelProvider (px_sdk X) (px_dial X) background ''orders-worker'' (px_getenv X ''OTEL_OTLP_ENDPOINT'') of
        Inl err \<Rightarrow> (Ret (Some err), w) | Inr prov \<Rightarrow>
      run_with_pool X background dbURL
        (worker_wire K L CL env rule zeroTx poolTx (newSubscriber wmNewSubscriber defaultSarama fromOldest) prov brokers) w)"

text \<open>The reader has its own consumer group, and no pool.\<close>

definition reader_newSubscriber where
  "reader_newSubscriber wmNewSubscriber defaultSarama fromOldest brokers codec =
     (case NewSubscriber brokers (Some codec) None defaultSarama fromOldest (wmNewSubscriber brokers ''orders-reader'') of
        Inl err \<Rightarrow> Inl (Errorf ''kafka subscriber'' [err])
      | Inr sub \<Rightarrow> Inr sub)"

definition reader_wire where
  "reader_wire K (CL :: (event_factory, order_body) codec_lib) errText newSub getenv prov brokers =
     (let codec = json_codec CL eventcodec_New
      in case newSub brokers codec of
           Inl err \<Rightarrow> Inl err
         | Inr sub \<Rightarrow>
             Inr [OTelM prov, SubscriberM sub, ConsumerM [topicPlaced, topicShipped] reader_apply,
                  HTTPM (EnvOr getenv ''HTTP_ADDR'' '':8081'') (reader_get_order K errText)])"

definition reader_run where
  "reader_run X K CL errText wmNewSubscriber defaultSarama fromOldest w =
     (case BrokersFromEnv (px_getenv X) of Inl err \<Rightarrow> (Ret (Some err), w) | Inr brokers \<Rightarrow>
      case OTelProvider (px_sdk X) (px_dial X) background ''orders-reader'' (px_getenv X ''OTEL_OTLP_ENDPOINT'') of
        Inl err \<Rightarrow> (Ret (Some err), w) | Inr prov \<Rightarrow>
      case reader_wire K CL errText (reader_newSubscriber wmNewSubscriber defaultSarama fromOldest) (px_getenv X) prov brokers of
        Inl err \<Rightarrow> (Ret (Some err), w) | Inr mods \<Rightarrow> px_app_Run X background mods w)"

text \<open>
  \<^verbatim>\<open>main\<close> of each binary prints an error of run on the standard error stream and exits with 1; the Go
  runtime exits with 2 on a panic (its own report is left out). The result is the exit code, what was
  printed, and the world after run.
\<close>

definition exit_code :: "goerr option outcome \<Rightarrow> int" where
  "exit_code r = (case r of Ret None \<Rightarrow> 0 | Ret (Some _) \<Rightarrow> 1 | Panic _ \<Rightarrow> 2)"

definition fatal_line :: "(goerr \<Rightarrow> string) \<Rightarrow> goerr option outcome \<Rightarrow> string" where
  "fatal_line errText r = (case r of Ret (Some err) \<Rightarrow> ''fatal: '' @ errText err @ [CHR 0x0A] | _ \<Rightarrow> [])"

definition api_main where
  "api_main X K L CL env errText fatalText zeroTx poolTx w =
     (case api_run X K L CL env errText zeroTx poolTx w of (r, w') \<Rightarrow> (exit_code r, fatal_line fatalText r, w'))"

definition worker_main where
  "worker_main X K L CL env rule errText zeroTx poolTx wmNewSubscriber defaultSarama fromOldest w =
     (case worker_run X K L CL env rule zeroTx poolTx wmNewSubscriber defaultSarama fromOldest w of
        (r, w') \<Rightarrow> (exit_code r, fatal_line errText r, w'))"

definition reader_main where
  "reader_main X K CL errText wmNewSubscriber defaultSarama fromOldest w =
     (case reader_run X K CL errText wmNewSubscriber defaultSarama fromOldest w of
        (r, w') \<Rightarrow> (exit_code r, fatal_line errText r, w'))"

definition relay_main where
  "relay_main X CL wmNewPublisher env rnd now errText log w =
     (case relay_run X CL wmNewPublisher env rnd now errText log w of (r, w') \<Rightarrow> (exit_code r, fatal_line errText r, w'))"

section \<open>Facts\<close>

text \<open>The runtime's telemetry module is the adapter's own.\<close>

lemma OTelModule_eq: "OTelModule = otel_Module"
  by (rule ext)+ (simp add: OTelModule_def otel_Module_def)

text \<open>A consumer whose handler panics leaves its wait group balanced and logs the panic once.\<close>

lemma runtime_consumer_balanced:
  "runtime_consumer log topic (Inr envs) handle (wg, w) = (e, wg', w') \<Longrightarrow> e = None \<and> wg' = wg"
  by (auto simp: runtime_consumer_def Let_def option.map_comp comp_def option.map_ident split: prod.splits)

text \<open>A pool that was opened is closed again, last, on every path.\<close>

lemma run_with_pool_closes:
  assumes "run_with_pool X ctx dbURL wire w = (r, w')" and "px_pool_New X ctx dbURL w = (Inr pool, w1)"
  shows "\<exists>w2. w' = px_pool_Close X pool w2 \<and>
    (w2 = w1 \<or> (\<exists>mods. wire pool = Ret (Inr mods) \<and> px_app_Run X ctx mods w1 = (r, w2)))"
  using assms by (auto simp: run_with_pool_def split: outcome.splits sum.splits prod.splits)

text \<open>
  Without its required variables a binary prints why, exits with 1 and touches nothing; and whatever
  happens, a binary prints exactly when it exits with 1.
\<close>

lemma missing_env:
  "g k = [] \<Longrightarrow> \<exists>e. RequiredEnv g k = Inl e"
  "g ''KAFKA_BROKERS'' = [] \<Longrightarrow> \<exists>e. BrokersFromEnv g = Inl e"
  by (auto simp: BrokersFromEnv_def RequiredEnv_def Let_def split: sum.splits)

lemma relay_fail_fast:
  assumes "px_getenv X ''KAFKA_BROKERS'' = [] \<or> px_getenv X ''DATABASE_URL'' = []"
  shows "\<exists>e. relay_main X CL wmp env rnd now errText log w = (1, ''fatal: '' @ errText e @ [CHR 0x0A], w)"
  using assms missing_env [of "px_getenv X"] by (force simp: relay_main_def relay_run_def exit_code_def fatal_line_def split: sum.split)

lemma worker_fail_fast:
  assumes "px_getenv X ''KAFKA_BROKERS'' = [] \<or> px_getenv X ''DATABASE_URL'' = []"
  shows "\<exists>e. worker_main X K L CL env rule errText z pt wms ds fo w = (1, ''fatal: '' @ errText e @ [CHR 0x0A], w)"
  using assms missing_env [of "px_getenv X"] by (force simp: worker_main_def worker_run_def exit_code_def fatal_line_def split: sum.split)

lemma reader_fail_fast:
  assumes "px_getenv X ''KAFKA_BROKERS'' = []"
  shows "\<exists>e. reader_main X K CL errText wms ds fo w = (1, ''fatal: '' @ errText e @ [CHR 0x0A], w)"
  using assms missing_env [of "px_getenv X"] by (force simp: reader_main_def reader_run_def exit_code_def fatal_line_def split: sum.split)

lemma api_fail_fast:
  assumes "px_getenv X ''DATABASE_URL'' = []"
  shows "\<exists>e. api_main X K L CL env errText fatalText z pt w = (1, ''fatal: '' @ fatalText e @ [CHR 0x0A], w)"
  using assms missing_env [of "px_getenv X"] by (force simp: api_main_def api_run_def exit_code_def fatal_line_def split: sum.split)

lemma fatal_line_iff: "fatal_line errText r \<noteq> [] \<longleftrightarrow> exit_code r = 1"
  by (simp add: fatal_line_def exit_code_def split: outcome.split option.split)

text \<open>
  The relay binary polls a relay on the Postgres store with the Kafka publisher: 10 attempts, one
  second, the JSON codec with both order events, the headers restored; and it survives panics.
\<close>

lemma relay_wire_relay:
  assumes "relay_wire CL wmp env rnd now txt log prov brokers = Inr mods"
  obtains pub r and store :: "order_body pgx_store" where "mods = [OTelM prov, PublisherM pub, RelayM r]"
    and "relay_wired r (pgx_Fetch env store) (pgx_MarkSent env) (pgx_MarkFailed env) (pgx_Terminate env)"
    and "guarded r" "rl_maxAttempts r = 10" "rl_batchSize r = 100" "rl_pollInterval r = second"
    and "rl_codec r = json_codec CL eventcodec_New" "rl_Publish r = publish_port pub"
    and "kp_codec pub = json_codec CL eventcodec_New" "rl_log r = log" "rl_now r = now"
    and "rl_backoff r = (\<lambda>n w. let (u, w') = rnd w in (defaultBackoff n u, w'))"
proof -
  obtain store pub r where st: "NewStore True (Some (json_codec CL eventcodec_New)) [] = Inr store"
    and pub: "NewPublisher CL brokers (Some (json_codec CL eventcodec_New)) True wmp = Inr pub"
    and r: "NewRelay rnd now txt
          \<lparr>rc_Store = Some (pgx_port env store), rc_Publisher = Some (publish_port pub),
           rc_Codec = Some (json_codec CL eventcodec_New), rc_Logger = Some log\<rparr>
          [WithHeaderRestorer (Some (\<lambda>c h. Ret (RestoreCoreHeaders CL c h)))] = Inr r"
    and mods: "mods = [OTelM prov, PublisherM pub, RelayM r]"
    using assms by (auto simp: relay_wire_def Let_def split: sum.splits)
  have opts: "\<forall>opt \<in> set [WithHeaderRestorer (Some (\<lambda>c h. Ret (RestoreCoreHeaders CL c h)))]. relay_option_ok opt"
    by (auto simp: relay_option_ok_def)
  have "kp_codec pub = json_codec CL eventcodec_New"
    using pub by (auto simp: NewPublisher_def split: if_splits sum.splits)
  moreover have "relay_wired r (pgx_Fetch env store) (pgx_MarkSent env) (pgx_MarkFailed env) (pgx_Terminate env)"
    using NewRelay_wired [OF r _ opts] by (simp add: pgx_port_def)
  moreover have "guarded r"
    using r by (auto simp: NewRelay_def guarded_def pgx_port_def WithHeaderRestorer_def Let_def defaultBackoff_def
        rand_Int64N_def backoff_base_pos simp flip: not_less split: prod.splits)
  ultimately show ?thesis
    using that [OF mods, of store] r by (auto simp: NewRelay_def pgx_port_def WithHeaderRestorer_def Let_def)
qed

end
