(* ===== verification/Relay_Step.thy ===== *)
theory Relay_Step
  imports Relay
begin

text \<open>
  The relay of \<^verbatim>\<open>eventbus/outbox/relay.go\<close> one effect at a time. A step makes at most one
  call on the store or on the publisher, so that the steps of several relays, each with its
  own goroutine or process, can be interleaved (theory \<^verbatim>\<open>Relay_Fleet\<close>). A run of the
  steps from one poll to the next is exactly \<^verbatim>\<open>drainOnce\<close>.
\<close>

section \<open>Where a worker is\<close>

text \<open>
  The program points of a drain: before Fetch; between two records of the batch; after the
  publisher accepted a record and before MarkSent; in the deferred recover; in fail, inside
  (\<open>True\<close>) or outside the guarded body; with the next attempt scheduled and before
  MarkFailed; and back in the Run loop with the drain's result.
\<close>

datatype wphase =
    WIdle
  | WBatch "orec list"
  | WSent orec "orec list"
  | WRecover string orec "orec list"
  | WFail bool orec goerr "orec list"
  | WDefer orec goerr time "orec list"
  | WDone "goerr option outcome"

text \<open>A panic inside the body is recovered; one in the recovering handler ends the drain.\<close>

definition wpanic :: "bool \<Rightarrow> string \<Rightarrow> orec \<Rightarrow> orec list \<Rightarrow> wphase" where
  "wpanic inside p rec recs = (if inside then WRecover p rec recs else WDone (Panic p))"

definition wstep_publish ::
  "('s, 'w, 'b) relay \<Rightarrow> gctx \<Rightarrow> orec \<Rightarrow> orec list \<Rightarrow> 'w \<Rightarrow> wphase \<times> 'w" where
  "wstep_publish r ctx rec recs w =
     (case cd_Unmarshal (rl_codec r) ctx (relay_message rec) of
        Panic p \<Rightarrow> (WRecover p rec recs, w)
      | Ret (Inl err) \<Rightarrow> (WFail True rec (Errorf ''decode'' [err]) recs, w)
      | Ret (Inr (ev, _)) \<Rightarrow>
          (case (case rl_headerRestorer r of None \<Rightarrow> Ret ctx | Some h \<Rightarrow> h ctx (rec_Headers rec)) of
             Panic p \<Rightarrow> (WRecover p rec recs, w)
           | Ret pubCtx \<Rightarrow>
               (case rl_Publish r pubCtx (rec_Topic rec) [ev] w of
                  (Panic p, w1) \<Rightarrow> (WRecover p rec recs, w1)
                | (Ret (Some err), w1) \<Rightarrow> (WFail True rec (Errorf ''publish'' [err]) recs, w1)
                | (Ret None, w1) \<Rightarrow> (WSent rec recs, w1))))"

definition wstep_fail ::
  "('s, 'w, 'b) relay \<Rightarrow> gctx \<Rightarrow> bool \<Rightarrow> orec \<Rightarrow> goerr \<Rightarrow> orec list \<Rightarrow> 's \<times> 'w \<Rightarrow> wphase \<times> 's \<times> 'w" where
  "wstep_fail r ctx inside rec reason recs = (\<lambda>(s, w).
     let nextAttempt = rec_Attempts rec + 1
     in if rl_maxAttempts r > 0 \<and> nextAttempt \<ge> rl_maxAttempts r then
          (case rl_Terminate r of
             None \<Rightarrow> (wpanic inside ''nil pointer dereference'' rec recs, s, w)
           | Some term \<Rightarrow>
               let (e, s1) = term ctx (rec_ID rec) (rl_errText r reason) s
               in (WBatch recs, s1, relay_log_err r ''outbox relay: terminate failed'' rec e w))
        else
          let (now, w1) = rl_now r w
          in case rl_backoff r nextAttempt w1 of
               (Panic p, w2) \<Rightarrow> (wpanic inside p rec recs, s, w2)
             | (Ret d, w2) \<Rightarrow> (WDefer rec reason (now + d) recs, s, w2))"

fun relay_worker_step ::
  "('s, 'w, 'b) relay \<Rightarrow> gctx \<Rightarrow> wphase \<times> 's \<times> 'w \<Rightarrow> wphase \<times> 's \<times> 'w" where
  "relay_worker_step r ctx (WIdle, s, w) =
     (case rl_Fetch r ctx (rl_batchSize r) s of
        (Inl err, s1) \<Rightarrow> (WDone (Ret (Some (Errorf ''fetch'' [err]))), s1, w)
      | (Inr records, s1) \<Rightarrow> (WBatch records, s1, w))"
| "relay_worker_step r ctx (WBatch [], s, w) = (WDone (Ret None), s, w)"
| "relay_worker_step r ctx (WBatch (rec # recs), s, w) =
     (let (p, w1) = wstep_publish r ctx rec recs w in (p, s, w1))"
| "relay_worker_step r ctx (WSent rec recs, s, w) =
     (let (e, s1) = rl_MarkSent r ctx (rec_ID rec) s
      in (WBatch recs, s1, relay_log_err r ''outbox relay: mark sent failed'' rec e w))"
| "relay_worker_step r ctx (WRecover p rec recs, s, w) =
     (WFail False rec (Errorf (''panic: '' @ p) []) recs, s,
      relay_log_panic r rec p w)"
| "relay_worker_step r ctx (WFail inside rec reason recs, s, w) =
     wstep_fail r ctx inside rec reason recs (s, w)"
| "relay_worker_step r ctx (WDefer rec reason at recs, s, w) =
     (let (e, s1) = rl_MarkFailed r ctx (rec_ID rec) (rl_errText r reason) at s
      in (WBatch recs, s1, relay_log_err r ''outbox relay: mark failed'' rec e w))"
| "relay_worker_step r ctx (WDone (Ret None), s, w) = (WIdle, s, w)"
| "relay_worker_step r ctx (WDone (Ret (Some err)), s, w) =
     (WIdle, s, relay_log_drain r err w)"
| "relay_worker_step r ctx (WDone (Panic p), s, w) = (WDone (Panic p), s, w)"

section \<open>The steps of a drain are the drain\<close>

text \<open>The machine gets from one configuration to another without coming to a result in between.\<close>

definition is_done :: "wphase \<Rightarrow> bool" where
  "is_done p \<longleftrightarrow> (case p of WDone _ \<Rightarrow> True | _ \<Rightarrow> False)"

inductive wruns :: "('s, 'w, 'b) relay \<Rightarrow> gctx \<Rightarrow> wphase \<times> 's \<times> 'w \<Rightarrow> wphase \<times> 's \<times> 'w \<Rightarrow> bool"
  for r :: "('s, 'w, 'b) relay" and ctx :: gctx where
  wruns_refl: "wruns r ctx c c"
| wruns_step: "\<not> is_done (fst c) \<Longrightarrow> wruns r ctx (relay_worker_step r ctx c) c' \<Longrightarrow> wruns r ctx c c'"

lemma is_done_simps [simp]:
  "\<not> is_done WIdle" "\<not> is_done (WBatch recs)" "\<not> is_done (WSent rec recs)" "\<not> is_done (WRecover p rec recs)"
  "\<not> is_done (WFail b rec e recs)" "\<not> is_done (WDefer rec e t recs)" "is_done (WDone res)"
  by (simp_all add: is_done_def)

lemma wruns_trans: "wruns r ctx a b \<Longrightarrow> wruns r ctx b c \<Longrightarrow> wruns r ctx a c"
  by (induction rule: wruns.induct) (auto intro: wruns_step)

lemma wruns_one: "\<not> is_done (fst c) \<Longrightarrow> wruns r ctx c (relay_worker_step r ctx c)"
  by (auto intro: wruns_step wruns_refl)

lemma wpanic_simps [simp]: "wpanic True p rec recs = WRecover p rec recs" "wpanic False p rec recs = WDone (Panic p)"
  by (simp_all add: wpanic_def)

lemma wruns_done: "wruns r ctx a b \<Longrightarrow> is_done (fst a) \<Longrightarrow> b = a"
  by (cases rule: wruns.cases) auto

text \<open>The result a run comes to is unique.\<close>

lemma wruns_deterministic:
  assumes "wruns r ctx c a" and "wruns r ctx c b" and "is_done (fst a)" and "is_done (fst b)"
  shows "a = b"
  using assms
proof (induction rule: wruns.induct)
  case (wruns_refl c)
  then show ?case using wruns_done by metis
next
  case (wruns_step c c')
  from \<open>wruns r ctx c b\<close> show ?case
    by (cases rule: wruns.cases) (use wruns_step in auto)
qed

text \<open>fail: one step, or two when the record is deferred.\<close>

lemma wruns_fail:
  assumes "relay_fail r ctx rec reason (s, w) = (res, (s', w'))"
  shows "wruns r ctx (WFail inside rec reason recs, s, w)
    (case res of Ret _ \<Rightarrow> WBatch recs | Panic p \<Rightarrow> wpanic inside p rec recs, s', w')"
proof (cases "rl_maxAttempts r > 0 \<and> rec_Attempts rec + 1 \<ge> rl_maxAttempts r")
  case True
  have "(case res of Ret _ \<Rightarrow> WBatch recs | Panic p \<Rightarrow> wpanic inside p rec recs, s', w') =
      relay_worker_step r ctx (WFail inside rec reason recs, s, w)"
    using assms True by (auto simp: relay_fail_def wstep_fail_def Let_def split: option.splits prod.splits)
  then show ?thesis using wruns_one [of "(WFail inside rec reason recs, s, w)" r ctx] by simp
next
  case False
  obtain now w1 where n: "rl_now r w = (now, w1)" by (metis surj_pair)
  obtain d w2 where b: "rl_backoff r (rec_Attempts rec + 1) w1 = (d, w2)" by (metis surj_pair)
  note * = assms [unfolded relay_fail_def, simplified Let_def False n b, simplified]
  show ?thesis
  proof (cases d)
    case (Panic p)
    show ?thesis
      by (rule wruns_step) (use False n b Panic * in \<open>auto simp: wstep_fail_def intro: wruns_refl\<close>)
  next
    case (Ret t)
    show ?thesis
      by (rule wruns_step, simp, rule wruns_step)
         (use False n b Ret * in \<open>auto simp: wstep_fail_def intro: wruns_refl split: prod.splits\<close>)
  qed
qed

lemma wruns_recover:
  assumes "relay_fail r ctx rec (Errorf (''panic: '' @ p) []) (s, relay_log_panic r rec p w) =
      (res, (s', w'))"
  shows "wruns r ctx (WRecover p rec recs, s, w)
    (case res of Ret _ \<Rightarrow> WBatch recs | Panic q \<Rightarrow> WDone (Panic q), s', w')"
  by (rule wruns_step) (use wruns_fail [OF assms, of False recs] in \<open>simp_all cong: outcome.case_cong\<close>)

lemma wruns_body:
  assumes "relay_body r ctx rec (s, w) = (res, (s', w'))"
  shows "wruns r ctx (WBatch (rec # recs), s, w)
    (case res of Ret _ \<Rightarrow> WBatch recs | Panic p \<Rightarrow> WRecover p rec recs, s', w')"
proof -
  have fail: "wruns r ctx (WFail True rec e recs, s, v) (WBatch recs, s1, v1)"
    if "relay_fail r ctx rec e (s, v) = (Ret u, (s1, v1))" for e v s1 v1 u
    using wruns_fail [OF that, of True recs] by simp
  have again: "wruns r ctx (WFail True rec e recs, s, v) (WRecover p rec recs, s1, v1)"
    if "relay_fail r ctx rec e (s, v) = (Panic p, (s1, v1))" for e v s1 v1 p
    using wruns_fail [OF that, of True recs] by simp
  have sent: "wruns r ctx (WSent rec recs, s, v) (WBatch recs, s1, relay_log_err r ''outbox relay: mark sent failed'' rec e v)"
    if "rl_MarkSent r ctx (rec_ID rec) s = (e, s1)" for e v s1
    by (rule wruns_step) (simp_all add: that wruns_refl)
  show ?thesis
    by (rule wruns_step)
       (use assms in \<open>auto simp: relay_body_def wstep_publish_def Let_def intro: wruns_refl fail again sent
         split: outcome.splits sum.splits prod.splits option.splits\<close>)
qed

lemma wruns_process:
  assumes "relay_process r ctx rec (s, w) = (res, (s', w'))"
  shows "wruns r ctx (WBatch (rec # recs), s, w)
    (case res of Ret _ \<Rightarrow> WBatch recs | Panic p \<Rightarrow> WDone (Panic p), s', w')"
proof -
  obtain bres s1 w1 where b: "relay_body r ctx rec (s, w) = (bres, (s1, w1))" by (metis prod_cases3)
  show ?thesis
  proof (cases bres)
    case (Ret u)
    then show ?thesis using wruns_body [OF b, of recs] assms b by (auto simp: relay_process_def)
  next
    case (Panic p)
    then have "relay_fail r ctx rec (Errorf (''panic: '' @ p) []) (s1, relay_log_panic r rec p w1) =
        (res, (s', w'))"
      using assms b by (simp add: relay_process_def)
    from wruns_recover [OF this] show ?thesis
      using wruns_body [OF b, of recs] Panic by (auto intro: wruns_trans)
  qed
qed

lemma wruns_process_all:
  assumes "relay_process_all r ctx recs (s, w) = (res, (s', w'))"
  shows "wruns r ctx (WBatch recs, s, w) (WDone (case res of Ret _ \<Rightarrow> Ret None | Panic p \<Rightarrow> Panic p), s', w')"
  using assms
proof (induction recs arbitrary: s w)
  case Nil
  then show ?case using wruns_one [of "(WBatch [], s, w)" r ctx] by auto
next
  case (Cons rec recs)
  obtain pres s1 w1 where p: "relay_process r ctx rec (s, w) = (pres, (s1, w1))" by (metis prod_cases3)
  show ?case
  proof (cases pres)
    case (Ret u)
    then have "wruns r ctx (WBatch recs, s1, w1) (WDone (case res of Ret _ \<Rightarrow> Ret None | Panic p \<Rightarrow> Panic p), s', w')"
      using Cons p by simp
    then show ?thesis using wruns_process [OF p, of recs] Ret by (auto intro: wruns_trans)
  next
    case (Panic q)
    then show ?thesis using wruns_process [OF p, of recs] Cons.prems p by auto
  qed
qed

lemma wruns_drainOnce:
  assumes "drainOnce r ctx (s, w) = (res, (s', w'))"
  shows "wruns r ctx (WIdle, s, w) (WDone res, s', w')"
proof (rule wruns_step)
  obtain fres s1 where f: "rl_Fetch r ctx (rl_batchSize r) s = (fres, s1)" by (metis surj_pair)
  show "wruns r ctx (relay_worker_step r ctx (WIdle, s, w)) (WDone res, s', w')"
  proof (cases fres)
    case (Inl e)
    then show ?thesis using assms f by (auto simp: drainOnce_def intro: wruns_refl)
  next
    case (Inr recs)
    obtain pres s2 w2 where "relay_process_all r ctx recs (s1, w) = (pres, (s2, w2))" by (metis prod_cases3)
    from wruns_process_all [OF this] this show ?thesis
      using assms f Inr by (auto simp: drainOnce_def split: outcome.splits)
  qed
qed simp

text \<open>
  The statement-by-statement machine is the relay's drain: from the poll, the steps reach
  a result, and the result, the store and the outside world they reach are exactly those of
  \<^verbatim>\<open>drainOnce\<close>; on every branch (fetch errors, undecodable records, publish errors, panics
  in the body and in the recovering handler, failed marks).
\<close>

lemma relay_steps_are_drainOnce:
  "wruns r ctx (WIdle, s, w) (WDone res, s', w') \<longleftrightarrow> drainOnce r ctx (s, w) = (res, (s', w'))"
proof
  assume run: "wruns r ctx (WIdle, s, w) (WDone res, s', w')"
  obtain res1 s1 w1 where d: "drainOnce r ctx (s, w) = (res1, (s1, w1))" by (metis prod_cases3)
  have "(WDone res, s', w') = (WDone res1, s1, w1)"
    using wruns_deterministic [OF run wruns_drainOnce [OF d]] by simp
  with d show "drainOnce r ctx (s, w) = (res, (s', w'))" by simp
qed (rule wruns_drainOnce)

end
