(* ===== verification/Relay_Fleet.thy ===== *)
theory Relay_Fleet
  imports Relay_Step Pgx_Outbox_Props
begin

text \<open>
  Several relays on one outbox. Their steps (theory \<^verbatim>\<open>Relay_Step\<close>) interleave
  with each other, with crashes and restarts of workers at any point, and with client
  transactions that stage events and commit or roll back. The invariant is proved once over
  the store contract and then applied to the Postgres store.
\<close>

section \<open>What one step of a worker touches\<close>

text \<open>The records a worker has fetched and not yet settled.\<close>

fun phase_recs :: "wphase \<Rightarrow> orec list" where
  "phase_recs (WBatch recs) = recs"
| "phase_recs (WSent rec recs) = rec # recs"
| "phase_recs (WRecover p rec recs) = rec # recs"
| "phase_recs (WFail inside rec reason recs) = rec # recs"
| "phase_recs (WDefer rec reason at recs) = rec # recs"
| "phase_recs WIdle = []"
| "phase_recs (WDone res) = []"

text \<open>A worker in \<open>WSent\<close> has seen the publisher accept its record.\<close>

definition sent_ok ::
  "('w \<Rightarrow> (string \<times> 'b devent) set) \<Rightarrow> ('s, 'w, 'b) relay \<Rightarrow> gctx \<Rightarrow> wphase \<Rightarrow> 'w \<Rightarrow> bool" where
  "sent_ok D r ctx p w \<longleftrightarrow> (\<forall>rec recs. p = WSent rec recs \<longrightarrow> delivered D r ctx rec w)"

lemma sent_ok_simps [simp]:
  "sent_ok D r ctx (WBatch recs) w" "sent_ok D r ctx WIdle w" "sent_ok D r ctx (WDone res) w"
  "sent_ok D r ctx (WRecover p rec recs) w" "sent_ok D r ctx (WFail b rec e recs) w"
  "sent_ok D r ctx (WDefer rec e t recs) w"
  "sent_ok D r ctx (WSent rec recs) w = delivered D r ctx rec w"
  by (simp_all add: sent_ok_def)

lemma sent_ok_mono: "sent_ok D r ctx p w \<Longrightarrow> D w \<subseteq> D w' \<Longrightarrow> sent_ok D r ctx p w'"
  by (auto simp: sent_ok_def intro: delivered_mono)

lemma wpanic_recs: "x \<in> set (phase_recs (wpanic b p rec recs)) \<Longrightarrow> x \<in> set (rec # recs)"
  by (auto simp: wpanic_def split: if_splits)

lemma wpanic_sent [simp]: "sent_ok D r ctx (wpanic b p rec recs) w"
  by (simp add: wpanic_def)

lemma wstep_publish_effect:
  assumes "observes D r" and "wstep_publish r ctx rec recs w = (p, w')"
  shows "D w \<subseteq> D w' \<and> set (phase_recs p) \<subseteq> set (rec # recs) \<and> sent_ok D r ctx p w'"
  using assms(2)
  by (auto simp: wstep_publish_def delivered_def split: outcome.splits sum.splits prod.splits option.splits
      dest: observes_publish [OF assms(1)])

lemma wstep_fail_cases:
  assumes "observes D r" and "wstep_fail r ctx inside rec reason recs (s, w) = (p, s', w')"
  obtains (quiet) "s' = s" "D w \<subseteq> D w'" "set (phase_recs p) \<subseteq> set (rec # recs)" "sent_ok D r ctx p w'"
  | (terminated) tm e where "rl_Terminate r = Some tm" "tm ctx (rec_ID rec) (rl_errText r reason) s = (e, s')"
      "0 < rl_maxAttempts r" "rl_maxAttempts r \<le> rec_Attempts rec + 1" "p = WBatch recs" "D w \<subseteq> D w'"
proof (cases "rl_maxAttempts r > 0 \<and> rec_Attempts rec + 1 \<ge> rl_maxAttempts r")
  case True
  show ?thesis
  proof (cases "rl_Terminate r")
    case None
    then show ?thesis using True assms(2)
      by (intro quiet) (auto simp: wstep_fail_def dest!: wpanic_recs)
  next
    case (Some tm)
    obtain e s1 where e: "tm ctx (rec_ID rec) (rl_errText r reason) s = (e, s1)" by (metis surj_pair)
    show ?thesis
      by (rule terminated [of tm e])
         (use True Some e assms observes_log_err [OF assms(1), of w _ rec e] in \<open>auto simp: wstep_fail_def\<close>)
  qed
next
  case False
  obtain now w1 where n: "rl_now r w = (now, w1)" by (metis surj_pair)
  obtain d w2 where b: "rl_backoff r (rec_Attempts rec + 1) w1 = (d, w2)" by (metis surj_pair)
  have "D w \<subseteq> D w2" using observes_now [OF assms(1) n] observes_backoff [OF assms(1) b] by blast
  then show ?thesis using False assms(2) n b
    by (intro quiet) (auto simp: wstep_fail_def split: outcome.splits dest!: wpanic_recs)
qed

text \<open>
  A step leaves the store alone and keeps or drops the records in hand, or it is one of the
  four store calls.
\<close>

lemma relay_worker_step_cases:
  assumes "observes D r" and "relay_worker_step r ctx (p, s, w) = (p', s', w')" and "sent_ok D r ctx p w"
  obtains (quiet) "s' = s" "D w \<subseteq> D w'" "set (phase_recs p') \<subseteq> set (phase_recs p)" "sent_ok D r ctx p' w'"
  | (fetched) n res where "rl_Fetch r ctx n s = (res, s')" "w' = w"
      "(\<exists>e. p' = WDone e) \<or> (\<exists>recs. res = Inr recs \<and> p' = WBatch recs)"
  | (marked) rec recs e where "p = WSent rec recs" "rl_MarkSent r ctx (rec_ID rec) s = (e, s')"
      "p' = WBatch recs" "D w \<subseteq> D w'"
  | (postponed) rec recs reason at e where "p = WDefer rec reason at recs"
      "rl_MarkFailed r ctx (rec_ID rec) (rl_errText r reason) at s = (e, s')" "p' = WBatch recs" "D w \<subseteq> D w'"
  | (terminated) tm b rec recs reason e where "p = WFail b rec reason recs" "rl_Terminate r = Some tm"
      "tm ctx (rec_ID rec) (rl_errText r reason) s = (e, s')" "0 < rl_maxAttempts r"
      "rl_maxAttempts r \<le> rec_Attempts rec + 1" "p' = WBatch recs" "D w \<subseteq> D w'"
proof (cases p)
  case WIdle
  obtain res s1 where "rl_Fetch r ctx (rl_batchSize r) s = (res, s1)" by (metis surj_pair)
  then show ?thesis using assms(2) WIdle
    by (intro fetched [of "rl_batchSize r" res]) (auto split: sum.splits)
next
  case (WBatch rs)
  show ?thesis
  proof (cases rs)
    case Nil
    then show ?thesis using assms(2) WBatch by (intro quiet) auto
  next
    case (Cons rec recs)
    obtain q v where "wstep_publish r ctx rec recs w = (q, v)" by (metis surj_pair)
    with wstep_publish_effect [OF assms(1) this] show ?thesis
      using assms(2) WBatch Cons by (intro quiet) auto
  qed
next
  case (WSent rec recs)
  obtain e s1 where "rl_MarkSent r ctx (rec_ID rec) s = (e, s1)" by (metis surj_pair)
  then show ?thesis using assms(2) WSent observes_log_err [OF assms(1), of w _ rec e]
    by (intro marked [of rec recs e]) auto
next
  case (WRecover x rec recs)
  then show ?thesis using assms(2) observes_log_panic [OF assms(1), of w rec x] by (intro quiet) auto
next
  case (WFail b rec reason recs)
  then have f: "wstep_fail r ctx b rec reason recs (s, w) = (p', s', w')" using assms(2) by simp
  show ?thesis
  proof (rule wstep_fail_cases [OF assms(1) f], goal_cases)
    case 1
    then show ?case using WFail by (intro quiet) auto
  next
    case (2 tm e)
    then show ?case using WFail by (intro terminated [of b rec reason recs tm e]) auto
  qed
next
  case (WDefer rec reason at recs)
  obtain e s1 where "rl_MarkFailed r ctx (rec_ID rec) (rl_errText r reason) at s = (e, s1)" by (metis surj_pair)
  then show ?thesis using assms(2) WDefer observes_log_err [OF assms(1), of w _ rec e]
    by (intro postponed [of rec reason at recs e]) auto
next
  case (WDone res)
  have "(s', p', w') = (s, p, w) \<or> (s', p') = (s, WIdle) \<and> (w' = w \<or> (\<exists>m f. w' = rl_log r m f w))"
    using assms(2) WDone by (cases "(r, ctx, (p, s, w))" rule: relay_worker_step.cases) (auto simp: relay_log_drain_def)
  moreover have "D w \<subseteq> D (rl_log r m f w)" for m f by (rule observes_log [OF assms(1)])
  ultimately show ?thesis using WDone by (intro quiet) auto
qed

section \<open>The invariant over the store contract\<close>

text \<open>
  \<open>H\<close> is the history of the outbox: the event committed under each row key. Every row, dead
  letter and record in a worker's hands shows the event committed under its key, a record in
  hand has seen no more attempts than its row, a key is never both a row and a dead letter,
  dead letters have used up the budget of the relay that wrote them, and no committed event
  is lost.
\<close>

locale fleet_store = outbox_store fetch mark_sent mark_failed terminate key rows dead owns inv stamp
  for fetch :: "gctx \<Rightarrow> int \<Rightarrow> 's \<Rightarrow> (goerr + orec list) \<times> 's"
    and mark_sent and mark_failed and terminate and key :: "string \<Rightarrow> 'k"
    and rows and dead and owns and inv and stamp
begin

definition events_ok :: "(nat \<Rightarrow> ('s, 'w, 'b) relay) \<Rightarrow> ('k \<Rightarrow> orec option) \<Rightarrow> 's \<Rightarrow> bool" where
  "events_ok R H s \<longleftrightarrow> inv s \<and>
     (\<forall>k r. rows s k = Some r \<longrightarrow> (\<exists>h. H k = Some h \<and> same_event h r)) \<and>
     (\<forall>k d. dead s k = Some d \<longrightarrow> rows s k = None \<and> (\<exists>h. H k = Some h \<and> same_event h (dl_Record d)) \<and>
        (\<exists>i. 0 < rl_maxAttempts (R i) \<and> rl_maxAttempts (R i) \<le> dl_Attempts d))"

definition in_hand :: "('k \<Rightarrow> orec option) \<Rightarrow> 's \<Rightarrow> orec \<Rightarrow> bool" where
  "in_hand H s rec \<longleftrightarrow> (\<exists>h. H (key (rec_ID rec)) = Some h \<and> same_event h rec) \<and>
     (\<forall>r. rows s (key (rec_ID rec)) = Some r \<longrightarrow> rec_Attempts rec \<le> rec_Attempts r)"

definition accounted ::
  "('w \<Rightarrow> (string \<times> 'b devent) set) \<Rightarrow> (nat \<Rightarrow> ('s, 'w, 'b) relay) \<Rightarrow> (nat \<Rightarrow> gctx) \<Rightarrow>
   ('k \<Rightarrow> orec option) \<Rightarrow> 's \<Rightarrow> 'w \<Rightarrow> bool" where
  "accounted D R C H s w \<longleftrightarrow> (\<forall>k h. H k = Some h \<longrightarrow>
     rows s k \<noteq> None \<or> dead s k \<noteq> None \<or> (\<exists>i. delivered D (R i) (C i) h w))"

definition fleet_ok ::
  "('w \<Rightarrow> (string \<times> 'b devent) set) \<Rightarrow> (nat \<Rightarrow> ('s, 'w, 'b) relay) \<Rightarrow> (nat \<Rightarrow> gctx) \<Rightarrow>
   ('k \<Rightarrow> orec option) \<Rightarrow> (nat \<Rightarrow> wphase) \<Rightarrow> 's \<Rightarrow> 'w \<Rightarrow> bool" where
  "fleet_ok D R C H ph s w \<longleftrightarrow> events_ok R H s \<and> accounted D R C H s w \<and>
     (\<forall>i. (\<forall>rec \<in> set (phase_recs (ph i)). in_hand H s rec) \<and> sent_ok D (R i) (C i) (ph i) w)"

text \<open>Attempts of a row never go down while it lives, so what is in hand stays so.\<close>

definition ages :: "'s \<Rightarrow> 's \<Rightarrow> bool" where
  "ages s s' \<longleftrightarrow> (\<forall>k r'. rows s' k = Some r' \<longrightarrow> (\<exists>r. rows s k = Some r \<and> rec_Attempts r \<le> rec_Attempts r'))"

lemma in_hand_ages: "in_hand H s rec \<Longrightarrow> ages s s' \<Longrightarrow> in_hand H s' rec"
  unfolding in_hand_def ages_def by (meson order_trans)

lemma ages_refl [simp]: "ages s s"
  by (auto simp: ages_def)

text \<open>
  A step of worker \<open>i\<close>: it is enough to check the store's side and the records it has in hand
  afterwards.
\<close>

lemma fleet_ok_step:
  assumes "fleet_ok D R C H ph s w" and "D w \<subseteq> D w'" and "events_ok R H s'" and "ages s s'"
    and "\<And>k h. H k = Some h \<Longrightarrow> rows s k \<noteq> None \<or> dead s k \<noteq> None \<Longrightarrow>
           rows s' k \<noteq> None \<or> dead s' k \<noteq> None \<or> delivered D (R i) (C i) h w'"
    and "\<And>rec. rec \<in> set (phase_recs p) \<Longrightarrow> in_hand H s' rec" and "sent_ok D (R i) (C i) p w'"
  shows "fleet_ok D R C H (ph(i := p)) s' w'"
proof -
  have "accounted D R C H s' w'"
    using assms(1,2,5) unfolding fleet_ok_def accounted_def by (meson delivered_mono)
  moreover have "(\<forall>rec \<in> set (phase_recs ((ph(i := p)) j)). in_hand H s' rec) \<and>
      sent_ok D (R j) (C j) ((ph(i := p)) j) w'" for j
    using assms(1,2,6,7) in_hand_ages [OF _ assms(4)] unfolding fleet_ok_def by (auto intro: sent_ok_mono)
  ultimately show ?thesis using assms(3) unfolding fleet_ok_def by blast
qed

lemma fleet_hand:
  "fleet_ok D R C H ph s w \<Longrightarrow> rec \<in> set (phase_recs (ph i)) \<Longrightarrow> in_hand H s rec"
  by (auto simp: fleet_ok_def)

lemma events_ok_frame:
  assumes "events_ok R H s" and "inv s'" and "dead s' = dead s"
    and "\<And>k r'. rows s' k = Some r' \<Longrightarrow> \<exists>r. rows s k = Some r \<and> same_event r r'"
  shows "events_ok R H s'"
proof -
  have "rows s' k = None" if "rows s k = None" for k
    using assms(4) [of k] that by (cases "rows s' k") auto
  moreover have "\<exists>h. H k = Some h \<and> same_event h r'" if r': "rows s' k = Some r'" for k r'
  proof -
    obtain r where r: "rows s k = Some r" "same_event r r'" using assms(4) [OF r'] by blast
    then obtain h where "H k = Some h" "same_event h r" using assms(1) unfolding events_ok_def by blast
    with r show ?thesis by (blast intro: same_event_trans)
  qed
  ultimately show ?thesis using assms(1-3) unfolding events_ok_def by metis
qed

lemma fleet_fetch:
  assumes ok: "fleet_ok D R C H ph s w" and f: "fetch c n s = (res, s')"
    and p: "(\<exists>e. p = WDone e) \<or> (\<exists>recs. res = Inr recs \<and> p = WBatch recs)"
  shows "fleet_ok D R C H (ph(i := p)) s' w"
proof -
  have ev: "events_ok R H s" "inv s" using ok by (simp_all add: fleet_ok_def events_ok_def)
  note fr = fetch_frame [OF ev(2) f]
  have old: "\<exists>r. rows s k = Some r \<and> same_delivery r r'" if "rows s' k = Some r'" for k r'
    using fr that by (metis option_rel_Some2)
  have live: "rows s' k \<noteq> None" if "rows s k \<noteq> None" for k
    using fr that by (metis rel_option_None2)
  have ev': "events_ok R H s'"
    by (rule events_ok_frame [OF ev(1)]) (use fr old in \<open>auto simp: same_delivery_def, metis\<close>)
  have hand: "in_hand H s' rec" if rec: "rec \<in> set (phase_recs p)" for rec
  proof -
    obtain recs where r: "res = Inr recs" "p = WBatch recs" using p rec by auto
    have "rows s' (key (rec_ID rec)) = Some rec"
      using fetch_owned [OF ev(2)] f r rec by auto
    then show ?thesis using ev' unfolding in_hand_def events_ok_def by auto
  qed
  have ages: "ages s s'"
    unfolding ages_def
  proof (intro allI impI)
    fix k r' assume "rows s' k = Some r'"
    from old [OF this] show "\<exists>r. rows s k = Some r \<and> rec_Attempts r \<le> rec_Attempts r'"
      by (auto simp: same_delivery_def)
  qed
  show ?thesis
    by (rule fleet_ok_step [OF ok _ ev' ages]) (use hand live fr p in auto)
qed

lemma fleet_marked:
  assumes ok: "fleet_ok D R C H ph s w" and p: "ph i = WSent rec recs"
    and m: "mark_sent c (rec_ID rec) s = (e, s')" and D: "D w \<subseteq> D w'"
  shows "fleet_ok D R C H (ph(i := WBatch recs)) s' w'"
proof -
  have ev: "events_ok R H s" "inv s" using ok by (simp_all add: fleet_ok_def events_ok_def)
  note fr = sent_frame [OF ev(2) m]
  have old: "rows s k = Some r'" if "rows s' k = Some r'" for k r'
    using fr that by (auto split: if_splits)
  have ev': "events_ok R H s'" by (rule events_ok_frame [OF ev(1)]) (use fr old in auto)
  have ages: "ages s s'" unfolding ages_def using old by (metis order_refl)
  have "sent_ok D (R i) (C i) (ph i) w" using ok by (simp add: fleet_ok_def)
  then have "delivered D (R i) (C i) rec w" by (simp add: p)
  obtain h where h: "H (key (rec_ID rec)) = Some h" "same_event h rec"
    using fleet_hand [OF ok, of rec i] p by (auto simp: in_hand_def)
  have dl: "delivered D (R i) (C i) h w'"
    using delivered_mono [OF \<open>delivered D (R i) (C i) rec w\<close> D] delivered_same_event [OF h(2), of D "R i" "C i" w']
    by simp
  show ?thesis
  proof (rule fleet_ok_step [OF ok D ev' ages])
    fix k h' assume "H k = Some h'" "rows s k \<noteq> None \<or> dead s k \<noteq> None"
    moreover have "rows s' k = rows s k" if "k \<noteq> key (rec_ID rec)" using fr that by auto
    ultimately show "rows s' k \<noteq> None \<or> dead s' k \<noteq> None \<or> delivered D (R i) (C i) h' w'"
      using fr h dl by (cases "k = key (rec_ID rec)") auto
  qed (use fleet_hand [OF ok, of _ i] p in_hand_ages [OF _ ages] in auto)
qed

lemma fleet_postponed:
  assumes ok: "fleet_ok D R C H ph s w" and p: "ph i = WDefer rec reason at recs"
    and m: "mark_failed c (rec_ID rec) x t s = (e, s')" and D: "D w \<subseteq> D w'"
  shows "fleet_ok D R C H (ph(i := WBatch recs)) s' w'"
proof -
  have ev: "events_ok R H s" "inv s" using ok by (simp_all add: fleet_ok_def events_ok_def)
  note fr = failed_frame [OF ev(2) m]
  have old: "\<exists>r. rows s k = Some r \<and> same_event r r' \<and> rec_Attempts r \<le> rec_Attempts r'"
    if "rows s' k = Some r'" for k r'
    using fr that by (auto simp: deferred_row_def same_event_def split: if_splits)
  have live: "rows s' k \<noteq> None" if "rows s k \<noteq> None" for k using fr that by auto
  have ev': "events_ok R H s'" by (rule events_ok_frame [OF ev(1)]) (use fr old in blast)+
  have ages: "ages s s'" using old by (force simp: ages_def)
  show ?thesis
    by (rule fleet_ok_step [OF ok D ev' ages])
       (use live fr fleet_hand [OF ok, of _ i] p in_hand_ages [OF _ ages] in auto)
qed

lemma fleet_terminated:
  assumes ok: "fleet_ok D R C H ph s w" and p: "ph i = WFail b rec reason recs"
    and m: "terminate c (rec_ID rec) x s = (e, s')" and D: "D w \<subseteq> D w'"
    and mx: "0 < rl_maxAttempts (R i)" "rl_maxAttempts (R i) \<le> rec_Attempts rec + 1"
  shows "fleet_ok D R C H (ph(i := WBatch recs)) s' w'"
proof -
  have ev: "events_ok R H s" "inv s" using ok by (simp_all add: fleet_ok_def events_ok_def)
  note fr = term_frame [OF ev(2) m]
  let ?k = "key (rec_ID rec)"
  have hand: "in_hand H s rec" using fleet_hand [OF ok, of rec i] p by simp
  have old: "rows s k = Some r'" if "rows s' k = Some r'" for k r'
    using fr that by (auto split: if_splits)
  have ages: "ages s s'" using old by (force simp: ages_def)
  consider (same) "rows s' = rows s" "dead s' = dead s"
    | (moved) r d where "rows s ?k = Some r" "dead_row r x d" "rows s' = (rows s)(?k := None)"
        "dead s' = (dead s)(?k \<mapsto> d)"
    using fr by blast
  then have "events_ok R H s' \<and> (\<forall>k. rows s k \<noteq> None \<or> dead s k \<noteq> None \<longrightarrow> rows s' k \<noteq> None \<or> dead s' k \<noteq> None)"
  proof cases
    case same
    then show ?thesis using ev(1) fr by (simp add: events_ok_def)
  next
    case (moved r d)
    have "\<exists>h. H ?k = Some h \<and> same_event h (dl_Record d)"
      using ev(1) moved(1,2) unfolding events_ok_def dead_row_def by (blast intro: same_event_trans)
    moreover have "rl_maxAttempts (R i) \<le> dl_Attempts d"
      using hand moved(1,2) mx(2) by (auto simp: in_hand_def dead_row_def)
    ultimately show ?thesis
      using ev(1) mx(1) moved(3,4) fr unfolding events_ok_def by auto
  qed
  then show ?thesis
    by (intro fleet_ok_step [OF ok D _ ages])
       (use fleet_hand [OF ok, of _ i] p in_hand_ages [OF _ ages] in auto)
qed

text \<open>Every step of a relay wired to the store keeps the invariant.\<close>

lemma fleet_worker_step:
  assumes ok: "fleet_ok D R C H ph s w" and "observes D (R i)"
    and wired: "relay_wired (R i) fetch mark_sent mark_failed terminate"
    and st: "relay_worker_step (R i) (C i) (ph i, s, w) = (p', s', w')"
  shows "fleet_ok D R C H (ph(i := p')) s' w'"
proof -
  have sent: "sent_ok D (R i) (C i) (ph i) w" using ok by (simp add: fleet_ok_def)
  have ops: "rl_Fetch (R i) = fetch" "rl_MarkSent (R i) = mark_sent" "rl_MarkFailed (R i) = mark_failed"
    "0 < rl_maxAttempts (R i) \<Longrightarrow> rl_Terminate (R i) = Some terminate"
    using wired by (auto simp: relay_wired_def)
  from assms(2) st sent show ?thesis
  proof (cases rule: relay_worker_step_cases)
    case quiet
    then show ?thesis
      using ok fleet_hand [OF ok, of _ i] by (intro fleet_ok_step [OF ok]) (auto simp: fleet_ok_def)
  next
    case (fetched n res)
    then show ?thesis using fleet_fetch [OF ok] ops by metis
  next
    case (marked rec recs e)
    then show ?thesis using fleet_marked [OF ok] ops by metis
  next
    case (postponed rec recs reason at e)
    then show ?thesis using fleet_postponed [OF ok] ops by metis
  next
    case (terminated tm b rec recs reason e)
    then have "terminate (C i) (rec_ID rec) (rl_errText (R i) reason) s = (e, s')" using ops by simp
    then show ?thesis using fleet_terminated [OF ok terminated(1)] terminated by metis
  qed
qed

lemma crash_keeps:
  "fleet_ok D R C H ph s w \<Longrightarrow> fleet_ok D R C H (ph(i := WIdle)) s w"
  by (auto simp: fleet_ok_def)

text \<open>A commit adds rows under keys that are not in the history.\<close>

lemma commit_keeps:
  assumes ok: "fleet_ok D R C H ph s w" and "inv s'" and "dead s' = dead s"
    and "rows s' = rows s ++ N" and fresh: "dom N \<inter> dom H = {}"
  shows "fleet_ok D R C (H ++ N) ph s' w"
proof -
  have ev: "events_ok R H s" using ok by (simp add: fleet_ok_def)
  have N: "N k = None" if "H k = Some h" for k h using fresh that by (auto simp: dom_def)
  have H: "H k = None" if "N k = Some h" for k h using fresh that by (auto simp: dom_def)
  have "events_ok R (H ++ N) s'"
    using ev assms(2-4) N H unfolding events_ok_def by (fastforce simp: map_add_def split: option.splits)
  moreover have "accounted D R C (H ++ N) s' w"
    using ok assms(3,4) unfolding fleet_ok_def accounted_def by (fastforce simp: map_add_def split: option.splits)
  moreover have "in_hand (H ++ N) s' rec" if "in_hand H s rec" for rec
    using that N assms(4) unfolding in_hand_def by (fastforce simp: map_add_def split: option.splits)
  ultimately show ?thesis using ok by (simp add: fleet_ok_def)
qed

end

section \<open>The fleet on Postgres\<close>

interpretation pgx_fleet: fleet_store "pgx_Fetch env s" "pgx_MarkSent env" "pgx_MarkFailed env"
  "pgx_Terminate env" pg_key "pg_rows env" "pg_letters env" pg_owns "pg_inv env" "pe_ts env"
  for env :: pg_env and s :: "'b pgx_store"
  by unfold_locales

text \<open>
  The database, the outside world, where each worker is, the rows of open client
  transactions, which only those see, and the rows of committed ones as they were committed.
\<close>

record 'w fleet =
  fl_db :: pgdb
  fl_world :: 'w
  fl_phase :: "nat \<Rightarrow> wphase"
  fl_open :: "pg_row list list"
  fl_committed :: "pg_row list"

text \<open>
  Worker \<open>i\<close> runs the relay \<open>R i\<close> under the context \<open>C i\<close>. A crash loses what the worker held
  in memory; it starts over with a poll. The INSERT of Stage takes identity values and clock
  readings when it runs, not when its transaction commits, so ids may become visible out of
  order and rolled-back ones leave gaps; the identity column ends at the largest BIGINT.
\<close>

inductive fleet_step ::
  "pg_env \<Rightarrow> (nat \<Rightarrow> (pgdb, 'w, 'b) relay) \<Rightarrow> (nat \<Rightarrow> gctx) \<Rightarrow> 'w fleet \<Rightarrow> 'w fleet \<Rightarrow> bool"
  for env :: pg_env and R :: "nat \<Rightarrow> (pgdb, 'w, 'b) relay" and C :: "nat \<Rightarrow> gctx" where
  fleet_work: "relay_worker_step (R i) (C i) (fl_phase st i, fl_db st, fl_world st) = (p, db, w) \<Longrightarrow>
     fleet_step env R C st (st\<lparr>fl_db := db, fl_world := w, fl_phase := (fl_phase st)(i := p)\<rparr>)"
| fleet_crash: "fleet_step env R C st (st\<lparr>fl_phase := (fl_phase st)(i := WIdle)\<rparr>)"
| fleet_begin: "fleet_step env R C st (st\<lparr>fl_open := [] # fl_open st\<rparr>)"
| fleet_insert: "fl_open st = xs @ tx # ys \<Longrightarrow>
     pg_insert env topic pending ((fl_db st)\<lparr>db_rows := tx\<rparr>) = db1 \<Longrightarrow> db_seq db1 \<le> 2 ^ 63 \<Longrightarrow>
     fleet_step env R C st (st\<lparr>fl_db := (fl_db st)\<lparr>db_seq := db_seq db1, db_ticks := db_ticks db1\<rparr>,
        fl_open := xs @ db_rows db1 # ys\<rparr>)"
| fleet_commit: "fl_open st = xs @ tx # ys \<Longrightarrow>
     fleet_step env R C st (st\<lparr>fl_db := (fl_db st)\<lparr>db_rows := db_rows (fl_db st) @ tx\<rparr>,
        fl_open := xs @ ys, fl_committed := fl_committed st @ tx\<rparr>)"
| fleet_rollback: "fl_open st = xs @ tx # ys \<Longrightarrow> fleet_step env R C st (st\<lparr>fl_open := xs @ ys\<rparr>)"

definition fleet_start :: "'w \<Rightarrow> 'w fleet" where
  "fleet_start w = \<lparr>fl_db = \<lparr>db_rows = [], db_dead = [], db_seq = 1, db_uuids = 0, db_ticks = 0, db_stmts = 0\<rparr>,
     fl_world = w, fl_phase = (\<lambda>i. WIdle), fl_open = [], fl_committed = []\<rparr>"

text \<open>The committed rows by key, and the identity values handed out.\<close>

definition pg_history :: "pg_env \<Rightarrow> pg_row list \<Rightarrow> int option \<Rightarrow> orec option" where
  "pg_history env rs k = (case k of None \<Rightarrow> None
     | Some n \<Rightarrow> map_option (pg_view env) (find (\<lambda>r. pr_id r = n) rs))"

definition fleet_ids :: "'w fleet \<Rightarrow> int list" where
  "fleet_ids st = map pr_id (fl_committed st @ concat (fl_open st))"

definition ids_ok :: "'w fleet \<Rightarrow> bool" where
  "ids_ok st \<longleftrightarrow> distinct (fleet_ids st) \<and>
     (\<forall>n \<in> set (fleet_ids st). 0 < n \<and> n < db_seq (fl_db st)) \<and> 0 < db_seq (fl_db st) \<and> db_seq (fl_db st) \<le> 2 ^ 63"

abbreviation fleet_inv where
  "fleet_inv env D R C st \<equiv> ids_ok st \<and>
     pgx_fleet.fleet_ok env D R C (pg_history env (fl_committed st)) (fl_phase st) (fl_db st) (fl_world st)"

lemma find_append_key:
  "find P (xs @ ys) = (case find P xs of None \<Rightarrow> find P ys | Some x \<Rightarrow> Some x)"
  by (induction xs) auto

lemma pg_rows_history: "pg_rows env db = pg_history env (db_rows db)"
  by (rule ext) (simp add: pg_rows_def pg_history_def pg_find_def split: option.split)

lemma pg_history_append:
  assumes "pr_id ` set xs \<inter> pr_id ` set ys = {}"
  shows "pg_history env (xs @ ys) = pg_history env xs ++ pg_history env ys"
proof -
  have "find (\<lambda>r. pr_id r = n) ys = None" if "find (\<lambda>r. pr_id r = n) xs = Some x" for n x
    using assms find_Some_in [OF that] by (auto simp: find_None_iff)
  then show ?thesis
    by (auto simp: pg_history_def map_add_def find_append_key fun_eq_iff split: option.splits)
qed

lemma pg_history_dom: "dom (pg_history env rs) = Some ` pr_id ` set rs"
proof -
  have "find (\<lambda>r. pr_id r = n) rs \<noteq> None \<longleftrightarrow> n \<in> pr_id ` set rs" for n
    by (auto simp: find_None_iff)
  then show ?thesis by (auto simp: pg_history_def dom_def split: option.splits)
qed

text \<open>No operation of the store takes an identity value.\<close>

lemma pgx_exec_seq:
  assumes "pgx_exec env what stmt i db = (e, db')"
    and "\<And>m t d sr d'. stmt m t d = (sr, d') \<Longrightarrow> db_seq d' = db_seq d"
  shows "db_seq db' = db_seq db"
  using assms(1) by (cases rule: pgx_exec_cases) (auto dest!: assms(2))

lemma pgx_Fetch_seq: "pgx_Fetch env s c n db = (res, db') \<Longrightarrow> db_seq db' = db_seq db"
  by (cases rule: pgx_Fetch_cases) (auto simp: fetchSQL_def Let_def pg_tick_def)

lemma pgx_MarkSent_seq: "pgx_MarkSent env c i db = (e, db') \<Longrightarrow> db_seq db' = db_seq db"
  unfolding pgx_MarkSent_def by (erule pgx_exec_seq) (auto simp: markSentSQL_def)

lemma pgx_MarkFailed_seq: "pgx_MarkFailed env c i x t db = (e, db') \<Longrightarrow> db_seq db' = db_seq db"
  unfolding pgx_MarkFailed_def by (erule pgx_exec_seq) (auto simp: markFailedSQL_def split: if_splits)

lemma pgx_Terminate_seq: "pgx_Terminate env c i x db = (e, db') \<Longrightarrow> db_seq db' = db_seq db"
  unfolding pgx_Terminate_def
  by (erule pgx_exec_seq) (auto simp: terminateSQL_def Let_def pg_tick_def split: if_splits)

lemmas pgx_seq = pgx_Fetch_seq pgx_MarkSent_seq pgx_MarkFailed_seq pgx_Terminate_seq

lemma relay_worker_step_seq:
  assumes "relay_wired r (pgx_Fetch env s) (pgx_MarkSent env) (pgx_MarkFailed env) (pgx_Terminate env)"
    and "observes D r" and "relay_worker_step r ctx (p, db, w) = (p', db', w')" and "sent_ok D r ctx p w"
  shows "db_seq db' = db_seq db"
  using assms(2-4)
  by (cases rule: relay_worker_step_cases) (use assms(1) in \<open>auto simp: relay_wired_def dest: pgx_seq\<close>)

lemma distinct_fresh:
  fixes q :: int
  assumes "distinct (A @ B @ E)" and "\<And>n. n \<in> set (A @ B @ E) \<Longrightarrow> n < q"
    and "distinct N" and "\<And>n. n \<in> set N \<Longrightarrow> q \<le> n"
  shows "distinct (A @ B @ N @ E)"
proof -
  have "set (A @ B @ E) \<inter> set N = {}" using assms(2,4) by fastforce
  then show ?thesis using assms(1,3) by auto
qed

lemma fleet_insert_ids:
  assumes "ids_ok st" and "fl_open st = xs @ tx # ys"
    and "pg_insert env topic pending ((fl_db st)\<lparr>db_rows := tx\<rparr>) = db1" and "db_seq db1 \<le> 2 ^ 63"
  shows "ids_ok (st\<lparr>fl_db := (fl_db st)\<lparr>db_seq := db_seq db1, db_ticks := db_ticks db1\<rparr>,
           fl_open := xs @ db_rows db1 # ys\<rparr>)"
proof -
  let ?q = "db_seq (fl_db st)"
  have ids: "map pr_id (db_rows db1) = map pr_id tx @ map (\<lambda>j. ?q + int j) [0..<length pending]"
    and seq: "db_seq db1 = ?q + int (length pending)"
    using assms(3) by (auto simp: pg_insert_spec pg_new_row_def comp_def)
  let ?A = "map pr_id (fl_committed st @ concat xs)" and ?E = "map pr_id (concat ys)"
    and ?N = "map (\<lambda>j. ?q + int j) [0..<length pending]"
  have old: "fleet_ids st = ?A @ map pr_id tx @ ?E" by (simp add: fleet_ids_def assms(2))
  have new: "fleet_ids (st\<lparr>fl_db := (fl_db st)\<lparr>db_seq := db_seq db1, db_ticks := db_ticks db1\<rparr>,
           fl_open := xs @ db_rows db1 # ys\<rparr>) = ?A @ map pr_id tx @ ?N @ ?E"
    by (simp add: fleet_ids_def ids)
  have d: "distinct (?A @ map pr_id tx @ ?N @ ?E)"
    by (rule distinct_fresh [where q = ?q])
       (use assms(1) in \<open>auto simp: ids_ok_def old distinct_map inj_on_def\<close>)
  have bound: "\<forall>n \<in> set (?A @ map pr_id tx @ ?N @ ?E). 0 < n \<and> n < db_seq db1"
  proof
    fix n assume "n \<in> set (?A @ map pr_id tx @ ?N @ ?E)"
    then have n: "n \<in> set (fleet_ids st) \<or> n \<in> set ?N" by (auto simp: old)
    have "0 < n \<and> n < ?q" if "n \<in> set (fleet_ids st)" using assms(1) that by (simp add: ids_ok_def)
    moreover have "0 < ?q" using assms(1) by (simp add: ids_ok_def)
    ultimately show "0 < n \<and> n < db_seq db1" using n by (auto simp: seq)
  qed
  have "0 < db_seq db1" using assms(1) by (simp add: ids_ok_def seq)
  with d bound assms(4) show ?thesis unfolding ids_ok_def new by simp
qed

lemma fleet_commit_inv:
  assumes inv: "fleet_inv env D R C st" and op: "fl_open st = xs @ tx # ys"
  shows "fleet_inv env D R C (st\<lparr>fl_db := (fl_db st)\<lparr>db_rows := db_rows (fl_db st) @ tx\<rparr>,
           fl_open := xs @ ys, fl_committed := fl_committed st @ tx\<rparr>)"
proof -
  let ?db = "fl_db st" and ?db' = "(fl_db st)\<lparr>db_rows := db_rows (fl_db st) @ tx\<rparr>"
  have ids: "distinct (map pr_id (fl_committed st))" "distinct (map pr_id tx)"
    "pr_id ` set (fl_committed st) \<inter> pr_id ` set tx = {}"
    using inv op by (simp_all add: ids_ok_def fleet_ids_def Int_Un_distrib)
  have bound: "0 < pr_id r \<and> pr_id r < 2 ^ 63" if "r \<in> set tx" for r
  proof -
    have "pr_id r \<in> set (fleet_ids st)" using that op by (simp add: fleet_ids_def)
    then show ?thesis using inv by (auto simp: ids_ok_def)
  qed
  have ok: "pgx_fleet.events_ok env R (pg_history env (fl_committed st)) ?db"
    using inv by (simp add: pgx_fleet.fleet_ok_def)
  have "dom (pg_rows env ?db) \<subseteq> dom (pg_history env (fl_committed st))"
    using ok unfolding pgx_fleet.events_ok_def by blast
  then have live: "pr_id ` set (db_rows ?db) \<subseteq> pr_id ` set (fl_committed st)"
    unfolding pg_rows_history pg_history_dom by blast
  then have fresh: "pr_id ` set (db_rows ?db) \<inter> pr_id ` set tx = {}" using ids(3) by blast
  have "pg_inv env ?db" using ok by (simp add: pgx_fleet.events_ok_def)
  then have "pg_inv env ?db'" using ids(2) fresh bound by (fastforce simp: pg_inv_def)
  moreover have "pg_letters env ?db' = pg_letters env ?db" by (rule pg_letters_cong) simp
  moreover have "pg_rows env ?db' = pg_rows env ?db ++ pg_history env tx"
    using pg_history_append [OF fresh] by (simp add: pg_rows_history)
  moreover have "dom (pg_history env tx) \<inter> dom (pg_history env (fl_committed st)) = {}"
    using ids(3) by (auto simp: pg_history_dom)
  moreover have "pgx_fleet.fleet_ok env D R C (pg_history env (fl_committed st)) (fl_phase st) ?db (fl_world st)"
    using inv by simp
  ultimately have "pgx_fleet.fleet_ok env D R C (pg_history env (fl_committed st) ++ pg_history env tx)
      (fl_phase st) ?db' (fl_world st)"
    by (intro pgx_fleet.commit_keeps) auto
  moreover have "ids_ok (st\<lparr>fl_db := ?db', fl_open := xs @ ys, fl_committed := fl_committed st @ tx\<rparr>)"
  proof -
    let ?st' = "st\<lparr>fl_db := ?db', fl_open := xs @ ys, fl_committed := fl_committed st @ tx\<rparr>"
    let ?m = "map pr_id"
    have "fleet_ids st = ?m (fl_committed st) @ ?m (concat xs) @ ?m tx @ ?m (concat ys)"
      and "fleet_ids ?st' = ?m (fl_committed st) @ ?m tx @ ?m (concat xs) @ ?m (concat ys)"
      by (simp_all add: fleet_ids_def op)
    moreover have "distinct (A @ T @ X @ Y) = distinct (A @ X @ T @ Y)" for A T X Y :: "int list"
      by auto
    moreover have "set (A @ T @ X @ Y) = set (A @ X @ T @ Y)" for A T X Y :: "int list" by auto
    ultimately have "distinct (fleet_ids ?st') = distinct (fleet_ids st)" "set (fleet_ids ?st') = set (fleet_ids st)"
      by metis+
    then show ?thesis using inv by (simp add: ids_ok_def)
  qed
  ultimately show ?thesis using pg_history_append [OF ids(3)] by simp
qed

lemma fleet_ok_env:
  "pgx_fleet.fleet_ok env D R C H ph (db\<lparr>db_seq := a, db_ticks := b\<rparr>) w = pgx_fleet.fleet_ok env D R C H ph db w"
proof -
  have "pg_rows env (db\<lparr>db_seq := a, db_ticks := b\<rparr>) = pg_rows env db" by (simp add: pg_rows_history)
  moreover have "pg_letters env (db\<lparr>db_seq := a, db_ticks := b\<rparr>) = pg_letters env db" by (rule pg_letters_cong) simp
  moreover have "pg_inv env (db\<lparr>db_seq := a, db_ticks := b\<rparr>) = pg_inv env db" by (simp add: pg_inv_def)
  ultimately show ?thesis
    unfolding pgx_fleet.fleet_ok_def pgx_fleet.events_ok_def pgx_fleet.accounted_def pgx_fleet.in_hand_def by simp
qed

text \<open>Every relay of the fleet works on this database and its publishes are observed.\<close>

definition fleet_wired ::
  "pg_env \<Rightarrow> ('w \<Rightarrow> (string \<times> 'b devent) set) \<Rightarrow> (nat \<Rightarrow> (pgdb, 'w, 'b) relay) \<Rightarrow> (nat \<Rightarrow> 'c pgx_store) \<Rightarrow> bool" where
  "fleet_wired env D R S \<longleftrightarrow> (\<forall>i. observes D (R i) \<and>
     relay_wired (R i) (pgx_Fetch env (S i)) (pgx_MarkSent env) (pgx_MarkFailed env) (pgx_Terminate env))"

lemma fleet_step_inv:
  assumes "fleet_step env R C st st'" and wired: "fleet_wired env D R S" and "fleet_inv env D R C st"
  shows "fleet_inv env D R C st'"
  using assms(1,3)
proof (induction rule: fleet_step.induct)
  case (fleet_work i st p db w)
  have ok: "pgx_fleet.fleet_ok env D R C (pg_history env (fl_committed st)) (fl_phase st) (fl_db st) (fl_world st)"
    using fleet_work(2) by simp
  have r: "observes D (R i)"
    "relay_wired (R i) (pgx_Fetch env (S i)) (pgx_MarkSent env) (pgx_MarkFailed env) (pgx_Terminate env)"
    using wired by (simp_all add: fleet_wired_def)
  have "db_seq db = db_seq (fl_db st)"
    using relay_worker_step_seq [OF r(2,1) fleet_work(1)] ok by (simp add: pgx_fleet.fleet_ok_def)
  then have "ids_ok (st\<lparr>fl_db := db, fl_world := w, fl_phase := (fl_phase st)(i := p)\<rparr>)"
    using fleet_work(2) by (simp add: ids_ok_def fleet_ids_def)
  then show ?case using pgx_fleet.fleet_worker_step [OF ok r fleet_work(1)] by (simp add: fun_upd_def)
next
  case (fleet_crash st i)
  then show ?case
    using pgx_fleet.crash_keeps [of env D R C "pg_history env (fl_committed st)" "fl_phase st" "fl_db st" "fl_world st" i]
    by (simp add: ids_ok_def fleet_ids_def fun_upd_def)
next
  case (fleet_begin st)
  then show ?case by (simp add: ids_ok_def fleet_ids_def)
next
  case (fleet_insert st xs tx ys topic pending db1)
  then show ?case using fleet_insert_ids [OF _ fleet_insert(1-3)] by (simp add: fleet_ok_env)
next
  case (fleet_commit st xs tx ys)
  then show ?case using fleet_commit_inv by blast
next
  case (fleet_rollback st xs tx ys)
  let ?m = "map pr_id"
  have "fleet_ids st = ?m (fl_committed st) @ ?m (concat xs) @ ?m tx @ ?m (concat ys)"
    and "fleet_ids (st\<lparr>fl_open := xs @ ys\<rparr>) = ?m (fl_committed st) @ ?m (concat xs) @ ?m (concat ys)"
    by (simp_all add: fleet_ids_def fleet_rollback(1))
  moreover have "distinct (A @ X @ T @ Y) \<Longrightarrow> distinct (A @ X @ Y)" for A T X Y :: "int list" by auto
  moreover have "set (A @ X @ Y) \<subseteq> set (A @ X @ T @ Y)" for A T X Y :: "int list" by auto
  ultimately have "distinct (fleet_ids st) \<Longrightarrow> distinct (fleet_ids (st\<lparr>fl_open := xs @ ys\<rparr>))"
    "set (fleet_ids (st\<lparr>fl_open := xs @ ys\<rparr>)) \<subseteq> set (fleet_ids st)"
    by metis+
  with fleet_rollback(2) show ?case by (auto simp: ids_ok_def)
qed

lemma fleet_start_inv:
  assumes "\<And>n. uuid_canonical (pe_uuid env n)"
  shows "fleet_inv env D R C (fleet_start w)"
proof -
  let ?db = "fl_db (fleet_start w)"
  have "pg_inv env ?db" using assms by (simp add: pg_inv_def fleet_start_def)
  moreover have "pg_rows env ?db = Map.empty" "pg_letters env ?db = Map.empty"
    by (auto simp: pg_rows_history pg_history_def pg_letters_def fleet_start_def fun_eq_iff split: option.splits)
  moreover have "pg_history env [] = Map.empty" by (auto simp: pg_history_def fun_eq_iff split: option.splits)
  ultimately show ?thesis
    by (simp add: ids_ok_def fleet_ids_def pgx_fleet.fleet_ok_def pgx_fleet.events_ok_def pgx_fleet.accounted_def)
       (simp add: fleet_start_def)
qed

lemma fleet_reachable_inv:
  assumes "(fleet_step env R C)\<^sup>*\<^sup>* (fleet_start w) st" and "fleet_wired env D R S"
    and "\<And>n. uuid_canonical (pe_uuid env n)"
  shows "fleet_inv env D R C st"
  using assms(1)
proof (induction rule: rtranclp_induct)
  case base
  show ?case by (rule fleet_start_inv [OF assms(3)])
next
  case (step y z)
  then show ?case using fleet_step_inv [OF _ assms(2)] by blast
qed

text \<open>The invariant, read off the tables.\<close>

lemma pg_history_mem:
  assumes "distinct (map pr_id rs)" and "h \<in> set rs"
  shows "pg_history env rs (Some (pr_id h)) = Some (pg_view env h)"
  using find_key_distinct [OF assms] by (simp add: pg_history_def)

lemma pg_history_Some:
  assumes "pg_history env rs k = Some v"
  obtains h where "h \<in> set rs" "k = Some (pr_id h)" "v = pg_view env h"
  using assms by (auto simp: pg_history_def split: option.splits dest: find_Some_in)

lemma pg_letters_Some:
  assumes "pg_letters env db (Some n) = Some l"
  obtains d where "d \<in> set (db_dead db)" "pr_id (pd_row d) = n" "l = pg_letter env d"
  using assms by (auto simp: pg_letters_def dest: find_Some_in)

lemma pg_letters_mem: "d \<in> set (db_dead db) \<Longrightarrow> pg_letters env db (Some (pr_id (pd_row d))) \<noteq> None"
  by (auto simp: pg_letters_def find_None_iff)

lemma fleet_inv_row:
  assumes "fleet_inv env D R C st" and r: "r \<in> set (db_rows (fl_db st))"
  shows "\<exists>h \<in> set (fl_committed st). pr_id r = pr_id h \<and> same_event (pg_view env h) (pg_view env r)"
proof -
  have ev: "pgx_fleet.events_ok env R (pg_history env (fl_committed st)) (fl_db st)"
    using assms(1) by (simp add: pgx_fleet.fleet_ok_def)
  then have "distinct (map pr_id (db_rows (fl_db st)))" by (simp add: pgx_fleet.events_ok_def pg_inv_def)
  then obtain v where "pg_history env (fl_committed st) (Some (pr_id r)) = Some v" "same_event v (pg_view env r)"
    using ev pg_history_mem [OF _ r] unfolding pgx_fleet.events_ok_def pg_rows_history by blast
  then show ?thesis by (auto elim!: pg_history_Some)
qed

lemma fleet_inv_letter:
  assumes "fleet_inv env D R C st" and l: "pg_letters env (fl_db st) (Some n) = Some l"
  shows "n \<notin> pr_id ` set (db_rows (fl_db st)) \<and>
    (\<exists>h \<in> set (fl_committed st). n = pr_id h \<and> same_event (pg_view env h) (dl_Record l)) \<and>
    (\<exists>i. 0 < rl_maxAttempts (R i) \<and> rl_maxAttempts (R i) \<le> dl_Attempts l)"
proof -
  have "pgx_fleet.events_ok env R (pg_history env (fl_committed st)) (fl_db st)"
    using assms(1) by (simp add: pgx_fleet.fleet_ok_def)
  then have *: "pg_history env (db_rows (fl_db st)) (Some n) = None"
    "\<exists>v. pg_history env (fl_committed st) (Some n) = Some v \<and> same_event v (dl_Record l)"
    "\<exists>i. 0 < rl_maxAttempts (R i) \<and> rl_maxAttempts (R i) \<le> dl_Attempts l"
    using l unfolding pgx_fleet.events_ok_def pg_rows_history by blast+
  have "Some n \<notin> dom (pg_history env (db_rows (fl_db st)))" using *(1) by (simp add: dom_def)
  then have "n \<notin> pr_id ` set (db_rows (fl_db st))" by (auto simp: pg_history_dom)
  then show ?thesis using *(2,3) by (auto elim!: pg_history_Some)
qed

lemma fleet_inv_dead:
  assumes "fleet_inv env D R C st" and "d \<in> set (db_dead (fl_db st))"
  shows "pr_id (pd_row d) \<in> pr_id ` set (fl_committed st) \<and> pr_id (pd_row d) \<notin> pr_id ` set (db_rows (fl_db st))"
proof -
  obtain l where "pg_letters env (fl_db st) (Some (pr_id (pd_row d))) = Some l"
    using pg_letters_mem [OF assms(2), of env] by blast
  from fleet_inv_letter [OF assms(1) this] show ?thesis by auto
qed

lemma fleet_inv_hand:
  assumes "fleet_inv env D R C st" and "rec \<in> set (phase_recs (fl_phase st i))"
  shows "\<exists>h \<in> set (fl_committed st). pg_key (rec_ID rec) = Some (pr_id h) \<and> same_event (pg_view env h) rec"
proof -
  have "pgx_fleet.in_hand env (pg_history env (fl_committed st)) (fl_db st) rec"
    using assms by (auto simp: pgx_fleet.fleet_ok_def)
  then show ?thesis by (auto simp: pgx_fleet.in_hand_def elim!: pg_history_Some)
qed

lemma fleet_inv_committed:
  assumes inv: "fleet_inv env D R C st" and h: "h \<in> set (fl_committed st)"
  shows "(\<exists>r \<in> set (db_rows (fl_db st)). pr_id r = pr_id h \<and> same_event (pg_view env h) (pg_view env r)) \<or>
      (\<exists>d \<in> set (db_dead (fl_db st)). pr_id (pd_row d) = pr_id h \<and> same_event (pg_view env h) (pg_view env (pd_row d)) \<and>
         (\<exists>i. 0 < rl_maxAttempts (R i) \<and> rl_maxAttempts (R i) \<le> pd_attempts d)) \<or>
      (\<exists>i. delivered D (R i) (C i) (pg_view env h) (fl_world st))"
proof -
  have dist: "distinct (map pr_id (fl_committed st))" using inv by (simp add: ids_ok_def fleet_ids_def)
  have same: "h' = h" if "h' \<in> set (fl_committed st)" "pr_id h' = pr_id h" for h'
    using dist h that by (auto simp: distinct_map dest: inj_onD)
  have "pgx_fleet.accounted env D R C (pg_history env (fl_committed st)) (fl_db st) (fl_world st)"
    using inv by (simp add: pgx_fleet.fleet_ok_def)
  then consider (live) r where "pg_history env (db_rows (fl_db st)) (Some (pr_id h)) = Some r"
    | (dead) l where "pg_letters env (fl_db st) (Some (pr_id h)) = Some l"
    | (sent) "\<exists>i. delivered D (R i) (C i) (pg_view env h) (fl_world st)"
    using pg_history_mem [OF dist h, of env] unfolding pgx_fleet.accounted_def pg_rows_history by blast
  then show ?thesis
  proof cases
    case live
    then obtain r where r: "r \<in> set (db_rows (fl_db st))" "pr_id r = pr_id h" by (auto elim!: pg_history_Some)
    with fleet_inv_row [OF inv r(1)] same show ?thesis by metis
  next
    case dead
    obtain d where d: "d \<in> set (db_dead (fl_db st))" "pr_id (pd_row d) = pr_id h" "l = pg_letter env d"
      by (rule pg_letters_Some [OF dead])
    have l: "dl_Record l = pg_view env (pd_row d)" "dl_Attempts l = pd_attempts d" by (simp_all add: d(3) pg_letter_def)
    from fleet_inv_letter [OF inv dead] same have "same_event (pg_view env h) (dl_Record l)"
      "\<exists>i. 0 < rl_maxAttempts (R i) \<and> rl_maxAttempts (R i) \<le> dl_Attempts l" by metis+
    then show ?thesis using d(1,2) unfolding l by blast
  qed simp
qed

text \<open>
  C5: A fleet of relays on one Postgres outbox loses no committed event, at any point of any
  interleaving: however the statements and publishes of the workers interleave with each
  other and with client transactions, whichever statements fail before or after they took
  effect, whatever leases run out and are taken over, and wherever workers panic or crash and
  restart. Every committed row is still in the outbox with its event, or in the dead
  letters with its event after at least as many attempts as the budget of some relay of the fleet,
  or its event has been accepted by the publisher. No row or dead letter appears that no
  client committed, none is both, and the records in the workers' hands are events of committed
  rows: a rolled-back event never reaches the publisher. (The server's UUIDs are canonical.)
\<close>

theorem pgx_fleet_no_loss:
  assumes "(fleet_step env R C)\<^sup>*\<^sup>* (fleet_start w) st" and "fleet_wired env D R S"
    and "\<forall>n. uuid_canonical (pe_uuid env n)"
  shows "(\<forall>h \<in> set (fl_committed st).
      (\<exists>r \<in> set (db_rows (fl_db st)). pr_id r = pr_id h \<and> same_event (pg_view env h) (pg_view env r)) \<or>
      (\<exists>d \<in> set (db_dead (fl_db st)). pr_id (pd_row d) = pr_id h \<and> same_event (pg_view env h) (pg_view env (pd_row d)) \<and>
         (\<exists>i. 0 < rl_maxAttempts (R i) \<and> rl_maxAttempts (R i) \<le> pd_attempts d)) \<or>
      (\<exists>i. delivered D (R i) (C i) (pg_view env h) (fl_world st))) \<and>
    (\<forall>r \<in> set (db_rows (fl_db st)). \<exists>h \<in> set (fl_committed st).
       pr_id r = pr_id h \<and> same_event (pg_view env h) (pg_view env r)) \<and>
    (\<forall>d \<in> set (db_dead (fl_db st)). pr_id (pd_row d) \<in> pr_id ` set (fl_committed st) \<and>
       pr_id (pd_row d) \<notin> pr_id ` set (db_rows (fl_db st))) \<and>
    (\<forall>i. \<forall>rec \<in> set (phase_recs (fl_phase st i)). \<exists>h \<in> set (fl_committed st).
       pg_key (rec_ID rec) = Some (pr_id h) \<and> same_event (pg_view env h) rec)"
proof -
  have inv: "fleet_inv env D R C st" by (rule fleet_reachable_inv [OF assms(1,2)]) (simp add: assms(3))
  show ?thesis
    by (intro conjI ballI allI fleet_inv_committed [OF inv] fleet_inv_row [OF inv] fleet_inv_hand [OF inv])
       (use fleet_inv_dead [OF inv] in blast)+
qed

text \<open>
  Two workers and a client on the example server: a row is committed, worker 0 fetches and
  publishes it and crashes before MarkSent.
\<close>

theorem pgx_fleet_no_loss_witness:
  "\<exists>st h. (fleet_step example_env (\<lambda>i. example_pgx_relay) (\<lambda>i. background))\<^sup>*\<^sup>* (fleet_start []) st \<and>
     fl_committed st = [h] \<and> fl_phase st 0 = WIdle \<and>
     (pr_id h \<in> pr_id ` set (db_rows (fl_db st)) \<or> pr_id h \<in> (pr_id \<circ> pd_row) ` set (db_dead (fl_db st)) \<or>
      delivered set example_pgx_relay background (pg_view example_env h) (fl_world st))"
proof -
  let ?R = "\<lambda>i :: nat. example_pgx_relay" and ?C = "\<lambda>i :: nat. background"
  let ?step = "fleet_step example_env ?R ?C"
  let ?p = "\<lparr>sg_eventID = ''e1'', sg_eventName = ''n'', sg_aggregateID = ''a'', sg_aggregateType = ''T'',
    sg_payload = ''x'', sg_headers = ''{}''\<rparr>"
  let ?h = "pg_new_row example_env ''t'' 1 0 ?p"
  let ?s0 = "fleet_start [] :: (string \<times> unit devent) list fleet"
  let ?s1 = "?s0\<lparr>fl_open := [[]]\<rparr>"
  let ?db1 = "pg_insert example_env ''t'' [?p] ((fl_db ?s1)\<lparr>db_rows := []\<rparr>)"
  let ?s2 = "?s1\<lparr>fl_db := (fl_db ?s1)\<lparr>db_seq := db_seq ?db1, db_ticks := db_ticks ?db1\<rparr>, fl_open := [db_rows ?db1]\<rparr>"
  let ?s3 = "?s2\<lparr>fl_db := (fl_db ?s2)\<lparr>db_rows := db_rows (fl_db ?s2) @ db_rows ?db1\<rparr>, fl_open := [],
     fl_committed := fl_committed ?s2 @ db_rows ?db1\<rparr>"
  have 1: "?step ?s0 ?s1" using fleet_begin [of example_env ?R ?C ?s0] by (simp add: fleet_start_def)
  have 2: "?step ?s1 ?s2"
    using fleet_insert [of ?s1 "[]" "[]" "[]" example_env "''t''" "[?p]" ?db1 ?R ?C] by (simp add: fleet_start_def)
  have 3: "?step ?s2 ?s3"
    using fleet_commit [of ?s2 "[]" "db_rows ?db1" "[]" example_env ?R ?C] by (simp add: fleet_start_def)
  obtain p db w where w4: "relay_worker_step (?R 0) (?C 0) (fl_phase ?s3 0, fl_db ?s3, fl_world ?s3) = (p, db, w)"
    by (metis prod_cases3)
  define s4 where "s4 = ?s3\<lparr>fl_db := db, fl_world := w, fl_phase := (fl_phase ?s3)(0 := p)\<rparr>"
  have 4: "?step ?s3 s4" unfolding s4_def by (rule fleet_work [OF w4])
  obtain p' db' w' where w5: "relay_worker_step (?R 0) (?C 0) (fl_phase s4 0, fl_db s4, fl_world s4) = (p', db', w')"
    by (metis prod_cases3)
  define s5 where "s5 = s4\<lparr>fl_db := db', fl_world := w', fl_phase := (fl_phase s4)(0 := p')\<rparr>"
  have 5: "?step s4 s5" unfolding s5_def by (rule fleet_work [OF w5])
  define s6 where "s6 = s5\<lparr>fl_phase := (fl_phase s5)(0 := WIdle)\<rparr>"
  have 6: "?step s5 s6" unfolding s6_def by (rule fleet_crash)
  have "?step\<^sup>*\<^sup>* ?s0 ?s3" by (rule rtranclp.rtrancl_into_rtrancl [OF rtranclp.rtrancl_into_rtrancl [OF r_into_rtranclp]])
       (rule 1 2 3)+
  then have run: "?step\<^sup>*\<^sup>* ?s0 s6" using 4 5 6 by (meson rtranclp.rtrancl_into_rtrancl)
  have wired: "fleet_wired example_env set ?R (\<lambda>i. \<lparr>ps_codec = example_codec, ps_claimLease = defaultClaimLease\<rparr>)"
    by (auto simp: fleet_wired_def observes_def relay_wired_def example_pgx_relay_def)
  have uuids: "\<forall>n. uuid_canonical (pe_uuid example_env n)" by (simp add: example_env_def example_uuids_canonical)
  have c: "fl_committed s6 = [?h]" "fl_phase s6 0 = WIdle"
    by (simp_all add: s6_def s5_def s4_def fleet_start_def)
  show ?thesis
    using pgx_fleet_no_loss [OF run wired uuids] run c by (intro exI [of _ s6] exI [of _ ?h]) auto
qed

end
