(* ===== verification/Relay_Delivery.thy ===== *)
theory Relay_Delivery
  imports Relay
begin

text \<open>
  What the relay achieves when nothing goes wrong. A publisher \<open>accepts\<close> a record when the record
  decodes, its headers restore and Publish returns nil. The contract \<open>delivering_store\<close> says what
  Fetch and MarkSent of a working store do to its backlog; every drain then publishes the head
  of the backlog, in order and once, and enough ticks of the Run loop publish all of it.
\<close>

section \<open>An accepted record\<close>

definition pub_context :: "('s, 'w, 'b) relay \<Rightarrow> gctx \<Rightarrow> orec \<Rightarrow> gctx outcome" where
  "pub_context r ctx rec = (case rl_headerRestorer r of None \<Rightarrow> Ret ctx | Some h \<Rightarrow> h ctx (rec_Headers rec))"

definition accepts :: "('s, 'w, 'b) relay \<Rightarrow> gctx \<Rightarrow> orec \<Rightarrow> bool" where
  "accepts r ctx rec \<longleftrightarrow>
     (\<exists>ev nm c. cd_Unmarshal (rl_codec r) ctx (relay_message rec) = Ret (Inr (ev, nm)) \<and>
        pub_context r ctx rec = Ret c \<and> (\<forall>w. fst (rl_Publish r c (rec_Topic rec) [ev] w) = Ret None))"

text \<open>The effect of publishing the event of a record on the outside world.\<close>

definition publish_rec :: "('s, 'w, 'b) relay \<Rightarrow> gctx \<Rightarrow> orec \<Rightarrow> 'w \<Rightarrow> 'w" where
  "publish_rec r ctx rec w =
     (case cd_Unmarshal (rl_codec r) ctx (relay_message rec) of
        Ret (Inr (ev, _)) \<Rightarrow>
          (case pub_context r ctx rec of
             Ret c \<Rightarrow> snd (rl_Publish r c (rec_Topic rec) [ev] w)
           | Panic _ \<Rightarrow> w)
      | _ \<Rightarrow> w)"

text \<open>Both depend on the event of the record only, not on its id or its schedule.\<close>

lemma same_event_delivery:
  assumes "same_event a b"
  shows "accepts r ctx a = accepts r ctx b" and "publish_rec r ctx a = publish_rec r ctx b"
proof -
  have "relay_message a = relay_message b" "rec_Topic a = rec_Topic b" "pub_context r ctx a = pub_context r ctx b"
    using assms by (auto simp: same_event_def relay_message_def pub_context_def split: option.split)
  then show "accepts r ctx a = accepts r ctx b" and "publish_rec r ctx a = publish_rec r ctx b"
    by (simp_all add: accepts_def publish_rec_def fun_eq_iff split: outcome.split sum.split)
qed

lemma process_accepted:
  assumes "accepts r ctx rec" and "rl_MarkSent r ctx (rec_ID rec) s = (None, s')"
  shows "relay_process r ctx rec (s, w) = (Ret (), (s', publish_rec r ctx rec w))"
proof -
  obtain ev nm c where a: "cd_Unmarshal (rl_codec r) ctx (relay_message rec) = Ret (Inr (ev, nm))"
    "pub_context r ctx rec = Ret c" "\<forall>w. fst (rl_Publish r c (rec_Topic rec) [ev] w) = Ret None"
    using assms(1) by (auto simp: accepts_def)
  have "rl_Publish r c (rec_Topic rec) [ev] w = (Ret None, publish_rec r ctx rec w)"
    using a by (simp add: publish_rec_def prod_eq_iff)
  then show ?thesis
    using a assms(2) by (simp add: relay_process_def relay_body_def relay_log_err_def flip: pub_context_def)
qed

text \<open>What was published stays published, and an accepted record is delivered.\<close>

lemma publish_rec_keeps: "observes D r \<Longrightarrow> D w \<subseteq> D (publish_rec r ctx rec w)"
  by (auto simp: publish_rec_def observes_def split: outcome.split sum.split)

lemma publish_rec_delivered: "observes D r \<Longrightarrow> accepts r ctx rec \<Longrightarrow> delivered D r ctx rec (publish_rec r ctx rec w)"
  by (auto simp: publish_rec_def observes_def accepts_def delivered_def)

lemma fold_publish_keeps: "observes D r \<Longrightarrow> D w \<subseteq> D (fold (publish_rec r ctx) recs w)"
  by (induction recs arbitrary: w) (auto dest: publish_rec_keeps)

lemma fold_publish_delivered:
  assumes "observes D r" and "accepts r ctx rec" and "rec \<in> set recs"
  shows "delivered D r ctx rec (fold (publish_rec r ctx) recs w)"
  using assms(3)
proof (induction recs arbitrary: w)
  case (Cons x xs)
  show ?case
  proof (cases "rec \<in> set xs")
    case True
    then show ?thesis using Cons.IH by simp
  next
    case False
    then have "x = rec" using Cons.prems by simp
    then show ?thesis
      using delivered_mono [OF publish_rec_delivered [OF assms(1,2), of w] fold_publish_keeps [OF assms(1)]] by simp
  qed
qed simp

section \<open>The contract of a working store\<close>

text \<open>
  \<open>backlog\<close> lists the records that are waiting, in the order of delivery, and \<open>ready\<close> holds when all of
  them are due and the store works. Between Fetch and the last MarkSent of a batch the store is
  \<open>claimed\<close>: the records of the batch not yet marked, and the backlog behind them.
\<close>

locale delivering_store =
  fixes fetch :: "gctx \<Rightarrow> int \<Rightarrow> 's \<Rightarrow> (goerr + orec list) \<times> 's"
    and mark_sent :: "gctx \<Rightarrow> string \<Rightarrow> 's \<Rightarrow> goerr option \<times> 's"
    and ready :: "'s \<Rightarrow> bool"
    and backlog :: "'s \<Rightarrow> orec list"
    and claimed :: "'s \<Rightarrow> orec list \<Rightarrow> orec list \<Rightarrow> bool"
  assumes fetch_ready: "ready s \<Longrightarrow> 0 < n \<Longrightarrow>
      \<exists>recs s'. fetch c n s = (Inr recs, s') \<and> list_all2 same_event (take (nat n) (backlog s)) recs \<and>
        claimed s' recs (drop (nat n) (backlog s))"
    and sent_claimed: "claimed s (rec # recs) rest \<Longrightarrow>
      \<exists>s'. mark_sent c (rec_ID rec) s = (None, s') \<and> claimed s' recs rest"
    and claimed_done: "claimed s [] rest \<Longrightarrow> ready s \<and> backlog s = rest"
begin

lemma batch_delivered:
  assumes "rl_MarkSent r = mark_sent" and "claimed s recs rest" and "\<forall>rec \<in> set recs. accepts r ctx rec"
  shows "\<exists>s'. relay_process_all r ctx recs (s, w) = (Ret (), (s', fold (publish_rec r ctx) recs w)) \<and>
    ready s' \<and> backlog s' = rest"
  using assms(2,3)
proof (induction recs arbitrary: s w)
  case Nil
  then show ?case using claimed_done by simp
next
  case (Cons rec recs)
  obtain s1 where s1: "mark_sent ctx (rec_ID rec) s = (None, s1)" "claimed s1 recs rest"
    using sent_claimed [OF Cons.prems(1)] by blast
  have "relay_process r ctx rec (s, w) = (Ret (), (s1, publish_rec r ctx rec w))"
    by (rule process_accepted) (use s1(1) Cons.prems(2) assms(1) in simp_all)
  then show ?case using Cons.IH [OF s1(2)] Cons.prems(2) by simp
qed

lemma fold_publish_same:
  "list_all2 same_event as bs \<Longrightarrow> fold (publish_rec r ctx) bs w = fold (publish_rec r ctx) as w"
  by (induction as bs arbitrary: w rule: list_all2_induct) (simp_all add: same_event_delivery(2) [symmetric])

lemma accepts_same:
  "list_all2 same_event as bs \<Longrightarrow> \<forall>rec \<in> set as. accepts r ctx rec \<Longrightarrow> \<forall>rec \<in> set bs. accepts r ctx rec"
  by (induction as bs rule: list_all2_induct) (auto simp: same_event_delivery(1))

lemma drain_delivers:
  assumes "rl_Fetch r = fetch" and "rl_MarkSent r = mark_sent" and "ready s" and "0 < rl_batchSize r"
    and "\<forall>rec \<in> set (backlog s). accepts r ctx rec"
  shows "\<exists>s'. drainOnce r ctx (s, w) =
      (Ret None, (s', fold (publish_rec r ctx) (take (nat (rl_batchSize r)) (backlog s)) w)) \<and>
    ready s' \<and> backlog s' = drop (nat (rl_batchSize r)) (backlog s)"
proof -
  obtain recs s1 where f: "fetch ctx (rl_batchSize r) s = (Inr recs, s1)"
    and same: "list_all2 same_event (take (nat (rl_batchSize r)) (backlog s)) recs"
    and cl: "claimed s1 recs (drop (nat (rl_batchSize r)) (backlog s))"
    using fetch_ready [OF assms(3,4)] by blast
  have "\<forall>rec \<in> set recs. accepts r ctx rec"
    using accepts_same [OF same] assms(5) by (auto dest: in_set_takeD)
  from batch_delivered [OF assms(2) cl this, of w] show ?thesis
    using f assms(1) fold_publish_same [OF same] by (auto simp: drainOnce_def)
qed

text \<open>\<open>k\<close> ticks deliver \<open>k\<close> batches.\<close>

lemma loop_delivers:
  assumes "rl_Fetch r = fetch" and "rl_MarkSent r = mark_sent" and "ready s" and "0 < rl_batchSize r"
    and "\<forall>rec \<in> set (backlog s). accepts r ctx rec"
  shows "\<exists>s'. relay_loop r ctx (replicate k TickerFired) (s, w) =
      (Waiting, (s', fold (publish_rec r ctx) (take (k * nat (rl_batchSize r)) (backlog s)) w)) \<and>
    ready s' \<and> backlog s' = drop (k * nat (rl_batchSize r)) (backlog s)"
  using assms(3,5)
proof (induction k arbitrary: s w)
  case 0
  then show ?case by simp
next
  case (Suc k)
  let ?n = "nat (rl_batchSize r)"
  obtain s1 where d: "drainOnce r ctx (s, w) = (Ret None, (s1, fold (publish_rec r ctx) (take ?n (backlog s)) w))"
    and s1: "ready s1" "backlog s1 = drop ?n (backlog s)"
    using drain_delivers [OF assms(1,2) Suc.prems(1) assms(4) Suc.prems(2)] by blast
  have "\<forall>rec \<in> set (backlog s1). accepts r ctx rec" using Suc.prems(2) s1(2) by (auto dest: in_set_dropD)
  from Suc.IH [OF s1(1) this] show ?case by (simp add: d s1(2) take_add add.commute)
qed

end

end
