(* ===== verification/Store_Delivery.thy ===== *)
theory Store_Delivery
  imports Relay_Delivery Outbox_Relay Pgx_Outbox_Props
begin

text \<open>
  Both stores meet the contract \<open>delivering_store\<close>: a working store with a publisher that accepts is
  emptied, in order. For the in-process store a claim is nothing; the Postgres store claims the
  rows it fetches with a token each and deletes them under that token.
\<close>

section \<open>Lists in key order\<close>

lemma drop_filter_keys:
  assumes "distinct (map k xs)"
  shows "filter (\<lambda>x. k x \<notin> k ` set (take n xs)) xs = drop n xs"
proof -
  have d: "distinct (map k (take n xs @ drop n xs))" using assms by simp
  have "filter (\<lambda>x. k x \<notin> k ` set (take n xs)) (take n xs @ drop n xs) = drop n xs"
    using d unfolding filter_append map_append distinct_append
    by (subst filter_False, blast, subst filter_True) auto
  then show ?thesis by simp
qed

lemma sorted_take_sort_key: "sorted (map f (take n (sort_key f xs)))"
  by (simp add: take_map [symmetric] sorted_wrt_take)

lemma filter_notin: "i \<notin> k ` set xs \<Longrightarrow> filter (\<lambda>x. k x \<noteq> i) xs = xs"
  by (induction xs) auto

lemma remove_first_distinct:
  "distinct (map k xs) \<Longrightarrow> remove_first (\<lambda>x. k x = i) xs = filter (\<lambda>x. k x \<noteq> i) xs"
  by (induction xs) (auto simp: filter_notin)

lemma filter_head: "distinct (map k (x # xs)) \<Longrightarrow> filter (\<lambda>y. k y \<noteq> k x) (x # xs) = xs"
  by (simp add: filter_notin)

section \<open>The in-process store\<close>

definition mem_ready :: "(string \<rightharpoonup> dead_letter) \<Rightarrow> 'b memory \<Rightarrow> bool" where
  "mem_ready D m \<longleftrightarrow> mem_uniq m \<and> mem_dlq m = D \<and>
     (\<forall>k \<ge> mem_ticks m. \<forall>r \<in> set (mem_records m). rec_AvailableAt r \<le> mem_now m k)"

definition mem_backlog :: "'b memory \<Rightarrow> orec list" where
  "mem_backlog m = sort_key due_key (mem_records m)"

interpretation mem_delivery: delivering_store mem_Fetch mem_MarkSent "mem_ready D" mem_backlog
  "\<lambda>m recs rest. mem_ready D m \<and> mem_backlog m = recs @ rest" for D
proof (unfold_locales, goal_cases)
  case (1 m n c)
  have "mem_due (mem_now m (mem_ticks m)) (mem_records m) = mem_records m"
    using 1(1) by (simp add: mem_due_def mem_ready_def filter_id_conv not_less)
  then have f: "mem_Fetch c n m = (Inr (take (nat n) (mem_backlog m)), m\<lparr>mem_ticks := Suc (mem_ticks m)\<rparr>)"
    using 1(2) by (simp add: mem_Fetch_eq mem_backlog_def)
  have "mem_ready D (m\<lparr>mem_ticks := Suc (mem_ticks m)\<rparr>)" using 1(1) by (simp add: mem_ready_def mem_uniq_def)
  with f show ?case by (simp add: mem_backlog_def list_all2_refl same_event_def)
next
  case (2 m rec recs rest c)
  let ?m = "m\<lparr>mem_records := filter (\<lambda>r. rec_ID r \<noteq> rec_ID rec) (mem_records m)\<rparr>"
  have uniq: "distinct (map rec_ID (mem_records m))" using 2 by (simp add: mem_ready_def mem_uniq_def)
  have "mem_MarkSent c (rec_ID rec) m = (None, ?m)"
    by (simp add: mem_MarkSent_def remove_first_distinct [OF uniq])
  moreover have "mem_backlog ?m = filter (\<lambda>r. rec_ID r \<noteq> rec_ID rec) (rec # recs @ rest)"
    using 2 by (simp add: mem_backlog_def flip: filter_sort)
  moreover have "distinct (map rec_ID (rec # recs @ rest))"
    using 2 distinct_map_sort_key [OF uniq, of due_key] by (simp add: mem_backlog_def)
  moreover have "mem_ready D ?m" using 2 by (simp add: mem_ready_def mem_uniq_def distinct_map_filter)
  ultimately show ?case using filter_head [of rec_ID rec "recs @ rest"] by simp
qed auto

section \<open>The Postgres store\<close>

text \<open>
  The server works: no statement fails and no other session holds a row. A row is \<open>idle\<close> when it is
  due at every later reading of the clock, not under a live claim, and readable.
\<close>

definition pg_works :: "pg_env \<Rightarrow> pgdb \<Rightarrow> bool" where
  "pg_works env db \<longleftrightarrow> pg_inv env db \<and> (\<forall>n \<ge> db_stmts db. pe_fault env n = NoFault \<and> pe_locked env n = [] \<and> (\<forall>r. pe_scanFault env n r = None))"

definition pg_idle :: "pg_env \<Rightarrow> pgdb \<Rightarrow> pg_row \<Rightarrow> bool" where
  "pg_idle env db r \<longleftrightarrow> (\<exists>h. pg_headers env r = Inr h) \<and>
     (\<forall>k \<ge> db_ticks db. pr_available_at r \<le> pe_clock env k \<and>
        (case pr_claimed_until r of None \<Rightarrow> True | Some t \<Rightarrow> t \<le> pe_clock env k))"

definition pg_ready :: "pg_env \<Rightarrow> pg_dead list \<Rightarrow> pgdb \<Rightarrow> bool" where
  "pg_ready env D db \<longleftrightarrow> pg_works env db \<and> db_dead db = D \<and> (\<forall>r \<in> set (db_rows db). pg_idle env db r)"

definition pg_backlog :: "pg_env \<Rightarrow> pgdb \<Rightarrow> orec list" where
  "pg_backlog env db = map (pg_view env) (sort_key pg_order (db_rows db))"

text \<open>The rows outside a batch.\<close>

definition pg_others :: "pg_row list \<Rightarrow> pgdb \<Rightarrow> pg_row list" where
  "pg_others cl db = filter (\<lambda>r. pr_id r \<notin> pr_id ` set cl) (db_rows db)"

definition pg_batch :: "pg_env \<Rightarrow> pg_dead list \<Rightarrow> pgdb \<Rightarrow> pg_row list \<Rightarrow> bool" where
  "pg_batch env D db cl \<longleftrightarrow> pg_works env db \<and> db_dead db = D \<and> set cl \<subseteq> set (db_rows db) \<and>
     distinct (map pr_id cl) \<and> (\<forall>u \<in> set cl. \<exists>k. pr_claim_token u = Some (pe_uuid env k)) \<and>
     (\<forall>r \<in> set (pg_others cl db). pg_idle env db r)"

definition pg_claimed_batch :: "pg_env \<Rightarrow> pg_dead list \<Rightarrow> pgdb \<Rightarrow> orec list \<Rightarrow> orec list \<Rightarrow> bool" where
  "pg_claimed_batch env D db recs rest \<longleftrightarrow>
     (\<exists>cl. pg_batch env D db cl \<and> recs = map (pg_view env) cl \<and>
        rest = map (pg_view env) (sort_key pg_order (pg_others cl db)))"

lemma map_result_all: "(\<And>x. x \<in> set xs \<Longrightarrow> f x = Inr (g x)) \<Longrightarrow> map_result f xs = Inr (map g xs)"
  by (induction xs) auto

lemma pg_due_idle:
  assumes "\<forall>r \<in> set (db_rows db). pg_idle env db r" and "pe_locked env n = []"
  shows "pg_due (pg_now env db) (pe_locked env n) limit (db_rows db) = take (nat limit) (sort_key pg_order (db_rows db))"
proof -
  have "filter (\<lambda>r. pr_available_at r \<le> pg_now env db \<and>
       (case pr_claimed_until r of None \<Rightarrow> True | Some t \<Rightarrow> t \<le> pg_now env db) \<and> pr_id r \<notin> set (pe_locked env n)) (db_rows db)
     = db_rows db"
    using assms by (auto simp: filter_id_conv pg_idle_def pg_now_def split: option.splits)
  then show ?thesis by (simp add: pg_due_def)
qed

lemma pg_claim_same_event:
  "list_all2 same_event (map (pg_view env) due) (map (pg_view env) (pg_claim env n until due))"
  unfolding pg_claim_def by (auto simp: list_all2_conv_all_nth intro: pg_view_same_event)

lemma pg_claim_scans:
  assumes "u \<in> set (pg_claim env n until due)" and "\<forall>r \<in> set due. pg_idle env db r"
  shows "pg_scan env u = Inr (pg_view env u)"
proof -
  obtain r where "r \<in> set due" "claimed_as env n r u" using pg_claim_elem [OF assms(1)] by blast
  then have "pg_headers env u = pg_headers env r" "pg_idle env db r"
    using assms(2) by (auto simp: claimed_as_def pg_headers_def split: sum.split)
  then show ?thesis by (auto simp: pg_idle_def pg_scan_def pg_view_def)
qed

text \<open>MarkSent of the head of a batch deletes its row and no other.\<close>

lemma pg_batch_sent:
  assumes "pg_batch env D db (u # cl)"
  shows "\<exists>db'. pgx_MarkSent env c (rec_ID (pg_view env u)) db = (None, db') \<and> pg_batch env D db' cl \<and>
    pg_others cl db' = pg_others (u # cl) db"
proof -
  obtain k where tok: "pr_claim_token u = Some (pe_uuid env k)" using assms by (auto simp: pg_batch_def)
  have inv: "pg_inv env db" and u: "u \<in> set (db_rows db)" and nf: "pe_fault env (db_stmts db) = NoFault"
    using assms by (auto simp: pg_batch_def pg_works_def)
  have dist: "distinct (map pr_id (db_rows db))" using inv by (simp add: pg_inv_def)
  have find: "pg_find db (pr_id u) = Some u" using find_key_distinct [OF dist u] by (simp add: pg_find_def)
  have id: "parseID (rec_ID (pg_view env u)) = Inr (pr_id u, pe_uuid env k)"
    by (rule pg_view_key(1) [OF inv find tok])
  have cast: "uuid_cast (pe_uuid env k) = pe_uuid env k" using inv by (simp add: pg_inv_def uuid_canonical_def)
  have hit: "pg_hit (pr_id u) (pe_uuid env k) r \<longleftrightarrow> pr_id r = pr_id u" if "r \<in> set (db_rows db)" for r
    using that u tok cast dist by (auto simp: pg_hit_def distinct_map dest: inj_onD)
  define db' where "db' = db\<lparr>db_stmts := Suc (db_stmts db), db_rows := filter (\<lambda>r. pr_id r \<noteq> pr_id u) (db_rows db)\<rparr>"
  have "filter (\<lambda>r. \<not> pg_hit (pr_id u) (pe_uuid env k) r) (db_rows db) = filter (\<lambda>r. pr_id r \<noteq> pr_id u) (db_rows db)"
    using hit by (auto intro: filter_cong)
  then have sent: "pgx_MarkSent env c (rec_ID (pg_view env u)) db = (None, db')"
    by (simp add: pgx_MarkSent_def pgx_exec_def id pg_run_def nf markSentSQL_def db'_def)
  have others: "pg_others cl db' = pg_others (u # cl) db"
    by (auto simp: pg_others_def db'_def intro!: filter_cong)
  have "pg_inv env db'" by (rule pg_inv_subset [OF inv]) (use dist in \<open>auto simp: db'_def distinct_map_filter\<close>)
  then have "pg_batch env D db' cl"
    using assms others unfolding pg_batch_def pg_works_def pg_idle_def by (auto simp: db'_def image_iff)
  with sent others show ?thesis by blast
qed

text \<open>Outside the claimed rows the update of Fetch changes nothing.\<close>

lemma pg_filter_unclaimed:
  assumes "map pr_id cl = map pr_id due"
  shows "filter (\<lambda>r. pr_id r \<notin> pr_id ` set due) (map (\<lambda>r. case find (\<lambda>u. pr_id u = pr_id r) cl of Some u \<Rightarrow> u | None \<Rightarrow> r) rs)
    = filter (\<lambda>r. pr_id r \<notin> pr_id ` set due) rs"
proof -
  have ids: "pr_id ` set due = pr_id ` set cl" using assms by (metis set_map)
  show ?thesis unfolding ids
    by (induction rs) (auto split: option.split simp: find_key_None_iff dest: find_Some_in)
qed

text \<open>Fetch claims the head of the backlog.\<close>

lemma pg_fetch_batch:
  assumes "pg_ready env D db" and "0 < n"
  shows "\<exists>cl db'. pgx_Fetch env s c n db = (Inr (map (pg_view env) cl), db') \<and> pg_batch env D db' cl \<and>
    list_all2 same_event (map (pg_view env) (take (nat n) (sort_key pg_order (db_rows db)))) (map (pg_view env) cl) \<and>
    sort_key pg_order (pg_others cl db') = drop (nat n) (sort_key pg_order (db_rows db))"
proof -
  let ?db = "db\<lparr>db_stmts := Suc (db_stmts db)\<rparr>"
  let ?S = "sort_key pg_order (db_rows db)"
  have inv: "pg_inv env db" and works: "\<forall>n \<ge> db_stmts db. pe_fault env n = NoFault \<and> pe_locked env n = [] \<and> (\<forall>r. pe_scanFault env n r = None)"
    and idle: "\<forall>r \<in> set (db_rows db). pg_idle env db r" and dead: "db_dead db = D"
    using assms(1) by (auto simp: pg_ready_def pg_works_def)
  have dist: "distinct (map pr_id (db_rows db))" using inv by (simp add: pg_inv_def)
  define due where "due = take (nat n) ?S"
  define until where "until = pg_now env ?db + milliseconds (ps_claimLease s) * millisecond"
  define cl where "cl = pg_claim env (db_uuids db) until due"
  have due: "pg_due (pg_now env ?db) (pe_locked env (db_stmts ?db)) n (db_rows ?db) = due"
    using pg_due_idle [of ?db env "db_stmts ?db" n] idle works by (simp add: due_def pg_idle_def)
  have ids: "map pr_id cl = map pr_id due" unfolding cl_def by (rule pg_claim_ids)
  have "sorted (map pg_order cl)" unfolding cl_def pg_claim_order due_def by (rule sorted_take_sort_key)
  then have srt: "sort_key pg_order cl = cl" by (rule sort_key_id_if_sorted)
  obtain db' where f: "fetchSQL env n (milliseconds (ps_claimLease s)) ?db = (Inr cl, db')"
    and rows: "db_rows db' = map (\<lambda>r. case find (\<lambda>u. pr_id u = pr_id r) cl of Some u \<Rightarrow> u | None \<Rightarrow> r) (db_rows db)"
    and more: "db_dead db' = D" "db_stmts db' = Suc (db_stmts db)" "db_ticks db' = Suc (db_ticks db)"
    using due srt by (auto simp: fetchSQL_def Let_def pg_tick_def dead simp flip: until_def cl_def)
  have "pg_inv env ?db" using inv by simp
  from fetchSQL_effect [OF this f] have inv': "pg_inv env db'" and dcl: "distinct (map pr_id cl)"
    and hit: "\<And>u. u \<in> set cl \<Longrightarrow> pg_find db' (pr_id u) = Some u \<and> (\<exists>k. pr_claim_token u = Some (pe_uuid env k))"
    by (metis sum.inject(2))+
  have ok: "pg_scan_row env (db_stmts db) u = Inr (pg_view env u)" if "u \<in> set cl" for u
    using that idle works unfolding cl_def due_def pg_scan_row_def
    by (auto intro!: pg_claim_scans dest!: in_set_takeD)
  have fetch: "pgx_Fetch env s c n db = (Inr (map (pg_view env) cl), db')"
    using assms(2) works f map_result_all [OF ok] by (simp add: pgx_Fetch_def pg_run_def Let_def)
  have same: "list_all2 same_event (map (pg_view env) due) (map (pg_view env) cl)"
    unfolding cl_def by (rule pg_claim_same_event)
  have ids_set: "pr_id ` set cl = pr_id ` set due" using ids by (metis set_map)
  have others: "pg_others cl db' = filter (\<lambda>r. pr_id r \<notin> pr_id ` set due) (db_rows db)"
    unfolding pg_others_def rows ids_set by (rule pg_filter_unclaimed [OF ids])
  then have rest: "sort_key pg_order (pg_others cl db') = drop (nat n) ?S"
    using drop_filter_keys [OF distinct_map_sort_key [OF dist]] by (simp add: due_def flip: filter_sort)
  have "pg_batch env D db' cl"
    using inv' dcl hit works idle others more unfolding pg_batch_def pg_works_def pg_idle_def
    by (auto dest: pg_find_id)
  with fetch same rest show ?thesis unfolding due_def by blast
qed

interpretation pgx_delivery: delivering_store "pgx_Fetch env s" "pgx_MarkSent env" "pg_ready env D" "pg_backlog env"
  "pg_claimed_batch env D" for env s D
proof (unfold_locales, goal_cases)
  case (1 db n c)
  from pg_fetch_batch [OF this, of s c] show ?case
    unfolding pg_claimed_batch_def pg_backlog_def take_map drop_map by metis
next
  case (2 db rec recs rest c)
  then show ?case using pg_batch_sent by (fastforce simp: pg_claimed_batch_def)
next
  case (3 db rest)
  then show ?case by (auto simp: pg_claimed_batch_def pg_batch_def pg_ready_def pg_backlog_def pg_others_def)
qed

section \<open>The backlog is delivered\<close>

lemma pgx_Run_delivers:
  assumes "pg_ready env (db_dead db) db"
    and "relay_wired r (pgx_Fetch env s) (pgx_MarkSent env) (pgx_MarkFailed env) (pgx_Terminate env)"
    and "0 < rl_batchSize r" and "0 < rl_pollInterval r"
    and "\<forall>row \<in> set (db_rows db). accepts r ctx (pg_view env row)"
    and "length (db_rows db) \<le> k * nat (rl_batchSize r)"
  shows "\<exists>db'. relay_Run r ctx (replicate k TickerFired) False (db, w) =
      (Waiting, True, (db', fold (publish_rec r ctx) (pg_backlog env db) w)) \<and>
    db_rows db' = [] \<and> db_dead db' = db_dead db"
proof -
  have ops: "rl_Fetch r = pgx_Fetch env s" "rl_MarkSent r = pgx_MarkSent env"
    using assms(2) by (simp_all add: relay_wired_def)
  have "\<forall>rec \<in> set (pg_backlog env db). accepts r ctx rec" using assms(5) by (simp add: pg_backlog_def)
  from pgx_delivery.loop_delivers [OF ops assms(1,3) this, of k w] obtain db' where
    run: "relay_loop r ctx (replicate k TickerFired) (db, w) = (Waiting, (db', fold (publish_rec r ctx) (pg_backlog env db) w))"
    and db': "pg_ready env (db_dead db) db'" "pg_backlog env db' = []"
    using assms(6) by (auto simp: pg_backlog_def)
  have "db_rows db' = []" using db'(2) length_sort [of pg_order "db_rows db'"] by (simp add: pg_backlog_def)
  with run db'(1) assms(4) show ?thesis by (simp add: relay_Run_def pg_ready_def)
qed

text \<open>
  C4: A working relay empties the Postgres outbox, in order and once. Let no statement fail, no
  other session hold a row, every row be due and unclaimed, and the publisher accept every event.
  Then a Run makes, in as many ticks as batches are needed, exactly one publish per row, in the
  order of (available_at, id), and nothing else to the outside world; afterwards the table is
  empty, no dead letter was written, and Run is still polling.
\<close>

theorem pgx_backlog_delivered:
  assumes "pg_ready env (db_dead db) db"
    and "relay_wired r (pgx_Fetch env s) (pgx_MarkSent env) (pgx_MarkFailed env) (pgx_Terminate env)"
    and "0 < rl_batchSize r" and "0 < rl_pollInterval r"
    and "\<forall>row \<in> set (db_rows db). accepts r ctx (pg_view env row)"
    and "length (db_rows db) \<le> k * nat (rl_batchSize r)"
  shows "\<exists>db'. relay_Run r ctx (replicate k TickerFired) False (db, w) =
      (Waiting, True, (db', fold (\<lambda>row. publish_rec r ctx (pg_view env row)) (sort_key pg_order (db_rows db)) w)) \<and>
    db_rows db' = [] \<and> db_dead db' = db_dead db"
  using pgx_Run_delivers [OF assms, of w] by (simp add: pg_backlog_def fold_map comp_def)

text \<open>The example server with its one row.\<close>

theorem pgx_backlog_delivered_witness:
  "\<exists>db'. relay_Run example_pgx_relay background [TickerFired] False (example_db, []) =
      (Waiting, True, (db', [(''t'', example_event ''e1'')])) \<and> db_rows db' = []"
proof -
  let ?s = "\<lparr>ps_codec = example_codec, ps_claimLease = defaultClaimLease\<rparr>"
  have rd: "pg_ready example_env (db_dead example_db) example_db"
    using example_db_inv0
    by (auto simp: pg_ready_def pg_works_def pg_idle_def example_env_def example_db_def example_row_def pg_headers_def second_def)
  have wd: "relay_wired example_pgx_relay (pgx_Fetch example_env ?s) (pgx_MarkSent example_env)
      (pgx_MarkFailed example_env) (pgx_Terminate example_env)"
    by (simp add: relay_wired_def example_pgx_relay_def)
  have dec: "cd_Unmarshal (rl_codec example_pgx_relay) background (relay_message (pg_view example_env example_row)) =
      Ret (Inr (example_event ''e1'', ''order.placed''))"
    by (simp add: example_pgx_relay_def example_codec_def relay_message_def pg_view_def pg_record_def example_row_def)
  have acc: "accepts example_pgx_relay background (pg_view example_env example_row)"
    using dec by (simp add: accepts_def) (simp add: pub_context_def example_pgx_relay_def)
  have pub: "publish_rec example_pgx_relay background (pg_view example_env example_row) [] = [(''t'', example_event ''e1'')]"
    using dec by (simp add: publish_rec_def)
      (simp add: pub_context_def example_pgx_relay_def pg_view_def pg_record_def example_row_def)
  have "0 < rl_batchSize example_pgx_relay" "0 < rl_pollInterval example_pgx_relay"
    "length (db_rows example_db) \<le> 1 * nat (rl_batchSize example_pgx_relay)"
    by (simp_all add: example_pgx_relay_def example_db_def second_def)
  from pgx_backlog_delivered [OF rd wd this(1,2) _ this(3), of background "[]"] acc pub show ?thesis
    by (auto simp: example_db_def)
qed

end
