(* ===== verification/Orders_Flow.thy ===== *)
theory Orders_Flow
  imports Orders_Main Relay_Fleet Store_Delivery
begin

text \<open>
  How the binaries of the example service work together: what the relay binary's publisher puts on
  the broker, the record of a placed order on its way through the outbox, and repeated
  delivery of the same event to the worker. The end-to-end properties of the root theory rest on
  these lemmas.
\<close>

section \<open>The broker\<close>

text \<open>
  \<open>B\<close> observes the messages on the broker: a batch whose send returned nil is there, and neither a
  send nor the logger, the clock or the random source of the relay takes a message away.
\<close>

definition keeps_broker ::
  "('w \<Rightarrow> (string \<times> wm_msg) set) \<Rightarrow> ('w, 'b) kafka_publisher \<Rightarrow> ('s, 'w, 'b) relay \<Rightarrow> bool" where
  "keeps_broker B pub r \<longleftrightarrow>
     (\<forall>t msgs w. B w \<subseteq> B (snd (kp_pub pub t msgs w)) \<and>
        (fst (kp_pub pub t msgs w) = None \<longrightarrow> (\<forall>m \<in> set msgs. (t, m) \<in> B (snd (kp_pub pub t msgs w))))) \<and>
     (\<forall>m f w. B w \<subseteq> B (rl_log r m f w)) \<and> (\<forall>w. B w \<subseteq> B (snd (rl_now r w))) \<and>
     (\<forall>n w. B w \<subseteq> B (snd (rl_backoff r n w)))"

text \<open>The events that are on the broker as messages the JSON codec made of them.\<close>

definition on_broker ::
  "('f, 'b) codec_lib \<Rightarrow> ('w \<Rightarrow> (string \<times> wm_msg) set) \<Rightarrow> 'w \<Rightarrow> (string \<times> 'b devent) set" where
  "on_broker CL B w = {(t, ev). \<exists>c msg. (t, msg) \<in> B w \<and> codec_Marshal CL c ev = Inr msg}"

lemma on_broker_mono: "B w \<subseteq> B w' \<Longrightarrow> on_broker CL B w \<subseteq> on_broker CL B w'"
  by (auto simp: on_broker_def)

lemma publish_on_broker:
  assumes "keeps_broker B pub r" and "kp_codec pub = json_codec CL reg" and "kafka_Publish pub c t evs w = (e, w')"
  shows "B w \<subseteq> B w' \<and> (e = None \<longrightarrow> (\<forall>ev \<in> set evs. (t, ev) \<in> on_broker CL B w'))"
proof (cases "evs = []")
  case True
  then show ?thesis using assms(3) by (simp add: kafka_Publish_def)
next
  case False
  show ?thesis
  proof (cases "map_result (kafka_encode (kp_codec pub) c) evs")
    case (Inl err)
    then show ?thesis using assms(3) False by (auto simp: kafka_Publish_def)
  next
    case (Inr msgs)
    obtain e1 w1 where k: "kp_pub pub t msgs w = (e1, w1)" by (metis surj_pair)
    have w1: "w' = w1" "e = None \<longrightarrow> e1 = None"
      using assms(3) False Inr k by (auto simp: kafka_Publish_def split: option.splits)
    have b: "B w \<subseteq> B (snd (kp_pub pub t msgs w)) \<and>
        (fst (kp_pub pub t msgs w) = None \<longrightarrow> (\<forall>m \<in> set msgs. (t, m) \<in> B (snd (kp_pub pub t msgs w))))"
      using assms(1) unfolding keeps_broker_def by blast
    have kb: "B w \<subseteq> B w1" "e1 = None \<Longrightarrow> m \<in> set msgs \<Longrightarrow> (t, m) \<in> B w1" for m
      using b by (auto simp: k)
    have "(t, ev) \<in> on_broker CL B w1" if ev: "ev \<in> set evs" and e1: "e1 = None" for ev
    proof -
      obtain j where j: "j < length evs" "ev = evs ! j" using ev by (auto simp: in_set_conv_nth)
      have "codec_Marshal CL c ev = Inr (msgs ! j)"
        using map_result_Inr_nth [OF Inr j(1)] assms(2) j(2)
        by (auto simp: kafka_encode_def json_codec_def split: sum.splits)
      moreover have "msgs ! j \<in> set msgs" using map_result_Inr_length [OF Inr] j(1) by simp
      ultimately show ?thesis using kb(2) [OF e1] by (auto simp: on_broker_def)
    qed
    then show ?thesis using w1 kb(1) by simp
  qed
qed

lemma keeps_broker_observes:
  assumes "keeps_broker B pub r" and "kp_codec pub = json_codec CL reg" and "rl_Publish r = publish_port pub"
  shows "observes (on_broker CL B) r"
proof -
  have "on_broker CL B w \<subseteq> on_broker CL B (snd (rl_Publish r c t evs w)) \<and>
      (fst (rl_Publish r c t evs w) = Ret None \<longrightarrow> (\<forall>ev \<in> set evs. (t, ev) \<in> on_broker CL B (snd (rl_Publish r c t evs w))))"
    for c t evs w
  proof -
    obtain e w' where p: "kafka_Publish pub c t evs w = (e, w')" by (metis surj_pair)
    from publish_on_broker [OF assms(1,2) p] show ?thesis
      using on_broker_mono [of B w w' CL] by (simp add: assms(3) publish_port_def p)
  qed
  moreover have "on_broker CL B w \<subseteq> on_broker CL B (rl_log r m f w)"
    "on_broker CL B w \<subseteq> on_broker CL B (snd (rl_now r w))"
    "on_broker CL B w \<subseteq> on_broker CL B (snd (rl_backoff r n w))" for m f n w
    by (rule on_broker_mono, use assms(1) in \<open>simp add: keeps_broker_def\<close>)+
  ultimately show ?thesis unfolding observes_def by blast
qed

section \<open>The record of a placed order\<close>

lemma Place_event:
  assumes "order_Place K items newID (order_New K i customerID) = (None, o')"
  obtains v where "or_events o' = [NewOrderPlaced K newID i v customerID (or_totalCents o')]"
  using assms by (auto simp: order_Place_def order_New_def Let_def split: if_splits option.splits)

text \<open>A message with the headers and payload of a marshalled event decodes to that event.\<close>

lemma eventcodec_decodes:
  assumes "lib_ok CL" and "codec_Marshal CL c ev = Inr msg" and "ev_EventName ev = EventNamePlaced"
    and "\<forall>b. json_Marshal CL ev = Inr b \<longrightarrow> json_Unmarshal CL b NewPlaced = Inr ev"
    and "msg_Metadata m = msg_Metadata msg" and "msg_Payload m = msg_Payload msg"
  shows "codec_Unmarshal CL eventcodec_New c' m = Ret (Inr (ev, EventNamePlaced))"
  using Marshal_headers(2,4) [OF assms(1,2)] assms(3-6)
  by (auto simp: codec_Unmarshal_def eventcodec_New_def codec_Register_def meta_get_def map_get_def
      EventNamePlaced_def EventNameShipped_def)

lemma find_key_last: "k x \<notin> k ` set xs \<Longrightarrow> find (\<lambda>q. k q = k x) (xs @ [x]) = Some x"
  by (induction xs) auto

lemma pg_scan_view: "pg_scan env r = Inr rec \<Longrightarrow> pg_view env r = rec"
  by (auto simp: pg_scan_def pg_view_def split: sum.splits)

text \<open>The row that the committed unit of work left for the event, as the relay's store sees it.\<close>

lemma persisted_row:
  assumes "persisted L env cd ctx topic o' d d'" and "or_events o' = [ev]" and "distinct (map pr_id (db_rows d'))"
  obtains k rec msg c where "pg_rows env (pgdb.truncate d') (Some k) = Some rec" and "cd_Marshal cd c ev = Inr msg"
    and "rec_EventID rec = ev_EventID ev" "rec_Topic rec = topic"
    and "rec_Payload rec = msg_Payload msg" "rec_Headers rec = msg_Metadata msg"
proof -
  obtain new tx where new: "db_rows d' = db_rows d @ new" "staged_as env cd (WithTx ctx tx) topic [ev] new"
    using assms(1,2) by (auto simp: persisted_def)
  then have "length new = 1" by (simp add: staged_as_def)
  then obtain row where row: "new = [row]" by (auto simp: length_Suc_conv)
  note rows = new(1) [unfolded row] and st = new(2) [unfolded row]
  obtain rec msg where r: "cd_Marshal cd (WithTx ctx tx) ev = Inr msg" "pg_scan env row = Inr rec"
    "rec_EventID rec = ev_EventID ev" "rec_Topic rec = topic" "rec_Payload rec = msg_Payload msg"
    "rec_Headers rec = msg_Metadata msg"
    using st by (auto simp: staged_as_def)
  have "find (\<lambda>q. pr_id q = pr_id row) (db_rows d') = Some row"
    using assms(3) find_key_last [of pr_id row "db_rows d"] by (simp add: rows)
  then have "pg_rows env (pgdb.truncate d') (Some (pr_id row)) = Some rec"
    using pg_scan_view [OF r(2)] by (simp add: pg_rows_def pg_find_def pgdb.truncate_def)
  then show ?thesis using that r by blast
qed

text \<open>The row that one staged event becomes.\<close>

lemma staged_row:
  assumes "pgx_stage_one env cd c ev = Inr p" and "headers_survive env cd"
  shows "staged_as env cd c topic [ev] [pg_new_row env topic n tick p]"
proof -
  obtain msg where m: "cd_Marshal cd c ev = Inr msg" using assms(1) by (elim pgx_stage_one_Inr)
  then have "json_survives env (msg_Metadata msg)" using assms(2) by (auto simp: headers_survive_def)
  from pg_scan_new_row [OF assms(1) m this] show ?thesis using m by (simp add: staged_as_def)
qed

text \<open>The order of an answer 201 has its event in a row of the outbox.\<close>

lemma created_row:
  assumes "tx_laws (tm_pool m)" and "headers_survive env (ps_codec s)" and "ps_codec s = json_codec CL eventcodec_New"
    and "api_post_orders K errText (place_Handle K (pgx_deps K L env s m topicPlaced) newID) fresh rctx
            (Inr (oid, customerID, items)) w = (Created i tot, logs, w')"
    and "distinct (map pr_id (db_rows (pw_db w')))"
  obtains ver k row msg c where "pg_find (pgdb.truncate (pw_db w')) k = Some row"
    and "codec_Marshal CL c (NewOrderPlaced K newID i ver customerID tot) = Inr msg"
    and "rec_EventID (pg_view env row) = newID" "rec_Topic (pg_view env row) = topicPlaced"
    and "rec_Payload (pg_view env row) = msg_Payload msg" "rec_Headers (pg_view env row) = msg_Metadata msg"
proof -
  obtain o' where o': "order_Place K items newID (order_New K i customerID) = (None, o')" "tot = or_totalCents o'"
    "persisted L env (ps_codec s) (WithCorrelationID rctx i) topicPlaced o' (pw_db w) (pw_db w')"
    using api_created_persisted [OF assms(1,2,4)] by blast
  obtain ver where ev: "or_events o' = [NewOrderPlaced K newID i ver customerID tot]"
    using Place_event [OF o'(1)] o'(2) by metis
  have id: "ev_EventID (NewOrderPlaced K newID i ver customerID tot) = newID" by (simp add: NewOrderPlaced_def)
  show ?thesis
  proof (rule persisted_row [OF o'(3) ev assms(5)], goal_cases)
    case (1 k rec msg c)
    then show ?case using that [of k _ c ver msg] id by (auto simp: pg_rows_def assms(3) json_codec_def)
  qed
qed

text \<open>A record of a marshalled event that reached the publisher is a message of that event on the broker.\<close>

lemma delivered_message:
  assumes "lib_ok CL" and "codec_Marshal CL c ev = Inr msg" and "ev_EventName ev = EventNamePlaced"
    and "\<forall>b. json_Marshal CL ev = Inr b \<longrightarrow> json_Unmarshal CL b NewPlaced = Inr ev"
    and "rec_Payload rec = msg_Payload msg" and "rec_Headers rec = msg_Metadata msg"
    and "rl_codec r = json_codec CL eventcodec_New" and "delivered (on_broker CL B) r ctx rec v"
  shows "\<exists>m. (rec_Topic rec, m) \<in> B v \<and> msg_UUID m = ev_EventID ev \<and>
    (\<forall>c. codec_Unmarshal CL eventcodec_New c m = Ret (Inr (ev, EventNamePlaced)))"
proof -
  note dec = eventcodec_decodes [OF assms(1) _ assms(3,4)]
  have "codec_Unmarshal CL eventcodec_New ctx (relay_message rec) = Ret (Inr (ev, EventNamePlaced))"
    by (rule dec [OF assms(2)]) (simp_all add: relay_message_def assms(5,6))
  then obtain c2 m where m: "(rec_Topic rec, m) \<in> B v" "codec_Marshal CL c2 ev = Inr m"
    using assms(7,8) by (auto simp: delivered_def on_broker_def json_codec_def)
  then show ?thesis using dec [OF m(2)] Marshal_headers(1) [OF assms(1) m(2)] by blast
qed

text \<open>The relay binary as it is wired, for the modules it registered.\<close>

lemma relay_wire_wired:
  assumes "relay_wire CL wmp env rnd now txt log prov brokers = Inr [OTelM prov, PublisherM pub, RelayM r]"
    and "keeps_broker B pub r"
  obtains store :: "order_body pgx_store" where
    "relay_wired r (pgx_Fetch env store) (pgx_MarkSent env) (pgx_MarkFailed env) (pgx_Terminate env)"
    and "rl_codec r = json_codec CL eventcodec_New" "observes (on_broker CL B) r"
    and "rl_batchSize r = 100" "rl_pollInterval r = second"
  using assms
  by (elim relay_wire_relay) (auto intro!: keeps_broker_observes)

text \<open>The reader shows an OrderPlaced it has received.\<close>

lemma reader_sees:
  assumes "\<And>c. codec_Unmarshal CL eventcodec_New c msg = Ret (Inr (NewOrderPlaced K newID i ver customerID tot, EventNamePlaced))"
  shows "\<forall>c cancelled t. sl_pump t = PumpReady \<longrightarrow>
    (\<exists>e. pump_step (json_codec CL eventcodec_New) c cancelled t
           (t\<lparr>sl_received := sl_received t @ [msg], sl_pump := PumpHolding e\<rparr>) \<and>
         (\<forall>vs. (\<forall>old. vs i = Some old \<longrightarrow> vw_Status old \<noteq> StatusShipped) \<longrightarrow>
            fst (reader_get_order K T i (snd (snd (reader_apply e vs)))) =
            Shown \<lparr>vw_OrderID = i, vw_CustomerID = customerID, vw_Status = StatusPlaced, vw_TotalCents = tot,
                   vw_Carrier = [], vw_Version = ver\<rparr>))"
proof (intro allI impI)
  fix c cancelled and t :: "order_body slot"
  let ?e = "\<lparr>env_Event = NewOrderPlaced K newID i ver customerID tot, env_Name = EventNamePlaced, env_Raw = msg\<rparr>"
  assume "sl_pump t = PumpReady"
  then have "pump_step (json_codec CL eventcodec_New) c cancelled t
      (t\<lparr>sl_received := sl_received t @ [msg], sl_pump := PumpHolding ?e\<rparr>)"
    by (rule pump_decoded) (simp add: json_codec_def assms)
  then show "\<exists>e. pump_step (json_codec CL eventcodec_New) c cancelled t
           (t\<lparr>sl_received := sl_received t @ [msg], sl_pump := PumpHolding e\<rparr>) \<and>
         (\<forall>vs. (\<forall>old. vs i = Some old \<longrightarrow> vw_Status old \<noteq> StatusShipped) \<longrightarrow>
            fst (reader_get_order K T i (snd (snd (reader_apply e vs)))) =
            Shown \<lparr>vw_OrderID = i, vw_CustomerID = customerID, vw_Status = StatusPlaced, vw_TotalCents = tot,
                   vw_Carrier = [], vw_Version = ver\<rparr>)"
    by (intro exI [of _ ?e])
       (simp add: reader_apply_def reader_get_order_def GetOrder_Handle_def view_Find_def applyPlaced_def NewOrderPlaced_def)
qed

section \<open>Repeated delivery\<close>

lemma TxFromContext_ids [simp]:
  "TxFromContext (WithCausationID ctx v) = TxFromContext ctx"
  "TxFromContext (WithTraceID ctx v) = TxFromContext ctx"
  "TxFromContext (WithCorrelationID ctx v) = TxFromContext ctx"
  "TxFromContext (RestoreCoreHeaders CL ctx h) = TxFromContext ctx"
  by (simp_all add: TxFromContext_def WithCausationID_def WithTraceID_def WithCorrelationID_def RestoreCoreHeaders_def Let_def)

text \<open>The worker's handler is the ship command in the restored context.\<close>

lemma worker_handle_ship:
  assumes "worker_handle K L CL env rule s m newID ctx e w = (r, lines, w')" and "ev_Body (env_Event e) = PlacedBody c t"
  obtains ctx2 res where "TxFromContext ctx2 = TxFromContext ctx"
    and "ship_Handle K (pgx_deps K L env s m topicShipped) newID ctx2 (ev_AggregateID (env_Event e)) DefaultCarrier w = (res, w')"
    and "r = Ret None \<longleftrightarrow> (\<exists>i. res = Ret (Inr i))"
proof -
  let ?c = "WithCausationID (RestoreCoreHeaders CL ctx (msg_Metadata (env_Raw e))) (ev_EventID (env_Event e))"
  obtain res w2 where sh: "ship_Handle K (pgx_deps K L env s m topicShipped) newID ?c (ev_AggregateID (env_Event e))
      DefaultCarrier w = (res, w2)" by (metis surj_pair)
  have "w' = w2" "r = Ret None \<longleftrightarrow> (\<exists>i. res = Ret (Inr i))"
    using assms sh
    by (auto simp: worker_handle_def HandleOrderPlaced_def ship_dispatch_def Let_def
        split: outcome.splits option.splits sum.splits order_err.splits)
  then show ?thesis using that [of ?c res] sh by simp
qed

lemma ships_shipped:
  "ships K L env cd ctx topic newID i carrier d d' \<Longrightarrow>
     (\<exists>row. sd_orders d i = Some row \<and> ow_status row = StatusPlaced) \<and>
     (\<exists>row. sd_orders d' i = Some row \<and> ow_status row = StatusShipped)"
  by (auto simp: ships_def persisted_def row_of_def)

end
