(* ===== verification/Pgx_Schema.thy ===== *)
theory Pgx_Schema
  imports Pgx_Outbox_Props
begin

text \<open>
  The shape of the tables of \<^verbatim>\<open>eventbus/outbox/pgx/migrations\<close>: the column types and the
  relations between columns that the statements of \<^verbatim>\<open>sql.go\<close> rely on and that the schema does not
  declare. They hold of every state that any workers and clients can reach.
\<close>

text \<open>
  A row of \<^verbatim>\<open>outbox_records\<close>: attempts is a non-negative INTEGER, the two claim columns are
  set together, a claim token is a UUID, and last_error is set once there has been an
  attempt. A row of \<^verbatim>\<open>outbox_dead_letters\<close> was claimed and counts the last attempt.
\<close>

definition pg_row_ok :: "pg_row \<Rightarrow> bool" where
  "pg_row_ok r \<longleftrightarrow> 0 \<le> pr_attempts r \<and> pr_attempts r \<le> int4_max \<and>
     (pr_claimed_until r = None \<longleftrightarrow> pr_claim_token r = None) \<and>
     (case pr_claim_token r of None \<Rightarrow> True | Some t \<Rightarrow> uuid_canonical t) \<and>
     (pr_last_error r = None \<longleftrightarrow> pr_attempts r = 0)"

definition pg_dead_ok :: "pg_dead \<Rightarrow> bool" where
  "pg_dead_ok d \<longleftrightarrow> pg_row_ok (pd_row d) \<and> pr_claim_token (pd_row d) \<noteq> None \<and>
     pd_attempts d = pr_attempts (pd_row d) + 1 \<and> pd_attempts d \<le> int4_max"

definition pg_ids :: "pgdb \<Rightarrow> int list" where
  "pg_ids db = map pr_id (db_rows db) @ map (pr_id \<circ> pd_row) (db_dead db)"

definition pg_tables_ok :: "pgdb \<Rightarrow> bool" where
  "pg_tables_ok db \<longleftrightarrow> list_all pg_row_ok (db_rows db) \<and> list_all pg_dead_ok (db_dead db) \<and>
     distinct (pg_ids db) \<and> list_all (\<lambda>n. 0 < n \<and> n < db_seq db) (pg_ids db) \<and> 0 < db_seq db"

definition pg_empty :: pgdb where
  "pg_empty = \<lparr>db_rows = [], db_dead = [], db_seq = 1, db_uuids = 0, db_ticks = 0, db_stmts = 0\<rparr>"

lemma pg_tables_ok_stmts [simp]: "pg_tables_ok (db\<lparr>db_stmts := a\<rparr>) = pg_tables_ok db"
  by (simp add: pg_tables_ok_def pg_ids_def)

text \<open>A statement that rewrites rows in place, and one that deletes rows.\<close>

lemma pg_tables_ok_map:
  assumes "pg_tables_ok db" and "db_rows db' = map g (db_rows db)" and "db_dead db' = db_dead db"
    and "db_seq db' = db_seq db" and "\<And>r. r \<in> set (db_rows db) \<Longrightarrow> pg_row_ok r \<Longrightarrow> pr_id (g r) = pr_id r \<and> pg_row_ok (g r)"
  shows "pg_tables_ok db'"
proof -
  have "map (pr_id \<circ> g) (db_rows db) = map pr_id (db_rows db)"
    using assms(1,5) by (auto simp: pg_tables_ok_def list_all_iff)
  then have "pg_ids db' = pg_ids db" by (simp add: pg_ids_def assms(2,3))
  then show ?thesis using assms by (auto simp: pg_tables_ok_def list_all_iff)
qed

lemma pg_tables_ok_delete:
  assumes "pg_tables_ok db" and "db_rows db' = filter P (db_rows db)" and "db_dead db' = db_dead db"
    and "db_seq db' = db_seq db"
  shows "pg_tables_ok db'"
  using assms by (auto simp: pg_tables_ok_def pg_ids_def list_all_iff distinct_map_filter)

lemma fetchSQL_tables_ok:
  assumes "pg_tables_ok db" and "fetchSQL env n ms db = (res, db')" and uuid: "\<And>k. uuid_canonical (pe_uuid env k)"
  shows "pg_tables_ok db'"
proof -
  define due where "due = pg_due (pg_now env db) (pe_locked env (db_stmts db)) n (db_rows db)"
  define upd where "upd = pg_claim env (db_uuids db) (pg_now env db + ms * millisecond) due"
  define g where "g r = (case find (\<lambda>u. pr_id u = pr_id r) upd of Some u \<Rightarrow> u | None \<Rightarrow> r)" for r
  have db': "db_rows db' = map g (db_rows db)" "db_dead db' = db_dead db" "db_seq db' = db_seq db"
    using assms(2) by (auto simp: fetchSQL_def Let_def due_def upd_def g_def [abs_def] pg_tick_def)
  have "pg_row_ok u" if u: "u \<in> set upd" for u
  proof -
    obtain k r where "r \<in> set due" and "u = r\<lparr>pr_claimed_until := Some (pg_now env db + ms * millisecond),
        pr_claim_token := Some (pe_uuid env k)\<rparr>"
      using u by (auto simp: upd_def pg_claim_def dest: set_zip_rightD)
    moreover from this have "pg_row_ok r"
      using assms(1) by (auto simp: due_def pg_tables_ok_def list_all_iff dest!: pg_due_elem)
    ultimately show ?thesis using uuid by (simp add: pg_row_ok_def)
  qed
  then have "pr_id (g r) = pr_id r \<and> pg_row_ok (g r)" if "pg_row_ok r" for r
    using that by (auto simp: g_def split: option.split dest: find_Some_in)
  then show ?thesis using pg_tables_ok_map [OF assms(1) db'] by blast
qed

lemma markFailedSQL_tables_ok:
  assumes "pg_tables_ok db" and "markFailedSQL env n at x t db = (res, db')"
  shows "pg_tables_ok db'"
proof (cases "list_ex (\<lambda>r. pg_hit n t r \<and> pr_attempts r \<ge> int4_max) (db_rows db)")
  case True
  then show ?thesis using assms by (simp add: markFailedSQL_def)
next
  case False
  let ?g = "\<lambda>r. if pg_hit n t r
          then r\<lparr>pr_attempts := pr_attempts r + 1, pr_available_at := pe_ts env at,
                 pr_last_error := Some x, pr_claimed_until := None, pr_claim_token := None\<rparr> else r"
  have db': "db' = db\<lparr>db_rows := map ?g (db_rows db)\<rparr>" using False assms(2) by (simp add: markFailedSQL_def)
  show ?thesis
    by (rule pg_tables_ok_map [OF assms(1), of db' ?g])
       (use False in \<open>auto simp: db' pg_row_ok_def list_ex_iff not_le\<close>)
qed

lemma terminateSQL_tables_ok:
  assumes "pg_tables_ok db" and "terminateSQL env n t x db = (res, db')"
  shows "pg_tables_ok db'"
proof -
  let ?del = "filter (pg_hit n t) (db_rows db)" and ?keep = "filter (\<lambda>r. \<not> pg_hit n t r) (db_rows db)"
  let ?dead = "map (\<lambda>r. \<lparr>pd_row = r, pd_attempts = pr_attempts r + 1, pd_reason = x, pd_failed_at = pg_now env db\<rparr>) ?del"
  show ?thesis
  proof (cases "list_ex (\<lambda>r. pr_attempts r \<ge> int4_max) ?del")
    case True
    then have "db' = pg_tick db" using assms(2) by (simp add: terminateSQL_def)
    then show ?thesis using assms(1) by (simp add: pg_tables_ok_def pg_ids_def pg_tick_def)
  next
    case False
    have db': "db_rows db' = ?keep" "db_dead db' = ?dead @ db_dead db" "db_seq db' = db_seq db"
      using assms(2) False by (auto simp: terminateSQL_def pg_tick_def)
    have ids: "pg_ids db' = map pr_id ?keep @ map pr_id ?del @ map (pr_id \<circ> pd_row) (db_dead db)"
      by (simp add: pg_ids_def db' comp_def)
    have dist: "distinct (map pr_id (db_rows db))" using assms(1) by (simp add: pg_tables_ok_def pg_ids_def)
    have "distinct (map pr_id ?keep @ map pr_id ?del)"
      using dist by (auto simp: distinct_map_filter distinct_map inj_on_def)
    then have "distinct (pg_ids db')" and "set (pg_ids db') \<subseteq> set (pg_ids db)"
      using assms(1) unfolding ids by (auto simp: pg_tables_ok_def pg_ids_def)
    moreover have "list_all pg_dead_ok ?dead"
      using assms(1) False
      by (auto simp: list_all_iff list_ex_iff pg_dead_ok_def pg_tables_ok_def pg_hit_def not_le)
    ultimately show ?thesis using assms(1) by (auto simp: pg_tables_ok_def db' list_all_iff)
  qed
qed

lemma pg_insert_tables_ok:
  assumes "pg_tables_ok db"
  shows "pg_tables_ok (pg_insert env topic ps db)"
  using assms
proof (induction ps arbitrary: db)
  case (Cons p ps)
  let ?r = "pg_new_row env topic (db_seq db) (db_ticks db) p"
  have row: "pg_row_ok ?r" "pr_id ?r = db_seq db" by (simp_all add: pg_new_row_def pg_row_ok_def int4_max_def)
  have "db_seq db \<notin> set (pg_ids db)" using Cons.prems by (auto simp: pg_tables_ok_def list_all_iff)
  moreover have "n < db_seq db + 1" if "n < db_seq db" for n using that by simp
  ultimately have "pg_tables_ok (db\<lparr>db_rows := db_rows db @ [?r], db_seq := db_seq db + 1, db_ticks := db_ticks db + 2\<rparr>)"
    using Cons.prems row by (auto simp: pg_tables_ok_def pg_ids_def list_all_iff ball_Un intro: less_imp_le)
  then show ?case using Cons.IH by simp
qed simp

lemma pgx_exec_tables_ok:
  assumes "pg_tables_ok db" and "pgx_exec env what stmt i db = (e, db')"
    and "\<And>n t d sr d'. pg_tables_ok d \<Longrightarrow> stmt n t d = (sr, d') \<Longrightarrow> pg_tables_ok d'"
  shows "pg_tables_ok db'"
  using assms(2) by (cases rule: pgx_exec_cases) (use assms(1,3) pg_tables_ok_stmts in blast)+

lemma pgx_step_tables_ok:
  assumes "pgx_step env cd db db'" and "pg_tables_ok db" and uuid: "\<And>k. uuid_canonical (pe_uuid env k)"
  shows "pg_tables_ok db'"
  using assms(1,2)
proof (induction rule: pgx_step.induct)
  case (pgx_fetch lease ctx limit db res db')
  have "pg_tables_ok (db\<lparr>db_stmts := Suc (db_stmts db)\<rparr>)" using pgx_fetch(2) by simp
  note sql = fetchSQL_tables_ok [OF this _ uuid]
  from pgx_fetch(1) show ?case
    by (cases rule: pgx_Fetch_cases) (use pgx_fetch(2) sql in auto)
next
  case (pgx_sent ctx rid db e db')
  from pgx_sent(1) [unfolded pgx_MarkSent_def] show ?case
    by (rule pgx_exec_tables_ok [OF pgx_sent(2)]) (auto simp: markSentSQL_def intro: pg_tables_ok_delete)
next
  case (pgx_failed ctx rid reason t db e db')
  from pgx_failed(1) [unfolded pgx_MarkFailed_def] show ?case
    by (rule pgx_exec_tables_ok [OF pgx_failed(2)]) (rule markFailedSQL_tables_ok)
next
  case (pgx_terminate ctx rid reason db e db')
  from pgx_terminate(1) [unfolded pgx_Terminate_def] show ?case
    by (rule pgx_exec_tables_ok [OF pgx_terminate(2)]) (rule terminateSQL_tables_ok)
next
  case (pgx_staged db topic pending)
  then show ?case by (rule pg_insert_tables_ok)
qed

text \<open>
  C17: The tables stay well formed. From the empty tables the migrations create, whatever any
  number of workers and clients do, including writes under arbitrary record ids and statements
  that fail, every row of outbox_records has an attempts count within INTEGER, its two
  claim columns set together or not at all, a UUID as its token, and a last error exactly when
  it has been tried; every dead letter carries a claimed row and one more attempt than that row had; and
  no identity value ever names two rows, two dead letters, or a row and a dead letter.
\<close>

theorem pgx_tables_well_formed:
  assumes "(pgx_step env cd)\<^sup>*\<^sup>* pg_empty db" and "\<forall>k. uuid_canonical (pe_uuid env k)"
  shows "pg_tables_ok db"
  using assms(1)
proof (induction rule: rtranclp_induct)
  case base
  show ?case by (simp add: pg_tables_ok_def pg_empty_def pg_ids_def)
next
  case (step y z)
  then show ?case using pgx_step_tables_ok assms(2) by blast
qed

text \<open>A row is staged, claimed and dead-lettered on the example server.\<close>

theorem pgx_tables_well_formed_witness:
  "let s = \<lparr>ps_codec = example_codec, ps_claimLease = defaultClaimLease\<rparr>;
       db1 = pg_insert example_env ''t'' [\<lparr>sg_eventID = ''e1'', sg_eventName = ''n'', sg_aggregateID = ''a'',
               sg_aggregateType = ''T'', sg_payload = ''x'', sg_headers = ''{}''\<rparr>] pg_empty;
       db2 = snd (pgx_Fetch example_env s background 10 db1);
       db3 = snd (pgx_Terminate example_env background (encodeID 1 (pe_uuid example_env 0)) ''gone'' db2)
   in pg_tables_ok db3"
proof -
  let ?s = "\<lparr>ps_codec = example_codec, ps_claimLease = defaultClaimLease\<rparr>"
  let ?db1 = "pg_insert example_env ''t'' [\<lparr>sg_eventID = ''e1'', sg_eventName = ''n'', sg_aggregateID = ''a'',
               sg_aggregateType = ''T'', sg_payload = ''x'', sg_headers = ''{}''\<rparr>] pg_empty"
  let ?db2 = "snd (pgx_Fetch example_env ?s background 10 ?db1)"
  let ?db3 = "snd (pgx_Terminate example_env background (encodeID 1 (pe_uuid example_env 0)) ''gone'' ?db2)"
  have "pgx_step example_env example_codec pg_empty ?db1" by (rule pgx_staged)
  moreover have "pgx_step example_env example_codec ?db1 ?db2" by (rule pgx_fetch [OF surjective_pairing])
  moreover have "pgx_step example_env example_codec ?db2 ?db3" by (rule pgx_terminate [OF surjective_pairing])
  ultimately have "(pgx_step example_env example_codec)\<^sup>*\<^sup>* pg_empty ?db3"
    by (meson r_into_rtranclp rtranclp.rtrancl_into_rtrancl)
  from pgx_tables_well_formed [OF this] show ?thesis
    by (simp add: example_env_def example_uuids_canonical Let_def)
qed

end
