(* ===== verification/Jobs.thy ===== *)
theory Jobs
  imports Backend
begin

text \<open>
  The job queue adapter \<^verbatim>\<open>jobs/asynq\<close>: options and validation (\<^verbatim>\<open>options.go\<close>), the Enqueuer
  (\<^verbatim>\<open>enqueuer.go\<close>) and the Worker (\<^verbatim>\<open>worker.go\<close>). The asynq client and server and the Redis client are
  parameters: the submission of a task, the result of a ping, of starting the server, and
  the moment the context is cancelled.
\<close>

section \<open>Configuration\<close>

record ('r, 'l) jobs_config =
  jc_queue :: string
  jc_schedulingHorizon :: duration
  jc_retention :: duration
  jc_maxRetry :: int
  jc_taskTimeout :: duration
  jc_concurrency :: int
  jc_shutdownTimeout :: duration
  jc_retryDelay :: "'r option"
  jc_logger :: "'l option"

definition DefaultSchedulingHorizon :: duration where "DefaultSchedulingHorizon = 30 * (24 * hour)"
definition DefaultRetention :: duration where "DefaultRetention = hour"
definition DefaultTaskTimeout :: duration where "DefaultTaskTimeout = 30 * minute"
definition RecoverWithin :: duration where "RecoverWithin = 3 * minute"
definition RedeliverWithin :: duration where "RedeliverWithin = 3 * minute"
definition defaultQueue :: string where "defaultQueue = ''default''"
definition defaultMaxRetry :: int where "defaultMaxRetry = 25"
definition defaultConcurrency :: int where "defaultConcurrency = 10"
definition defaultShutdownTimeout :: duration where "defaultShutdownTimeout = 8 * second"

lemmas jobs_default_defs = DefaultSchedulingHorizon_def DefaultRetention_def DefaultTaskTimeout_def
  defaultQueue_def defaultMaxRetry_def defaultConcurrency_def defaultShutdownTimeout_def

definition shutdownReturnMargin :: duration where "shutdownReturnMargin = 2 * second"

text \<open>\<open>asynqDelay\<close> is \<^verbatim>\<open>asynq.DefaultRetryDelayFunc\<close>.\<close>

definition jobs_defaultConfig :: "'r \<Rightarrow> ('r, 'l) jobs_config" where
  "jobs_defaultConfig asynqDelay = \<lparr>jc_queue = defaultQueue, jc_schedulingHorizon = DefaultSchedulingHorizon,
     jc_retention = DefaultRetention, jc_maxRetry = defaultMaxRetry, jc_taskTimeout = DefaultTaskTimeout,
     jc_concurrency = defaultConcurrency, jc_shutdownTimeout = defaultShutdownTimeout,
     jc_retryDelay = Some asynqDelay, jc_logger = None\<rparr>"

definition ErrNilRedisConnOpt :: goerr where
  "ErrNilRedisConnOpt = ErrxNew CodeInvalidArgument ''jobs/asynq: nil RedisConnOpt''"
definition ErrInvalidRedisConnOpt :: goerr where
  "ErrInvalidRedisConnOpt = ErrxNew CodeInvalidArgument
     ''jobs/asynq: RedisConnOpt.MakeRedisClient did not return a redis.UniversalClient''"
definition ErrEmptyQueue :: goerr where
  "ErrEmptyQueue = ErrxNew CodeInvalidArgument ''jobs/asynq: queue name is blank''"
definition ErrSchedulingHorizonNonPos :: goerr where
  "ErrSchedulingHorizonNonPos = ErrxNew CodeInvalidArgument ''jobs/asynq: scheduling horizon must be > 0''"
definition jobs_ErrRetentionTooSmall :: goerr where
  "jobs_ErrRetentionTooSmall = ErrxNew CodeInvalidArgument ''jobs/asynq: retention must be >= 1s (Asynq stores integer seconds)''"
definition ErrTaskTimeoutNonPos :: goerr where
  "ErrTaskTimeoutNonPos = ErrxNew CodeInvalidArgument ''jobs/asynq: task timeout must be > 0''"
definition ErrMaxRetryNegative :: goerr where
  "ErrMaxRetryNegative = ErrxNew CodeInvalidArgument ''jobs/asynq: max retry must be >= 0''"
definition ErrConcurrencyNonPos :: goerr where
  "ErrConcurrencyNonPos = ErrxNew CodeInvalidArgument ''jobs/asynq: concurrency must be > 0''"
definition ErrShutdownTimeoutNonPos :: goerr where
  "ErrShutdownTimeoutNonPos = ErrxNew CodeInvalidArgument ''jobs/asynq: shutdown timeout must be > 0''"
definition ErrNilRetryDelay :: goerr where
  "ErrNilRetryDelay = ErrxNew CodeInvalidArgument ''jobs/asynq: retry delay func must not be nil''"

datatype ('r, 'l) jobs_opt = WithQueue string | WithSchedulingHorizon duration | WithJobRetention duration
  | WithMaxRetry int | WithTaskTimeout duration | WithConcurrency int | WithShutdownTimeout duration
  | WithRetryDelay "'r option" | WithJobLogger "'l option"

fun jobs_apply :: "('r, 'l) jobs_opt \<Rightarrow> ('r, 'l) jobs_config \<Rightarrow> ('r, 'l) jobs_config" where
  "jobs_apply (WithQueue name) c = c\<lparr>jc_queue := name\<rparr>"
| "jobs_apply (WithSchedulingHorizon d) c = c\<lparr>jc_schedulingHorizon := d\<rparr>"
| "jobs_apply (WithJobRetention d) c = c\<lparr>jc_retention := d\<rparr>"
| "jobs_apply (WithMaxRetry n) c = c\<lparr>jc_maxRetry := n\<rparr>"
| "jobs_apply (WithTaskTimeout d) c = c\<lparr>jc_taskTimeout := d\<rparr>"
| "jobs_apply (WithConcurrency n) c = c\<lparr>jc_concurrency := n\<rparr>"
| "jobs_apply (WithShutdownTimeout d) c = c\<lparr>jc_shutdownTimeout := d\<rparr>"
| "jobs_apply (WithRetryDelay f) c = c\<lparr>jc_retryDelay := f\<rparr>"
| "jobs_apply (WithJobLogger l) c = c\<lparr>jc_logger := l\<rparr>"

definition validateCommon :: "('r, 'l) jobs_config \<Rightarrow> goerr option" where
  "validateCommon c = (if blank (jc_queue c) then Some ErrEmptyQueue else None)"

definition validateEnqueuer :: "('r, 'l) jobs_config \<Rightarrow> goerr option" where
  "validateEnqueuer c =
     (case validateCommon c of
        Some err \<Rightarrow> Some err
      | None \<Rightarrow>
          if jc_schedulingHorizon c \<le> 0 then Some ErrSchedulingHorizonNonPos
          else if jc_retention c < second then Some jobs_ErrRetentionTooSmall
          else if jc_maxRetry c < 0 then Some ErrMaxRetryNegative
          else if jc_taskTimeout c \<le> 0 then Some ErrTaskTimeoutNonPos
          else None)"

definition validateWorker :: "('r, 'l) jobs_config \<Rightarrow> goerr option" where
  "validateWorker c =
     (case validateCommon c of
        Some err \<Rightarrow> Some err
      | None \<Rightarrow>
          if jc_concurrency c \<le> 0 then Some ErrConcurrencyNonPos
          else if jc_shutdownTimeout c \<le> 0 then Some ErrShutdownTimeoutNonPos
          else if jc_retryDelay c = None then Some ErrNilRetryDelay
          else None)"

text \<open>What \<^verbatim>\<open>MakeRedisClient\<close> of a connection option yields; it may panic.\<close>

datatype 'c made_client = Universal 'c | NotUniversal

type_synonym 'c conn_opt = "'c made_client outcome"

definition validateConnOptShape :: "'c conn_opt \<Rightarrow> goerr option" where
  "validateConnOptShape r =
     (case r of
        Panic _ \<Rightarrow> Some ErrInvalidRedisConnOpt
      | Ret NotUniversal \<Rightarrow> Some ErrInvalidRedisConnOpt
      | Ret (Universal c) \<Rightarrow> None)"

section \<open>The enqueuer\<close>

record job =
  job_Type :: string
  job_Payload :: bytes
  job_ProcessAt :: time

text \<open>The options of a submitted task.\<close>

record task_opts =
  to_queue :: string
  to_maxRetry :: int
  to_timeout :: duration
  to_retention :: duration
  to_processAt :: "time option"

type_synonym 'w submit = "gctx \<Rightarrow> string \<Rightarrow> bytes \<Rightarrow> task_opts \<Rightarrow> 'w \<Rightarrow> (goerr + string) \<times> 'w"

record 'w enqueuer =
  nq_submit :: "'w submit"
  nq_queue :: string
  nq_schedulingHorizon :: duration
  nq_retention :: duration
  nq_maxRetry :: int
  nq_taskTimeout :: duration

definition NewEnqueuer ::
  "'r \<Rightarrow> ('c \<Rightarrow> 'w submit) \<Rightarrow> 'c conn_opt option \<Rightarrow> ('r, 'l) jobs_opt list \<Rightarrow> goerr + 'w enqueuer" where
  "NewEnqueuer asynqDelay newClient r opts =
     (case r of
        None \<Rightarrow> Inl ErrNilRedisConnOpt
      | Some conn \<Rightarrow>
          (case validateConnOptShape conn of
             Some err \<Rightarrow> Inl err
           | None \<Rightarrow>
               let cfg = fold jobs_apply opts (jobs_defaultConfig asynqDelay)
               in case validateEnqueuer cfg of
                    Some err \<Rightarrow> Inl err
                  | None \<Rightarrow>
                      (case conn of
                         Ret (Universal c) \<Rightarrow>
                           Inr \<lparr>nq_submit = newClient c, nq_queue = jc_queue cfg,
                                nq_schedulingHorizon = jc_schedulingHorizon cfg, nq_retention = jc_retention cfg,
                                nq_maxRetry = jc_maxRetry cfg, nq_taskTimeout = jc_taskTimeout cfg\<rparr>
                       | _ \<Rightarrow> Inl ErrInvalidRedisConnOpt)))"

text \<open>Close of the enqueuer is Close of the asynq client.\<close>

definition enqueuer_Close :: "('w submit \<Rightarrow> 'w \<Rightarrow> goerr option \<times> 'w) \<Rightarrow> 'w enqueuer \<Rightarrow> 'w \<Rightarrow> goerr option \<times> 'w" where
  "enqueuer_Close clientClose e w = clientClose (nq_submit e) w"

text \<open>The package's own classification of backend errors, a copy of the one in \<^verbatim>\<open>cache/redis\<close>.\<close>

definition jobs_transport_markers :: "string list" where
  "jobs_transport_markers = [''connection refused'', ''no such host'', ''i/o timeout'', ''dial tcp'',
     ''connect:'', ''EOF'', ''broken pipe'', ''reset by peer'']"

definition jobs_classifyBackendErr :: "(goerr \<Rightarrow> string) \<Rightarrow> goerr \<Rightarrow> errcode" where
  "jobs_classifyBackendErr errtext err =
     (if as_net_error err then CodeUnavailable
      else if list_ex (str_contains (errtext err)) jobs_transport_markers then CodeUnavailable
      else CodeInternal)"

lemma jobs_classify_eq: "jobs_classifyBackendErr = classifyBackendErr"
  by (rule ext)+ (simp add: jobs_classifyBackendErr_def classifyBackendErr_def jobs_transport_markers_def transport_markers_def)

text \<open>A private copy of the payload is the same value here.\<close>

definition jobs_snapshot :: "bytes \<Rightarrow> bytes" where
  "jobs_snapshot b = take (length b) b"

text \<open>\<open>now\<close> is the reading of \<^verbatim>\<open>time.Now\<close>; \<open>errtext\<close> is \<^verbatim>\<open>err.Error()\<close>.\<close>

definition Enqueue ::
  "(goerr \<Rightarrow> string) \<Rightarrow> 'w enqueuer \<Rightarrow> time \<Rightarrow> gctx \<Rightarrow> job \<Rightarrow> 'w \<Rightarrow> (goerr + string) \<times> 'w" where
  "Enqueue errtext e now ctx j w =
     (if job_Type j = [] then (Inl (ErrxNew CodeInvalidArgument ''jobs/asynq: empty job type''), w)
      else if job_ProcessAt j \<noteq> zero_time \<and> job_ProcessAt j > now + nq_schedulingHorizon e then
        (Inl (ErrxNew CodeInvalidArgument ''jobs/asynq: ProcessAt beyond scheduling horizon''), w)
      else
        let payload = jobs_snapshot (job_Payload j)
        in case ctx_err ctx of
             Some err \<Rightarrow> (Inl err, w)
           | None \<Rightarrow>
               let opts = \<lparr>to_queue = nq_queue e, to_maxRetry = nq_maxRetry e, to_timeout = nq_taskTimeout e,
                           to_retention = nq_retention e,
                           to_processAt = (if job_ProcessAt j \<noteq> zero_time then Some (job_ProcessAt j) else None)\<rparr>
               in case nq_submit e ctx (job_Type j) payload opts w of
                    (Inl err, w') \<Rightarrow>
                      (if is_ctx_err err then (Inl err, w')
                       else (Inl (ErrxWrap (jobs_classifyBackendErr errtext err) ''jobs/asynq: enqueue failed'' err), w'))
                  | (Inr info, w') \<Rightarrow> (Inr info, w'))"

section \<open>The worker\<close>

record task =
  tk_ID :: string
  tk_Type :: string
  tk_Payload :: bytes

type_synonym 'w job_handler = "gctx \<Rightarrow> task \<Rightarrow> 'w \<Rightarrow> goerr option \<times> 'w"

record ('r, 'l, 'c, 'w) jobs_worker =
  jw_redis :: "'c conn_opt"
  jw_queue :: string
  jw_concurrency :: int
  jw_shutdownTimeout :: duration
  jw_retryDelay :: "'r option"
  jw_logger :: "'l option"
  jw_handlers :: "string \<rightharpoonup> 'w job_handler"

definition NewWorker :: "'r \<Rightarrow> 'c conn_opt option \<Rightarrow> ('r, 'l) jobs_opt list \<Rightarrow> goerr + ('r, 'l, 'c, 'w) jobs_worker" where
  "NewWorker asynqDelay r opts =
     (case r of
        None \<Rightarrow> Inl ErrNilRedisConnOpt
      | Some conn \<Rightarrow>
          (case validateConnOptShape conn of
             Some err \<Rightarrow> Inl err
           | None \<Rightarrow>
               let cfg = fold jobs_apply opts (jobs_defaultConfig asynqDelay)
               in case validateWorker cfg of
                    Some err \<Rightarrow> Inl err
                  | None \<Rightarrow>
                      Inr \<lparr>jw_redis = conn, jw_queue = jc_queue cfg, jw_concurrency = jc_concurrency cfg,
                           jw_shutdownTimeout = jc_shutdownTimeout cfg, jw_retryDelay = jc_retryDelay cfg,
                           jw_logger = jc_logger cfg, jw_handlers = Map.empty\<rparr>))"

definition ShutdownWithin :: "('r, 'l, 'c, 'w) jobs_worker \<Rightarrow> duration" where
  "ShutdownWithin wk = jw_shutdownTimeout wk + shutdownReturnMargin"

text \<open>Register: the handler may be nil.\<close>

definition worker_Register ::
  "string \<Rightarrow> 'w job_handler option \<Rightarrow> ('r, 'l, 'c, 'w) jobs_worker \<Rightarrow> goerr option \<times> ('r, 'l, 'c, 'w) jobs_worker" where
  "worker_Register jobType h wk =
     (if jobType = [] then (Some (ErrxNew CodeInvalidArgument ''jobs/asynq: empty job type''), wk)
      else case h of
             None \<Rightarrow> (Some (ErrxNew CodeInvalidArgument ''jobs/asynq: nil handler''), wk)
           | Some f \<Rightarrow>
               if jw_handlers wk jobType \<noteq> None then
                 (Some (ErrxNew CodeAlreadyExists (''jobs/asynq: handler already registered for type '' @ jobType)), wk)
               else (None, wk\<lparr>jw_handlers := (jw_handlers wk)(jobType \<mapsto> f)\<rparr>))"

text \<open>The root handler of Run; \<open>tid\<close> is the id of the task in its context.\<close>

definition worker_dispatch ::
  "('r, 'l, 'c, 'w) jobs_worker \<Rightarrow> gctx \<Rightarrow> string \<Rightarrow> string \<Rightarrow> bytes \<Rightarrow> 'w \<Rightarrow> goerr option \<times> 'w" where
  "worker_dispatch wk hctx tid ttype payload w =
     (case jw_handlers wk ttype of
        None \<Rightarrow> (Some (ErrxNew CodeInternal (''jobs/asynq: no handler registered for type '' @ ttype)), w)
      | Some h \<Rightarrow> h hctx \<lparr>tk_ID = tid, tk_Type = ttype, tk_Payload = jobs_snapshot payload\<rparr> w)"

text \<open>
  What Run does to the backend, in order: the ping within its timeout, the close of the probe's
  client, and the start of the server with its configuration and its shutdown.
\<close>

record ('r, 'l) asynq_config =
  aq_Concurrency :: int
  aq_Queues :: "(string \<times> int) list"
  aq_ShutdownTimeout :: duration
  aq_RetryDelayFunc :: "'r option"
  aq_Logger :: "'l option"
  aq_BaseContext :: gctx

datatype ('r, 'l) worker_act = Pinged duration | ClientClosed | ServerStarted "('r, 'l) asynq_config" | ServerShutdown

definition probeReachable ::
  "('c \<Rightarrow> duration \<Rightarrow> goerr option) \<Rightarrow> ('r, 'l, 'c, 'w) jobs_worker \<Rightarrow> goerr option outcome \<times> ('r, 'l) worker_act list" where
  "probeReachable ping wk =
     (case jw_redis wk of
        Panic p \<Rightarrow> (Panic p, [])
      | Ret NotUniversal \<Rightarrow> (Ret (Some ErrInvalidRedisConnOpt), [])
      | Ret (Universal c) \<Rightarrow>
          (case ping c (5 * second) of
             Some err \<Rightarrow>
               (Ret (Some (ErrxWrap CodeUnavailable ''jobs/asynq: backend unreachable'' err)), [Pinged (5 * second), ClientClosed])
           | None \<Rightarrow> (Ret None, [Pinged (5 * second), ClientClosed])))"

definition worker_config :: "gctx \<Rightarrow> ('r, 'l, 'c, 'w) jobs_worker \<Rightarrow> ('r, 'l) asynq_config" where
  "worker_config ctx wk = \<lparr>aq_Concurrency = jw_concurrency wk, aq_Queues = [(jw_queue wk, 1)],
     aq_ShutdownTimeout = jw_shutdownTimeout wk, aq_RetryDelayFunc = jw_retryDelay wk, aq_Logger = jw_logger wk,
     aq_BaseContext = ctx\<rparr>"

text \<open>
  Run. \<open>srvStart\<close> is the result of starting a server with a configuration, and \<open>cancelled\<close> says whether
  the context is cancelled at some later time: if it never is, Run does not return, which is the
  result \<open>None\<close>.
\<close>

definition worker_Run ::
  "(goerr \<Rightarrow> string) \<Rightarrow> ('c \<Rightarrow> duration \<Rightarrow> goerr option) \<Rightarrow> (('r, 'l) asynq_config \<Rightarrow> goerr option) \<Rightarrow> bool \<Rightarrow> gctx \<Rightarrow>
   ('r, 'l, 'c, 'w) jobs_worker \<Rightarrow> goerr option outcome option \<times> ('r, 'l) worker_act list" where
  "worker_Run errtext ping srvStart cancelled ctx wk =
     (if ctx_err ctx \<noteq> None then (Some (Ret None), [])
      else case probeReachable ping wk of
             (Panic p, acts) \<Rightarrow> (Some (Panic p), acts)
           | (Ret (Some err), acts) \<Rightarrow> (Some (Ret (Some err)), acts)
           | (Ret None, acts) \<Rightarrow>
               let cfg = worker_config ctx wk
               in case srvStart cfg of
                    Some err \<Rightarrow>
                      (Some (Ret (Some (ErrxWrap (jobs_classifyBackendErr errtext err) ''jobs/asynq: worker startup failed'' err))), acts)
                  | None \<Rightarrow>
                      if cancelled then (Some (Ret None), acts @ [ServerStarted cfg, ServerShutdown])
                      else (None, acts @ [ServerStarted cfg]))"

section \<open>Properties\<close>

lemma validateEnqueuer_None:
  "validateEnqueuer c = None \<longleftrightarrow>
     \<not> blank (jc_queue c) \<and> 0 < jc_schedulingHorizon c \<and> second \<le> jc_retention c \<and> 0 \<le> jc_maxRetry c \<and> 0 < jc_taskTimeout c"
  by (auto simp: validateEnqueuer_def validateCommon_def)

lemma validateWorker_None:
  "validateWorker c = None \<longleftrightarrow>
     \<not> blank (jc_queue c) \<and> 0 < jc_concurrency c \<and> 0 < jc_shutdownTimeout c \<and> jc_retryDelay c \<noteq> None"
  by (auto simp: validateWorker_def validateCommon_def)

lemma defaults_valid: "validateEnqueuer (jobs_defaultConfig d) = None" "validateWorker (jobs_defaultConfig d) = None"
  by (simp_all add: validateEnqueuer_None validateWorker_None jobs_defaultConfig_def jobs_default_defs ascii_space_def space_2_def space_3_def
      hour_def minute_def second_def Let_def)

lemma NewEnqueuer_Inr:
  assumes "NewEnqueuer d nc r opts = Inr e"
  obtains c where "r = Some (Ret (Universal c))" "nq_submit e = nc c" "\<not> blank (nq_queue e)" "0 < nq_schedulingHorizon e"
    "second \<le> nq_retention e" "0 \<le> nq_maxRetry e" "0 < nq_taskTimeout e"
  using assms
  by (auto simp: NewEnqueuer_def validateConnOptShape_def Let_def validateEnqueuer_None
      split: option.splits outcome.splits made_client.splits)

text \<open>
  C34: Enqueue submits exactly what it was given, once, or nothing. For a constructed Enqueuer,
  an empty type and a time beyond the horizon are rejected as invalid arguments even on a dead
  context, and a dead context is returned as such, all three without touching the queue; any
  other job is submitted exactly once, with its own type and payload, on a queue that is not
  blank, with its process time if it has one, and a failure comes back as the context's error
  or with a code, never an unknown one.
\<close>

theorem Enqueue_contract:
  assumes "NewEnqueuer d nc r opts = Inr e" and "proper_ctx ctx"
  shows "let invalid = job_Type j = [] \<or> (job_ProcessAt j \<noteq> zero_time \<and> job_ProcessAt j > now + nq_schedulingHorizon e);
      (res, w') = Enqueue errtext e now ctx j w
    in (invalid \<longrightarrow> (\<exists>m. res = Inl (ErrxNew CodeInvalidArgument m)) \<and> w' = w) \<and>
       (\<not> invalid \<and> ctx_err ctx \<noteq> None \<longrightarrow> (\<exists>err. ctx_err ctx = Some err \<and> res = Inl err) \<and> w' = w) \<and>
       (\<not> invalid \<and> ctx_err ctx = None \<longrightarrow>
          (\<exists>c to r'. r = Some (Ret (Universal c)) \<and> nc c ctx (job_Type j) (job_Payload j) to w = (r', w') \<and>
             \<not> blank (to_queue to) \<and> second \<le> to_retention to \<and> 0 < to_timeout to \<and> 0 \<le> to_maxRetry to \<and>
             (\<forall>t. to_processAt to = Some t \<longleftrightarrow> t = job_ProcessAt j \<and> t \<noteq> zero_time) \<and>
             (\<forall>i. res = Inr i \<longleftrightarrow> r' = Inr i))) \<and>
       (\<forall>err. res = Inl err \<longrightarrow> well_coded err)"
proof -
  obtain c where c: "r = Some (Ret (Universal c))" "nq_submit e = nc c" "\<not> blank (nq_queue e)"
    "second \<le> nq_retention e" "0 \<le> nq_maxRetry e" "0 < nq_taskTimeout e"
    using assms(1) by (rule NewEnqueuer_Inr)
  let ?to = "\<lparr>to_queue = nq_queue e, to_maxRetry = nq_maxRetry e, to_timeout = nq_taskTimeout e, to_retention = nq_retention e,
     to_processAt = (if job_ProcessAt j \<noteq> zero_time then Some (job_ProcessAt j) else None)\<rparr>"
  obtain r' w1 where s: "nc c ctx (job_Type j) (job_Payload j) ?to w = (r', w1)" by (metis surj_pair)
  define invalid where "invalid \<longleftrightarrow> job_Type j = [] \<or> (job_ProcessAt j \<noteq> zero_time \<and> job_ProcessAt j > now + nq_schedulingHorizon e)"
  consider "invalid" | err where "\<not> invalid" "ctx_err ctx = Some err" | "\<not> invalid" "ctx_err ctx = None" by fastforce
  then show ?thesis
  proof cases
    case 1
    then show ?thesis by (auto simp: invalid_def Enqueue_def)
  next
    case 2
    then show ?thesis using proper_ctx_err [OF assms(2)] by (auto simp: invalid_def Enqueue_def Let_def)
  next
    case 3
    let ?res = "case r' of Inl err \<Rightarrow> Inl (map_backend_err errtext ''jobs/asynq: enqueue failed'' err) | Inr i \<Rightarrow> Inr i"
    have eq: "Enqueue errtext e now ctx j w = (?res, w1)"
      using 3 s by (auto simp: invalid_def Enqueue_def c(2) jobs_snapshot_def Let_def map_backend_err_def
          jobs_classify_eq split: sum.split)
    have "\<forall>i. ?res = Inr i \<longleftrightarrow> r' = Inr i" by (cases r') auto
    then have sub: "\<exists>c to r'. r = Some (Ret (Universal c)) \<and> nc c ctx (job_Type j) (job_Payload j) to w = (r', w1) \<and>
             \<not> blank (to_queue to) \<and> second \<le> to_retention to \<and> 0 < to_timeout to \<and> 0 \<le> to_maxRetry to \<and>
             (\<forall>t. to_processAt to = Some t \<longleftrightarrow> t = job_ProcessAt j \<and> t \<noteq> zero_time) \<and> (\<forall>i. ?res = Inr i \<longleftrightarrow> r' = Inr i)"
      using s c by (intro exI [of _ c] exI [of _ ?to] exI [of _ r']) auto
    have coded: "\<forall>err. ?res = Inl err \<longrightarrow> well_coded err"
      using map_backend_err_well_coded by (cases r') auto
    show ?thesis unfolding eq Let_def prod.case using 3 sub coded unfolding invalid_def by blast
  qed
qed

text \<open>The first valid registration of a type, and a worker after a sequence of Register calls.\<close>

fun first_handler :: "string \<Rightarrow> (string \<times> 'w job_handler option) list \<Rightarrow> 'w job_handler option" where
  "first_handler t [] = None"
| "first_handler t ((t', h) # rs) = (if t' = t \<and> t \<noteq> [] \<and> h \<noteq> None then h else first_handler t rs)"

fun register_all ::
  "(string \<times> 'w job_handler option) list \<Rightarrow> ('r, 'l, 'c, 'w) jobs_worker \<Rightarrow> ('r, 'l, 'c, 'w) jobs_worker" where
  "register_all [] wk = wk"
| "register_all ((t, h) # rs) wk = register_all rs (snd (worker_Register t h wk))"

lemma register_handlers:
  "jw_handlers (snd (worker_Register t h wk)) =
     (if t \<noteq> [] \<and> h \<noteq> None \<and> jw_handlers wk t = None then (jw_handlers wk)(t := h) else jw_handlers wk)"
  by (auto simp: worker_Register_def split: option.split)

lemma register_all_handlers:
  "jw_handlers (register_all rs wk) t = (case jw_handlers wk t of Some h \<Rightarrow> Some h | None \<Rightarrow> first_handler t rs)"
proof (induction rs wk rule: register_all.induct)
  case (2 t' h rs wk)
  then show ?case by (auto simp: register_handlers split: option.split)
qed (simp split: option.split)

lemma NewWorker_Inr:
  "NewWorker d r opts = Inr wk \<Longrightarrow> jw_handlers wk = Map.empty \<and> 0 < jw_concurrency wk \<and> 0 < jw_shutdownTimeout wk"
  by (auto simp: NewWorker_def Let_def validateWorker_None split: option.splits)

text \<open>
  A task reaches exactly its own handler. After any sequence of Register calls on a new
  worker a task is handed, with its own id, type and payload, to the first handler that was
  validly registered for exactly its type, and to no other; without one it is refused with
  CodeInternal, so it is never acknowledged as done. A later Register for a type that has a
  handler is refused as already existing and changes nothing.
\<close>

lemma worker_dispatch_exact:
  assumes "NewWorker d r opts = Inr wk0"
  shows "worker_dispatch (register_all rs wk0) hctx tid ttype payload w =
      (case first_handler ttype rs of
         Some h \<Rightarrow> h hctx \<lparr>tk_ID = tid, tk_Type = ttype, tk_Payload = payload\<rparr> w
       | None \<Rightarrow> (Some (ErrxNew CodeInternal (''jobs/asynq: no handler registered for type '' @ ttype)), w)) \<and>
    (first_handler t rs \<noteq> None \<and> h' \<noteq> None \<longrightarrow>
       (\<exists>m. worker_Register t h' (register_all rs wk0) = (Some (ErrxNew CodeAlreadyExists m), register_all rs wk0)))"
proof -
  have hs: "jw_handlers (register_all rs wk0) t = first_handler t rs" for t
    using NewWorker_Inr [OF assms] by (simp add: register_all_handlers)
  have ne: "first_handler t rs \<noteq> None \<Longrightarrow> t \<noteq> []" for t
    by (induction t rs rule: first_handler.induct) (auto split: if_splits)
  show ?thesis
    using ne [of t] by (auto simp: worker_dispatch_def worker_Register_def hs jobs_snapshot_def split: option.splits)
qed

text \<open>
  Run returns nil only on cancellation, and then a server that was started has been shut down;
  an error is coded and leaves no server behind. (A context cancelled during the ping surfaces
  as an unreachable backend that wraps the context's error.)
\<close>

lemma worker_Run_contract:
  assumes "worker_Run errtext ping srvStart cancelled ctx wk = (Some (Ret e), acts)"
  shows "(e = None \<longrightarrow> (ctx_err ctx \<noteq> None \<and> acts = []) \<or>
      (cancelled \<and> acts = [Pinged (5 * second), ClientClosed, ServerStarted (worker_config ctx wk), ServerShutdown])) \<and>
    (\<forall>err. e = Some err \<longrightarrow> (\<forall>cfg. ServerStarted cfg \<notin> set acts) \<and> (\<exists>c. as_coded err = Some c \<and> c \<noteq> CodeUnknown))"
  using assms classify_not_unknown [of errtext "the (srvStart (worker_config ctx wk))"]
  by (auto simp: worker_Run_def probeReachable_def ErrInvalidRedisConnOpt_def jobs_classify_eq Let_def
      split: if_splits outcome.splits made_client.splits option.splits)

lemma worker_Run_cancelled_ping:
  "ctx_err ctx = None \<Longrightarrow> jw_redis wk = Ret (Universal c) \<Longrightarrow> ping c (5 * second) = Some CtxCanceled \<Longrightarrow>
     \<exists>err acts. worker_Run errtext ping srvStart cancelled ctx wk = (Some (Ret (Some err)), acts) \<and> is_ctx_err err"
  by (simp add: worker_Run_def probeReachable_def is_ctx_err_def)

text \<open>A queue that records submissions, for concrete evaluations.\<close>

definition example_submit :: "unit \<Rightarrow> (string \<times> bytes) list submit" where
  "example_submit c ctx t p opts w = (Inr ''id1'', w @ [(t, p)])"

definition example_enqueuer :: "(string \<times> bytes) list enqueuer" where
  "example_enqueuer = \<lparr>nq_submit = example_submit (), nq_queue = ''default'', nq_schedulingHorizon = 30 * (24 * hour),
     nq_retention = hour, nq_maxRetry = 25, nq_taskTimeout = 30 * minute\<rparr>"

lemma example_NewEnqueuer:
  "NewEnqueuer () example_submit (Some (Ret (Universal ()))) ([] :: (unit, unit) jobs_opt list) = Inr example_enqueuer"
  by (simp add: NewEnqueuer_def validateConnOptShape_def defaults_valid Let_def)
    (simp add: example_enqueuer_def jobs_defaultConfig_def jobs_default_defs)

theorem Enqueue_contract_witness:
  "\<exists>i w'. Enqueue (\<lambda>_. []) example_enqueuer 0 background \<lparr>job_Type = ''mail'', job_Payload = ''x'', job_ProcessAt = zero_time\<rparr> []
     = (Inr i, w') \<and> w' = [(''mail'', ''x'')]"
proof -
  let ?j = "\<lparr>job_Type = ''mail'', job_Payload = ''x'', job_ProcessAt = zero_time\<rparr>"
  have ctx: "proper_ctx background" "ctx_err background = None" by (simp_all add: proper_ctx_def background_def)
  obtain res w' where r: "Enqueue (\<lambda>_. []) example_enqueuer 0 background ?j [] = (res, w')" by (metis surj_pair)
  note k = Enqueue_contract [OF example_NewEnqueuer ctx(1), where j = ?j and now = 0 and w = "[]" and errtext = "\<lambda>_. []",
      unfolded r Let_def prod.case]
  then obtain to r' where "example_submit () background ''mail'' ''x'' to [] = (r', w')" "\<forall>i. res = Inr i \<longleftrightarrow> r' = Inr i"
    using ctx(2) by auto
  with r show ?thesis by (auto simp: example_submit_def)
qed

end
