(* ===== verification/Health.thy ===== *)
theory Health
  imports Prelude
begin

text \<open>
  The health endpoints of \<^verbatim>\<open>transport/http/stdlib/health\<close>: the registry of named checks
  (\<^verbatim>\<open>registry.go\<close>) and the liveness, readiness and combined handlers (\<^verbatim>\<open>handler.go\<close>). A check is
  application code: it gets the request's context and the timeout set on it, and acts on a
  world of its own. Bodies are the structures that are encoded as JSON.
\<close>

section \<open>The registry\<close>

record 'w check =
  ck_Name :: string
  ck_Check :: "gctx \<Rightarrow> duration option \<Rightarrow> 'w \<Rightarrow> goerr option \<times> 'w"

text \<open>A nil map of names reads as empty.\<close>

record 'w health_registry =
  hr_checks :: "'w check list"
  hr_names :: "string set"
  hr_probeTimeout :: duration

definition zero_registry :: "'w health_registry" where
  "zero_registry = \<lparr>hr_checks = [], hr_names = {}, hr_probeTimeout = 0\<rparr>"

definition defaultProbeTimeout :: duration where "defaultProbeTimeout = 2 * second"

definition ErrEmptyCheckName :: goerr where
  "ErrEmptyCheckName = ErrNew ''health: check name is empty''"

definition health_Register :: "'w check \<Rightarrow> 'w health_registry \<Rightarrow> goerr option \<times> 'w health_registry" where
  "health_Register c r =
     (if ck_Name c = [] then (Some ErrEmptyCheckName, r)
      else if ck_Name c \<in> hr_names r then (Some (Errorf (''health: duplicate check name '' @ ck_Name c) []), r)
      else (None, r\<lparr>hr_names := insert (ck_Name c) (hr_names r), hr_checks := hr_checks r @ [c]\<rparr>))"

text \<open>The panic of MustRegister carries the error, here its text.\<close>

definition health_MustRegister :: "(goerr \<Rightarrow> string) \<Rightarrow> 'w check \<Rightarrow> 'w health_registry \<Rightarrow> unit outcome \<times> 'w health_registry" where
  "health_MustRegister errtext c r =
     (case health_Register c r of
        (Some err, r') \<Rightarrow> (Panic (errtext err), r')
      | (None, r') \<Rightarrow> (Ret (), r'))"

definition SetProbeTimeout :: "duration \<Rightarrow> 'w health_registry \<Rightarrow> 'w health_registry" where
  "SetProbeTimeout d r = r\<lparr>hr_probeTimeout := d\<rparr>"

definition effectiveProbeTimeout :: "'w health_registry \<Rightarrow> duration" where
  "effectiveProbeTimeout r = (if hr_probeTimeout r = 0 then defaultProbeTimeout else hr_probeTimeout r)"

definition health_snapshot :: "'w health_registry \<Rightarrow> 'w check list" where
  "health_snapshot r = hr_checks r"

section \<open>The handlers\<close>

record probe_result =
  pb_Name :: string
  pb_OK :: bool
  pb_Error :: string

datatype health_body = Liveness string | Readiness string "probe_result list" | NoBody

record health_reply =
  hp_status :: nat
  hp_body :: health_body

text \<open>
  What reaches the client: \<^verbatim>\<open>writeJSON\<close> sets the content type, writes the status and then the JSON of the
  payload with a newline; a payload that does not encode leaves the body empty.
\<close>

record http_response =
  rw_ContentType :: string
  rw_Status :: nat
  rw_Body :: bytes

definition health_writeJSON :: "(health_body \<Rightarrow> goerr + bytes) \<Rightarrow> nat \<Rightarrow> health_body \<Rightarrow> http_response" where
  "health_writeJSON json_Encode status payload =
     \<lparr>rw_ContentType = ''application/json'', rw_Status = status,
      rw_Body = (case json_Encode payload of Inl _ \<Rightarrow> [] | Inr b \<Rightarrow> b @ [CHR 0x0A])\<rparr>"

definition health_respond :: "(health_body \<Rightarrow> goerr + bytes) \<Rightarrow> health_reply \<Rightarrow> http_response option" where
  "health_respond json_Encode r =
     (case hp_body r of NoBody \<Rightarrow> None | b \<Rightarrow> Some (health_writeJSON json_Encode (hp_status r) b))"

definition LivenessHandler :: "'w \<Rightarrow> health_reply \<times> 'w" where
  "LivenessHandler w = (\<lparr>hp_status = 200, hp_body = Liveness ''ok''\<rparr>, w)"

text \<open>The loop over the checks, with the results so far and the flag \<^verbatim>\<open>allOK\<close>.\<close>

fun probe_all ::
  "(goerr \<Rightarrow> string) \<Rightarrow> duration \<Rightarrow> gctx \<Rightarrow> 'w check list \<Rightarrow> probe_result list \<Rightarrow> bool \<Rightarrow> 'w \<Rightarrow>
   (probe_result list \<times> bool) \<times> 'w" where
  "probe_all errtext timeout ctx [] results allOK w = ((results, allOK), w)"
| "probe_all errtext timeout ctx (c # cs) results allOK w =
     (case ck_Check c ctx (if timeout > 0 then Some timeout else None) w of
        (None, w') \<Rightarrow>
          probe_all errtext timeout ctx cs (results @ [\<lparr>pb_Name = ck_Name c, pb_OK = True, pb_Error = []\<rparr>]) allOK w'
      | (Some err, w') \<Rightarrow>
          probe_all errtext timeout ctx cs (results @ [\<lparr>pb_Name = ck_Name c, pb_OK = False, pb_Error = errtext err\<rparr>]) False w')"

definition ReadinessHandler ::
  "(goerr \<Rightarrow> string) \<Rightarrow> 'w health_registry \<Rightarrow> gctx \<Rightarrow> 'w \<Rightarrow> health_reply \<times> 'w" where
  "ReadinessHandler errtext r ctx w =
     (let checks = health_snapshot r; timeout = effectiveProbeTimeout r;
          ((results, allOK), w') = probe_all errtext timeout ctx checks [] True w
      in if allOK then (\<lparr>hp_status = 200, hp_body = Readiness ''ok'' results\<rparr>, w')
         else (\<lparr>hp_status = 503, hp_body = Readiness ''unhealthy'' results\<rparr>, w'))"

text \<open>
  The mux of Handler on a clean path: a GET pattern also serves HEAD, another method on a known
  path is 405, another path is 404.
\<close>

definition health_Handler ::
  "(goerr \<Rightarrow> string) \<Rightarrow> 'w health_registry \<Rightarrow> string \<Rightarrow> string \<Rightarrow> gctx \<Rightarrow> 'w \<Rightarrow> health_reply \<times> 'w" where
  "health_Handler errtext r httpMethod path ctx w =
     (if path = ''/healthz'' \<or> path = ''/readyz'' then
        (if httpMethod = ''GET'' \<or> httpMethod = ''HEAD'' then
           (if path = ''/healthz'' then LivenessHandler w else ReadinessHandler errtext r ctx w)
         else (\<lparr>hp_status = 405, hp_body = NoBody\<rparr>, w))
      else (\<lparr>hp_status = 404, hp_body = NoBody\<rparr>, w))"

section \<open>Registration\<close>

text \<open>
  Every history of registrations and timeout settings on a fresh registry. A setting of exactly zero
  is left out: the comment of \<^verbatim>\<open>SetProbeTimeout\<close> has it disable the timeout, the code reads it as not
  set (\<open>zero_timeout_reads_as_default\<close> below).
\<close>

inductive health_reachable :: "'w health_registry \<Rightarrow> bool" where
  hr_zero: "health_reachable zero_registry"
| hr_register: "health_reachable r \<Longrightarrow> health_reachable (snd (health_Register c r))"
| hr_timeout: "health_reachable r \<Longrightarrow> d \<noteq> 0 \<Longrightarrow> health_reachable (SetProbeTimeout d r)"

lemma zero_timeout_reads_as_default: "effectiveProbeTimeout (SetProbeTimeout 0 r) = defaultProbeTimeout"
  by (simp add: effectiveProbeTimeout_def SetProbeTimeout_def)

lemma health_reachable_inv:
  "health_reachable r \<Longrightarrow>
     hr_names r = ck_Name ` set (hr_checks r) \<and> distinct (map ck_Name (hr_checks r)) \<and> [] \<notin> hr_names r"
  by (induction rule: health_reachable.induct)
    (auto simp: zero_registry_def health_Register_def SetProbeTimeout_def image_iff)

section \<open>Probing\<close>

text \<open>
  What the loop is meant to do: run each check once, in order, on the world the previous one
  left, and report each.
\<close>

definition probed_as ::
  "(goerr \<Rightarrow> string) \<Rightarrow> duration option \<Rightarrow> gctx \<Rightarrow> 'w check list \<Rightarrow> 'w list \<Rightarrow> goerr option list \<Rightarrow> bool" where
  "probed_as errtext to ctx cs ws es \<longleftrightarrow> length ws = Suc (length cs) \<and> length es = length cs \<and>
     (\<forall>i < length cs. ck_Check (cs ! i) ctx to (ws ! i) = (es ! i, ws ! Suc i))"

definition result_of :: "(goerr \<Rightarrow> string) \<Rightarrow> 'w check \<Rightarrow> goerr option \<Rightarrow> probe_result" where
  "result_of errtext c e = \<lparr>pb_Name = ck_Name c, pb_OK = (e = None), pb_Error = (case e of None \<Rightarrow> [] | Some err \<Rightarrow> errtext err)\<rparr>"

lemma probed_as_Cons:
  assumes "ck_Check c ctx to w = (e, w1)" "probed_as errtext to ctx cs ws es" "hd ws = w1"
  shows "probed_as errtext to ctx (c # cs) (w # ws) (e # es)"
  unfolding probed_as_def
proof (intro conjI allI impI)
  fix i assume i: "i < length (c # cs)"
  show "ck_Check ((c # cs) ! i) ctx to ((w # ws) ! i) = ((e # es) ! i, (w # ws) ! Suc i)"
  proof (cases i)
    case 0
    with assms show ?thesis by (cases ws) (auto simp: probed_as_def)
  next
    case (Suc k)
    with i assms(2) show ?thesis by (simp add: probed_as_def)
  qed
qed (use assms in \<open>auto simp: probed_as_def\<close>)

lemma probe_all_spec:
  fixes cs :: "'w check list"
  assumes "probe_all errtext timeout ctx cs results allOK w = ((results', allOK'), w')"
  shows "\<exists>ws es. probed_as errtext (if timeout > 0 then Some timeout else None) ctx cs ws es \<and> hd ws = w \<and> last ws = w' \<and>
    results' = results @ map2 (result_of errtext) cs es \<and> (allOK' \<longleftrightarrow> allOK \<and> (\<forall>e \<in> set es. e = None))"
  using assms
proof (induction cs arbitrary: results allOK w)
  case Nil
  then show ?case by (intro exI [of _ "[w]"] exI [of _ "[]"]) (auto simp: probed_as_def)
next
  case (Cons c cs)
  let ?to = "if timeout > 0 then Some timeout else None"
  obtain e w1 where c: "ck_Check c ctx ?to w = (e, w1)" by (metis surj_pair)
  let ?r = "result_of errtext c e"
  have "probe_all errtext timeout ctx cs (results @ [?r]) (allOK \<and> e = None) w1 = ((results', allOK'), w')"
    using Cons.prems c by (cases e) (auto simp: result_of_def)
  from Cons.IH [OF this] obtain ws es where ih: "probed_as errtext ?to ctx cs ws es" "hd ws = w1" "last ws = w'"
    "results' = (results @ [?r]) @ map2 (result_of errtext) cs es"
    "allOK' \<longleftrightarrow> (allOK \<and> e = None) \<and> (\<forall>e \<in> set es. e = None)"
    by blast
  have "ws \<noteq> []" using ih(1) by (auto simp: probed_as_def)
  with ih probed_as_Cons [OF c ih(1,2)] show ?case
    by (intro exI [of _ "w # ws"] exI [of _ "e # es"]) auto
qed

text \<open>
  C35: Readiness reports every check, once, and is healthy exactly when all are. On any
  registry that registrations and settings of a non-zero timeout can build, GET /readyz runs each
  registered check exactly once, in the order of registration, each on the world its predecessor
  left and under the timeout last set (2s when none was set, none when it is negative), also
  after one has failed; the body lists one result per check under its name, the names are pairwise
  different and not empty, and the status is 200 if every check passed and 503 otherwise.
  GET /healthz always answers 200 and runs no check.
\<close>

theorem readiness_reports_all:
  fixes r :: "'w health_registry"
  assumes "health_reachable r"
  shows "distinct (map ck_Name (hr_checks r)) \<and> [] \<notin> set (map ck_Name (hr_checks r)) \<and>
    (\<exists>ws es w' status body.
       probed_as errtext (if hr_probeTimeout r = 0 then Some (2 * second)
          else if hr_probeTimeout r > 0 then Some (hr_probeTimeout r) else None) ctx (hr_checks r) ws es \<and>
       hd ws = w \<and> last ws = w' \<and>
       health_Handler errtext r ''GET'' ''/readyz'' ctx w = (\<lparr>hp_status = status, hp_body = body\<rparr>, w') \<and>
       body = Readiness (if status = 200 then ''ok'' else ''unhealthy'') (map2 (result_of errtext) (hr_checks r) es) \<and>
       status = (if \<forall>e \<in> set es. e = None then 200 else 503)) \<and>
    health_Handler errtext r ''GET'' ''/healthz'' ctx w = (\<lparr>hp_status = 200, hp_body = Liveness ''ok''\<rparr>, w)"
proof -
  note inv = health_reachable_inv [OF assms]
  obtain results allOK w' where p: "probe_all errtext (effectiveProbeTimeout r) ctx (hr_checks r) [] True w = ((results, allOK), w')"
    by (metis surj_pair)
  let ?to = "if effectiveProbeTimeout r > 0 then Some (effectiveProbeTimeout r) else None"
  obtain ws es where s: "probed_as errtext ?to ctx (hr_checks r) ws es" "hd ws = w" "last ws = w'"
    "results = map2 (result_of errtext) (hr_checks r) es" "allOK \<longleftrightarrow> (\<forall>e \<in> set es. e = None)"
    using probe_all_spec [OF p] by auto
  have to: "?to = (if hr_probeTimeout r = 0 then Some (2 * second)
          else if hr_probeTimeout r > 0 then Some (hr_probeTimeout r) else None)"
    by (simp add: effectiveProbeTimeout_def defaultProbeTimeout_def second_def)
  have "health_Handler errtext r ''GET'' ''/readyz'' ctx w =
      (\<lparr>hp_status = (if allOK then 200 else 503), hp_body = Readiness (if allOK then ''ok'' else ''unhealthy'') results\<rparr>, w')"
    by (simp add: health_Handler_def ReadinessHandler_def health_snapshot_def p)
  then have "\<exists>ws es w' status body.
       probed_as errtext ?to ctx (hr_checks r) ws es \<and> hd ws = w \<and> last ws = w' \<and>
       health_Handler errtext r ''GET'' ''/readyz'' ctx w = (\<lparr>hp_status = status, hp_body = body\<rparr>, w') \<and>
       body = Readiness (if status = 200 then ''ok'' else ''unhealthy'') (map2 (result_of errtext) (hr_checks r) es) \<and>
       status = (if \<forall>e \<in> set es. e = None then 200 else 503)"
    using s
    by (intro exI [of _ ws] exI [of _ es] exI [of _ w'] exI [of _ "if allOK then 200 else 503"]
        exI [of _ "Readiness (if allOK then ''ok'' else ''unhealthy'') results"]) auto
  then show ?thesis using inv unfolding to by (auto simp: health_Handler_def LivenessHandler_def)
qed

text \<open>A registry of two checks, the first failing, for concrete evaluations.\<close>

definition example_check :: "string \<Rightarrow> goerr option \<Rightarrow> string list check" where
  "example_check n e = \<lparr>ck_Name = n, ck_Check = (\<lambda>ctx to w. (e, w @ [n]))\<rparr>"

definition example_registry :: "string list health_registry" where
  "example_registry = snd (health_Register (example_check ''redis'' None)
     (snd (health_Register (example_check ''db'' (Some (ErrNew ''down''))) zero_registry)))"

theorem readiness_reports_all_witness:
  "\<exists>ws es. probed_as (\<lambda>_. ''down'') (Some (2 * second)) background (hr_checks example_registry) ws es \<and> last ws = [''db'', ''redis'']"
proof -
  have reach: "health_reachable example_registry"
    unfolding example_registry_def by (intro hr_register hr_zero)
  have "hr_probeTimeout example_registry = 0"
    by (simp add: example_registry_def health_Register_def zero_registry_def)
  with readiness_reports_all [OF reach, where errtext = "\<lambda>_. ''down''" and ctx = background and w = "[]"]
  obtain ws es w' status body where "probed_as (\<lambda>_. ''down'') (Some (2 * second)) background (hr_checks example_registry) ws es"
    "last ws = w'" "health_Handler (\<lambda>_. ''down'') example_registry ''GET'' ''/readyz'' background [] = (\<lparr>hp_status = status, hp_body = body\<rparr>, w')"
    by auto
  moreover from this(3) have "w' = [''db'', ''redis'']"
    by (simp add: health_Handler_def ReadinessHandler_def health_snapshot_def example_registry_def health_Register_def
        zero_registry_def example_check_def)
  ultimately show ?thesis by blast
qed

end
