(* ===== verification/Http_Server.thy ===== *)
theory Http_Server
  imports Prelude
begin

text \<open>
  The HTTP server module of \<^verbatim>\<open>transport/http/stdlib\<close> (\<^verbatim>\<open>server.go\<close>, \<^verbatim>\<open>options.go\<close>, \<^verbatim>\<open>module.go\<close>) and the
  HTTP client \<^verbatim>\<open>httpclient/std\<close>. Listening, serving, shutting down and sending are operations of
  net/http on a world of its own; transports and tracer providers are opaque.
\<close>

section \<open>The server\<close>

definition defaultReadHeaderTimeout :: duration where "defaultReadHeaderTimeout = 5 * second"
definition srv_defaultShutdownTimeout :: duration where "srv_defaultShutdownTimeout = 15 * second"

text \<open>
  The logger of the server: the no-op one, or one of the caller's on a world \<open>'w\<close>, given by its Log
  and Enabled. A line is its level, message and fields.
\<close>

datatype log_level = LevelDebug | LevelInfo | LevelWarn | LevelError

record 'w port_logger =
  pl_Log :: "log_level \<Rightarrow> string \<Rightarrow> log_fields \<Rightarrow> 'w \<Rightarrow> 'w"
  pl_Enabled :: "log_level \<Rightarrow> bool"

datatype 'w srv_logger = NopLogger | PortLogger "'w port_logger"

fun srv_Log :: "'w srv_logger \<Rightarrow> log_level \<Rightarrow> string \<Rightarrow> log_fields \<Rightarrow> 'w \<Rightarrow> 'w" where
  "srv_Log NopLogger level msg fs w = w"
| "srv_Log (PortLogger l) level msg fs w = pl_Log l level msg fs w"

fun srv_Enabled :: "'w srv_logger \<Rightarrow> log_level \<Rightarrow> bool" where
  "srv_Enabled NopLogger level = False"
| "srv_Enabled (PortLogger l) level = pl_Enabled l level"

definition nop_With :: "log_fields \<Rightarrow> 'w srv_logger" where
  "nop_With fs = NopLogger"

record ('w, 'bc) srv_config =
  sc_readHeaderTimeout :: duration
  sc_shutdownTimeout :: duration
  sc_logger :: "'w srv_logger"
  sc_moduleName :: string
  sc_baseContext :: "'bc option"

definition srv_newConfig :: "string \<Rightarrow> ('w, 'bc) srv_config" where
  "srv_newConfig addr = \<lparr>sc_readHeaderTimeout = defaultReadHeaderTimeout, sc_shutdownTimeout = srv_defaultShutdownTimeout,
     sc_logger = NopLogger, sc_moduleName = ''http:'' @ addr, sc_baseContext = None\<rparr>"

datatype ('w, 'bc) srv_opt = SrvReadHeaderTimeout duration | SrvShutdownTimeout duration
  | SrvLogger "'w srv_logger option" | SrvModuleName string | SrvBaseContext "'bc option"

fun srv_apply :: "('w, 'bc) srv_opt \<Rightarrow> ('w, 'bc) srv_config \<Rightarrow> ('w, 'bc) srv_config" where
  "srv_apply (SrvReadHeaderTimeout d) c = c\<lparr>sc_readHeaderTimeout := d\<rparr>"
| "srv_apply (SrvShutdownTimeout d) c = c\<lparr>sc_shutdownTimeout := d\<rparr>"
| "srv_apply (SrvLogger l) c = (case l of None \<Rightarrow> c | Some lg \<Rightarrow> c\<lparr>sc_logger := lg\<rparr>)"
| "srv_apply (SrvModuleName n) c = (if n \<noteq> [] then c\<lparr>sc_moduleName := n\<rparr> else c)"
| "srv_apply (SrvBaseContext f) c = c\<lparr>sc_baseContext := f\<rparr>"

text \<open>
  The http.Server built by start, and the server with the address of its listener and the
  running http.Server, if any.
\<close>

record ('h, 'bc) http_server =
  hs_Handler :: 'h
  hs_ReadHeaderTimeout :: duration
  hs_BaseContext :: "'bc option"

record ('h, 'w, 'bc) server =
  sv_configuredAddr :: string
  sv_handler :: 'h
  sv_cfg :: "('w, 'bc) srv_config"
  sv_listener :: "string option"
  sv_server :: "('h, 'bc) http_server option"

definition server_New :: "string \<Rightarrow> 'h \<Rightarrow> ('w, 'bc) srv_opt list \<Rightarrow> ('h, 'w, 'bc) server" where
  "server_New addr handler opts = \<lparr>sv_configuredAddr = addr, sv_handler = handler,
     sv_cfg = fold srv_apply opts (srv_newConfig addr), sv_listener = None, sv_server = None\<rparr>"

definition server_Addr :: "('h, 'w, 'bc) server \<Rightarrow> string" where
  "server_Addr s = (case sv_listener s of None \<Rightarrow> [] | Some a \<Rightarrow> a)"

text \<open>
  The operations of net/http: Listen yields the resolved address, Serve blocks until the
  server ends, Shutdown gets the timeout put on its context.
\<close>

record ('h, 'bc, 'w) net_ops =
  net_Listen :: "string \<Rightarrow> 'w \<Rightarrow> (goerr + string) \<times> 'w"
  net_Serve :: "string \<Rightarrow> ('h, 'bc) http_server \<Rightarrow> 'w \<Rightarrow> goerr option \<times> 'w"
  net_Shutdown :: "gctx \<Rightarrow> duration \<Rightarrow> ('h, 'bc) http_server \<Rightarrow> 'w \<Rightarrow> goerr option \<times> 'w"

definition ErrServerClosed :: goerr where
  "ErrServerClosed = ErrNew ''http: Server closed''"

text \<open>start returns its error, the server, and the goroutine it has spawned, if any.\<close>

type_synonym ('h, 'bc) serve_go = "string \<times> ('h, 'bc) http_server"

definition server_start ::
  "('h, 'bc, 'w) net_ops \<Rightarrow> ('h, 'w, 'bc) server \<Rightarrow> 'w \<Rightarrow>
   goerr option \<times> ('h, 'w, 'bc) server \<times> ('h, 'bc) serve_go option \<times> 'w" where
  "server_start N s w =
     (case net_Listen N (sv_configuredAddr s) w of
        (Inl err, w1) \<Rightarrow> (Some err, s, None, w1)
      | (Inr ln, w1) \<Rightarrow>
          let srv = \<lparr>hs_Handler = sv_handler s, hs_ReadHeaderTimeout = sc_readHeaderTimeout (sv_cfg s),
                     hs_BaseContext = sc_baseContext (sv_cfg s)\<rparr>;
              w2 = srv_Log (sc_logger (sv_cfg s)) LevelInfo ''http listening''
                     [(''addr'', ln), (''module'', sc_moduleName (sv_cfg s))] w1
          in (None, s\<lparr>sv_listener := Some ln, sv_server := Some srv\<rparr>, Some (ln, srv), w2))"

definition server_goroutine ::
  "('h, 'bc, 'w) net_ops \<Rightarrow> (goerr \<Rightarrow> string) \<Rightarrow> ('h, 'w, 'bc) server \<Rightarrow> ('h, 'bc) serve_go \<Rightarrow> 'w \<Rightarrow> 'w" where
  "server_goroutine N errText s g w =
     (case net_Serve N (fst g) (snd g) w of
        (None, w1) \<Rightarrow> w1
      | (Some err, w1) \<Rightarrow>
          if \<not> errors_is err ErrServerClosed then
            srv_Log (sc_logger (sv_cfg s)) LevelError ''http serve error''
              [(''err'', errText err), (''module'', sc_moduleName (sv_cfg s))] w1
          else w1)"

definition server_stop ::
  "('h, 'bc, 'w) net_ops \<Rightarrow> gctx \<Rightarrow> ('h, 'w, 'bc) server \<Rightarrow> 'w \<Rightarrow> goerr option \<times> 'w" where
  "server_stop N ctx s w =
     (case sv_server s of
        None \<Rightarrow> (None, w)
      | Some srv \<Rightarrow> net_Shutdown N ctx (sc_shutdownTimeout (sv_cfg s)) srv w)"

text \<open>A bootstrap module: its name and its two hooks.\<close>

record ('h, 'bc, 'w) module_fn =
  mf_ModuleName :: string
  mf_StartFn :: "('h, 'w, 'bc) server \<Rightarrow> 'w \<Rightarrow>
    goerr option \<times> ('h, 'w, 'bc) server \<times> ('h, 'bc) serve_go option \<times> 'w"
  mf_StopFn :: "gctx \<Rightarrow> ('h, 'w, 'bc) server \<Rightarrow> 'w \<Rightarrow> goerr option \<times> 'w"

definition server_Module :: "('h, 'bc, 'w) net_ops \<Rightarrow> ('h, 'w, 'bc) server \<Rightarrow> ('h, 'bc, 'w) module_fn" where
  "server_Module N s = \<lparr>mf_ModuleName = sc_moduleName (sv_cfg s), mf_StartFn = server_start N, mf_StopFn = server_stop N\<rparr>"

definition http_Module ::
  "('h, 'bc, 'w) net_ops \<Rightarrow> string \<Rightarrow> 'h \<Rightarrow> ('w, 'bc) srv_opt list \<Rightarrow> ('h, 'bc, 'w) module_fn" where
  "http_Module N addr handler opts = server_Module N (server_New addr handler opts)"

text \<open>A module name is never empty, whatever the options.\<close>

lemma module_name_nonempty:
  fixes opts :: "('w, 'bc) srv_opt list"
  shows "sc_moduleName (fold srv_apply opts (srv_newConfig addr)) \<noteq> []"
proof -
  have "sc_moduleName (fold srv_apply opts c) \<noteq> []" if "sc_moduleName c \<noteq> []" for c :: "('w, 'bc) srv_config"
    using that
  proof (induction opts arbitrary: c)
    case (Cons x opts)
    have "sc_moduleName (srv_apply x c) \<noteq> []" using Cons.prems by (cases x) (auto split: option.split)
    then show ?case using Cons.IH by simp
  qed simp
  then show ?thesis by (simp add: srv_newConfig_def)
qed

text \<open>Without a logger option, or with nil ones only, the server logs nothing.\<close>

lemma default_logger_nop:
  assumes "\<forall>l. SrvLogger (Some l) \<notin> set opts"
  shows "sc_logger (fold srv_apply opts (srv_newConfig addr)) = NopLogger"
proof -
  have "sc_logger (fold srv_apply opts c) = sc_logger c" for c
    using assms
  proof (induction opts arbitrary: c)
    case (Cons x opts)
    have "sc_logger (srv_apply x c) = sc_logger c"
      using Cons.prems by (cases x) (auto split: option.split)
    then show ?case using Cons by auto
  qed simp
  then show ?thesis by (simp add: srv_newConfig_def)
qed

text \<open>
  Until a start has succeeded the server has no address, and stop returns nil without touching
  the network; a start that fails to listen changes nothing of the server and spawns nothing;
  after a start that succeeded the address is the resolved one, one goroutine serves the
  http.Server that start built, and stop shuts down exactly that one, within the configured timeout.
\<close>

lemma server_lifecycle:
  fixes s :: "('h, 'w, 'bc) server"
  assumes "s = server_New addr handler opts" and "server_start N s w = (e, s', g, w')"
  shows "server_Addr s = [] \<and> server_stop N ctx s w0 = (None, w0) \<and>
    (\<forall>err. e = Some err \<longrightarrow> s' = s \<and> g = None \<and> net_Listen N addr w = (Inl err, w')) \<and>
    (e = None \<longrightarrow> (\<exists>ln w1 srv. net_Listen N addr w = (Inr ln, w1) \<and> server_Addr s' = ln \<and>
       g = Some (ln, srv) \<and> hs_Handler srv = handler \<and>
       server_stop N ctx s' w0 = net_Shutdown N ctx (sc_shutdownTimeout (sv_cfg s)) srv w0))"
  using assms by (auto simp: server_New_def server_Addr_def server_stop_def server_start_def Let_def
      split: prod.splits sum.splits)

section \<open>The server in its application\<close>

text \<open>
  The module in an application that starts it once, may let it serve, and stops it: the hooks and
  the goroutine on one network, in any order the code allows. \<open>lg_lines\<close> is the log;
  the network is a \<open>net_ops\<close> on its own state, wrapped so that its calls leave the log alone.
\<close>

record 'n logged_net =
  lg_net :: 'n
  lg_lines :: "(log_level \<times> string \<times> log_fields) list"

definition list_logger :: "'n logged_net srv_logger" where
  "list_logger = PortLogger \<lparr>pl_Log = (\<lambda>l m f w. w\<lparr>lg_lines := lg_lines w @ [(l, m, f)]\<rparr>), pl_Enabled = (\<lambda>l. True)\<rparr>"

definition lift_net :: "('h, 'bc, 'n) net_ops \<Rightarrow> ('h, 'bc, 'n logged_net) net_ops" where
  "lift_net N = \<lparr>net_Listen = (\<lambda>a w. let (r, n) = net_Listen N a (lg_net w) in (r, w\<lparr>lg_net := n\<rparr>)),
     net_Serve = (\<lambda>a h w. let (r, n) = net_Serve N a h (lg_net w) in (r, w\<lparr>lg_net := n\<rparr>)),
     net_Shutdown = (\<lambda>c d h w. let (r, n) = net_Shutdown N c d h (lg_net w) in (r, w\<lparr>lg_net := n\<rparr>))\<rparr>"

record ('h, 'bc, 'n) http_app =
  ha_server :: "('h, 'n logged_net, 'bc) server"
  ha_world :: "'n logged_net"
  ha_started :: "goerr option option"
  ha_go :: "('h, 'bc) serve_go option"
  ha_served :: "goerr option option"

inductive http_app_step ::
  "('h, 'bc, 'n) net_ops \<Rightarrow> (goerr \<Rightarrow> string) \<Rightarrow> gctx \<Rightarrow> ('h, 'bc, 'n) http_app \<Rightarrow> ('h, 'bc, 'n) http_app \<Rightarrow> bool"
  for N :: "('h, 'bc, 'n) net_ops" and errText :: "goerr \<Rightarrow> string" and ctx :: gctx where
  ha_start: "ha_started a = None \<Longrightarrow> server_start (lift_net N) (ha_server a) (ha_world a) = (e, s, g, w) \<Longrightarrow>
     http_app_step N errText ctx a (a\<lparr>ha_server := s, ha_world := w, ha_started := Some e, ha_go := g\<rparr>)"
| ha_serve: "ha_go a = Some g \<Longrightarrow> fst (net_Serve N (fst g) (snd g) (lg_net (ha_world a))) = r \<Longrightarrow>
     http_app_step N errText ctx a (a\<lparr>ha_world := server_goroutine (lift_net N) errText (ha_server a) g (ha_world a),
        ha_go := None, ha_served := Some r\<rparr>)"
| ha_stop: "server_stop (lift_net N) ctx (ha_server a) (ha_world a) = (e, w) \<Longrightarrow>
     http_app_step N errText ctx a (a\<lparr>ha_world := w\<rparr>)"

definition http_app_New :: "string \<Rightarrow> 'h \<Rightarrow> ('n logged_net, 'bc) srv_opt list \<Rightarrow> 'n \<Rightarrow> ('h, 'bc, 'n) http_app" where
  "http_app_New addr handler opts n = \<lparr>ha_server = server_New addr handler opts,
     ha_world = \<lparr>lg_net = n, lg_lines = []\<rparr>, ha_started = None, ha_go = None, ha_served = None\<rparr>"

text \<open>The log that the state of the hooks and of the goroutine accounts for.\<close>

definition http_lines :: "(goerr \<Rightarrow> string) \<Rightarrow> string \<Rightarrow> ('h, 'bc, 'n) http_app \<Rightarrow> (log_level \<times> string \<times> log_fields) list" where
  "http_lines errText name a =
     (case sv_listener (ha_server a) of None \<Rightarrow> []
      | Some ln \<Rightarrow> [(LevelInfo, ''http listening'', [(''addr'', ln), (''module'', name)])]) @
     (case ha_served a of
        Some (Some err) \<Rightarrow> if errors_is err ErrServerClosed then []
          else [(LevelError, ''http serve error'', [(''err'', errText err), (''module'', name)])]
      | _ \<Rightarrow> [])"

text \<open>The http.Server that start builds from the configuration.\<close>

definition http_server_of :: "('w, 'bc) srv_config \<Rightarrow> 'h \<Rightarrow> ('h, 'bc) http_server" where
  "http_server_of cfg h = \<lparr>hs_Handler = h, hs_ReadHeaderTimeout = sc_readHeaderTimeout cfg,
     hs_BaseContext = sc_baseContext cfg\<rparr>"

definition http_app_ok ::
  "(goerr \<Rightarrow> string) \<Rightarrow> ('n logged_net, 'bc) srv_config \<Rightarrow> 'h \<Rightarrow> ('h, 'bc, 'n) http_app \<Rightarrow> bool" where
  "http_app_ok errText cfg h a \<longleftrightarrow> sv_cfg (ha_server a) = cfg \<and> sv_handler (ha_server a) = h \<and>
     (sc_logger cfg = list_logger \<longrightarrow> lg_lines (ha_world a) = http_lines errText (sc_moduleName cfg) a) \<and>
     (sc_logger cfg = NopLogger \<longrightarrow> lg_lines (ha_world a) = []) \<and>
     (ha_started a = Some None \<longleftrightarrow> sv_listener (ha_server a) \<noteq> None) \<and>
     sv_server (ha_server a) = map_option (\<lambda>ln. http_server_of cfg h) (sv_listener (ha_server a)) \<and>
     (ha_started a \<noteq> Some None \<longrightarrow> ha_go a = None \<and> ha_served a = None) \<and>
     (ha_started a = Some None \<longrightarrow>
        ha_go a = (if ha_served a = None
          then map_option (\<lambda>ln. (ln, http_server_of cfg h)) (sv_listener (ha_server a)) else None))"

lemma list_logger_Log [simp]: "lg_lines (srv_Log list_logger l m f w) = lg_lines w @ [(l, m, f)]"
  by (simp add: list_logger_def)

lemma http_lines_world [simp]: "http_lines errText name (a\<lparr>ha_world := w\<rparr>) = http_lines errText name a"
  by (simp add: http_lines_def split: option.split)

lemma http_app_step_ok:
  assumes "http_app_step N errText ctx a a'" and "http_app_ok errText cfg h a"
  shows "http_app_ok errText cfg h a'"
  using assms
proof (induction rule: http_app_step.induct)
  case (ha_start a e s g w)
  obtain r n where l: "net_Listen N (sv_configuredAddr (ha_server a)) (lg_net (ha_world a)) = (r, n)" by (metis surj_pair)
  show ?case
    using ha_start l
    by (cases r) (auto simp: http_app_ok_def http_lines_def server_start_def lift_net_def http_server_of_def Let_def)
next
  case (ha_serve a g r)
  obtain e n where "net_Serve N (fst g) (snd g) (lg_net (ha_world a)) = (e, n)" by (metis surj_pair)
  then show ?case
    using ha_serve
    by (cases e) (auto simp: http_app_ok_def http_lines_def server_goroutine_def lift_net_def Let_def
        split: option.splits if_splits)
next
  case (ha_stop a e w)
  have "lg_lines w = lg_lines (ha_world a)"
    using ha_stop(1) by (auto simp: server_stop_def lift_net_def Let_def split: option.splits prod.splits)
  then show ?case using ha_stop(2) by (auto simp: http_app_ok_def)
qed

lemma http_app_reachable_ok:
  assumes "(http_app_step N errText ctx)\<^sup>*\<^sup>* (http_app_New addr handler opts n) a"
  shows "http_app_ok errText (fold srv_apply opts (srv_newConfig addr)) handler a"
  using assms
proof (induction rule: rtranclp_induct)
  case base
  show ?case by (simp add: http_app_ok_def http_app_New_def server_New_def http_lines_def)
next
  case (step y z)
  show ?case by (rule http_app_step_ok [OF step(2,3)])
qed

text \<open>The lines of a log that report the start and a failed Serve.\<close>

definition serve_events :: "(log_level \<times> string \<times> log_fields) list \<Rightarrow> (log_level \<times> string \<times> log_fields) list" where
  "serve_events = filter (\<lambda>(l, msg, f). l = LevelError \<or> msg \<in> {''http listening'', ''http serve error''})"

lemma serve_events_lines [simp]: "serve_events (http_lines errText name a) = http_lines errText name a"
  by (auto simp: serve_events_def http_lines_def split: option.split)

text \<open>
  C26: The HTTP module in an application, for every order of start, stop (any number of times, also
  before start) and the end of Serve. Exactly when start returned nil there are a listener and the
  http.Server built from the configured handler, header timeout and base context, and one goroutine
  serves that server on that listener, once. Stop shuts down exactly that server, under the
  configured timeout, and before a successful start returns nil and does nothing. With a logger that
  records lines, the start, serve-error and error-level lines of the log are: one "http listening"
  line with the resolved address after such a start, then one "http serve error" line iff Serve
  ended with an error other than ErrServerClosed, so an orderly shutdown is not reported as an
  error; with the default logger nothing is logged. (What stop itself logs is left open: the option's
  comment promises shutdown events, which the code does not emit.)
\<close>

theorem http_module_serves_once:
  assumes "(http_app_step N errText ctx)\<^sup>*\<^sup>* (http_app_New addr handler opts n) a"
    and "cfg = fold srv_apply opts (srv_newConfig addr)"
  shows "(if ha_started a = Some None
      then \<exists>ln. sv_listener (ha_server a) = Some ln \<and> server_Addr (ha_server a) = ln \<and>
             sv_server (ha_server a) = Some (http_server_of cfg handler) \<and>
             ha_go a = (if ha_served a = None then Some (ln, http_server_of cfg handler) else None)
      else sv_listener (ha_server a) = None \<and> sv_server (ha_server a) = None \<and>
           ha_go a = None \<and> ha_served a = None) \<and>
    (\<forall>N' ctx' w. server_stop N' ctx' (ha_server a) w =
       (if ha_started a = Some None
        then net_Shutdown N' ctx' (sc_shutdownTimeout cfg) (http_server_of cfg handler) w else (None, w))) \<and>
    (sc_logger cfg = list_logger \<longrightarrow> serve_events (lg_lines (ha_world a)) = http_lines errText (sc_moduleName cfg) a) \<and>
    (sc_logger cfg = NopLogger \<longrightarrow> lg_lines (ha_world a) = [])"
  using http_app_reachable_ok [OF assms(1)] assms(2)
  by (auto simp: http_app_ok_def server_stop_def server_Addr_def)

text \<open>A server that starts, is stopped, and whose Serve then ends with ErrServerClosed.\<close>

theorem http_module_serves_once_witness:
  "let N = \<lparr>net_Listen = (\<lambda>a n. (Inr ''127.0.0.1:8080'', n)), net_Serve = (\<lambda>a h n. (Some ErrServerClosed, n)),
            net_Shutdown = (\<lambda>c d h n. (None, n))\<rparr> :: (unit, unit, unit) net_ops
   in \<exists>a. (http_app_step N (\<lambda>e. ''error'') background)\<^sup>*\<^sup>* (http_app_New '':8080'' () [SrvLogger (Some list_logger)] ()) a \<and>
        ha_served a = Some (Some ErrServerClosed) \<and>
        serve_events (lg_lines (ha_world a)) = [(LevelInfo, ''http listening'', [(''addr'', ''127.0.0.1:8080''), (''module'', ''http::8080'')])]"
proof -
  let ?N = "\<lparr>net_Listen = (\<lambda>a n. (Inr ''127.0.0.1:8080'', n)), net_Serve = (\<lambda>a h n. (Some ErrServerClosed, n)),
            net_Shutdown = (\<lambda>c d h n. (None, n))\<rparr> :: (unit, unit, unit) net_ops"
  let ?step = "http_app_step ?N (\<lambda>e. ''error'') background"
  let ?a0 = "http_app_New '':8080'' () [SrvLogger (Some list_logger)] () :: (unit, unit, unit) http_app"
  obtain e s g w where st: "server_start (lift_net ?N) (ha_server ?a0) (ha_world ?a0) = (e, s, g, w)" by (metis prod_cases4)
  let ?a1 = "?a0\<lparr>ha_server := s, ha_world := w, ha_started := Some e, ha_go := g\<rparr>"
  have s: "sv_listener s = Some ''127.0.0.1:8080''" and g: "g \<noteq> None"
    using st by (auto simp: server_start_def lift_net_def Let_def)
  have "ha_started ?a0 = None" by (simp add: http_app_New_def)
  then have 1: "?step ?a0 ?a1" by (rule ha_start [OF _ st])
  obtain e2 w2 where stop: "server_stop (lift_net ?N) background (ha_server ?a1) (ha_world ?a1) = (e2, w2)" by (metis surj_pair)
  let ?a2 = "?a1\<lparr>ha_world := w2\<rparr>"
  have 2: "?step ?a1 ?a2" by (rule ha_stop [OF stop])
  obtain go where go: "ha_go ?a2 = Some go" using g by auto
  obtain w3 where 3: "?step ?a2 (?a2\<lparr>ha_world := w3, ha_go := None, ha_served := Some (Some ErrServerClosed)\<rparr>)"
    using ha_serve [OF go, of ?N "Some ErrServerClosed" "\<lambda>e. ''error''" background] by auto
  let ?a3 = "?a2\<lparr>ha_world := w3, ha_go := None, ha_served := Some (Some ErrServerClosed)\<rparr>"
  have run: "?step\<^sup>*\<^sup>* ?a0 ?a3" using 1 2 3 by (meson r_into_rtranclp rtranclp.rtrancl_into_rtrancl)
  have closed: "errors_is ErrServerClosed ErrServerClosed" by (simp add: ErrServerClosed_def)
  have "serve_events (lg_lines (ha_world ?a3)) = [(LevelInfo, ''http listening'', [(''addr'', ''127.0.0.1:8080''), (''module'', ''http::8080'')])]"
    using http_module_serves_once [OF run refl] s closed
    by (simp add: http_lines_def srv_newConfig_def)
  with run show ?thesis unfolding Let_def by (intro exI [of _ ?a3]) simp
qed

section \<open>The client\<close>

definition ErrNegativeTimeout :: goerr where
  "ErrNegativeTimeout = ErrxNew CodeInvalidArgument ''stdhttp: negative timeout''"
definition ErrNilTransport :: goerr where
  "ErrNilTransport = ErrxNew CodeInvalidArgument ''stdhttp: nil transport''"
definition ErrNilTracerProvider :: goerr where
  "ErrNilTracerProvider = ErrxNew CodeInvalidArgument ''stdhttp: nil tracer provider''"

record ('t, 'p) hc_config =
  hc_timeout :: duration
  hc_transport :: "'t option"
  hc_transportSet :: bool
  hc_tracerProvider :: "'p option"
  hc_tracingSet :: bool

datatype ('t, 'p) hc_opt = HcTimeout duration | HcTransport "'t option" | HcTracing "'p option"

fun hc_apply :: "('t, 'p) hc_opt \<Rightarrow> ('t, 'p) hc_config \<Rightarrow> ('t, 'p) hc_config" where
  "hc_apply (HcTimeout d) c = c\<lparr>hc_timeout := d\<rparr>"
| "hc_apply (HcTransport rt) c = c\<lparr>hc_transport := rt, hc_transportSet := True\<rparr>"
| "hc_apply (HcTracing tp) c = c\<lparr>hc_tracerProvider := tp, hc_tracingSet := True\<rparr>"

text \<open>The underlying http.Client: its timeout and its transport, nil for the default one.\<close>

record 't http_client =
  cl_Timeout :: duration
  cl_Transport :: "'t option"

definition hc_New ::
  "'t \<Rightarrow> ('t \<Rightarrow> 'p \<Rightarrow> 't) \<Rightarrow> ('t, 'p) hc_opt list \<Rightarrow> goerr + 't http_client" where
  "hc_New defaultTransport otelTransport opts =
     (let cfg = fold hc_apply opts
            \<lparr>hc_timeout = 0, hc_transport = None, hc_transportSet = False, hc_tracerProvider = None, hc_tracingSet = False\<rparr>
      in if hc_timeout cfg < 0 then Inl ErrNegativeTimeout
         else if hc_transportSet cfg \<and> hc_transport cfg = None then Inl ErrNilTransport
         else if hc_tracingSet cfg \<and> hc_tracerProvider cfg = None then Inl ErrNilTracerProvider
         else let transport =
                    (if hc_tracingSet cfg then
                       let base = (case hc_transport cfg of Some t \<Rightarrow> t | None \<Rightarrow> defaultTransport)
                       in (case hc_tracerProvider cfg of Some tp \<Rightarrow> Some (otelTransport base tp) | None \<Rightarrow> Some base)
                     else hc_transport cfg)
              in Inr \<lparr>cl_Timeout = hc_timeout cfg, cl_Transport = transport\<rparr>)"

text \<open>Do forwards the request to net/http; the contextual view replaces its context first.\<close>

definition hc_Do :: "('t http_client \<Rightarrow> gctx \<Rightarrow> 'q \<Rightarrow> 'w \<Rightarrow> 'r \<times> 'w) \<Rightarrow> 't http_client \<Rightarrow> gctx \<times> 'q \<Rightarrow> 'w \<Rightarrow> 'r \<times> 'w" where
  "hc_Do netDo c req w = netDo c (fst req) (snd req) w"

definition contextual_Do ::
  "('t http_client \<Rightarrow> gctx \<Rightarrow> 'q \<Rightarrow> 'w \<Rightarrow> 'r \<times> 'w) \<Rightarrow> 't http_client \<Rightarrow> gctx \<Rightarrow> gctx \<times> 'q \<Rightarrow> 'w \<Rightarrow> 'r \<times> 'w" where
  "contextual_Do netDo c ctx req w = hc_Do netDo c (ctx, snd req) w"

text \<open>
  Without options the client is the zero http.Client; tracing never replaces the transport, it
  wraps the one configured, or the default one; the outcome does not depend on whether the
  transport or the tracing option comes first.
\<close>

lemma hc_New_default: "hc_New dt ot [] = Inr \<lparr>cl_Timeout = 0, cl_Transport = None\<rparr>"
  by (simp add: hc_New_def)

lemma hc_New_tracing:
  "hc_New dt ot [HcTracing (Some tp)] = Inr \<lparr>cl_Timeout = 0, cl_Transport = Some (ot dt tp)\<rparr>"
  "hc_New dt ot [HcTransport (Some t), HcTracing (Some tp)] = Inr \<lparr>cl_Timeout = 0, cl_Transport = Some (ot t tp)\<rparr>"
  "hc_New dt ot [HcTracing (Some tp), HcTransport (Some t)] = Inr \<lparr>cl_Timeout = 0, cl_Transport = Some (ot t tp)\<rparr>"
  by (simp_all add: hc_New_def)

end
