(* ===== verification/Relay_Module.thy ===== *)
theory Relay_Module
  imports Outbox_Relay
begin

text \<open>
  The bootstrap module of the relay (\<^verbatim>\<open>eventbus/outbox/module.go\<close>): StartFn spawns one goroutine that
  runs \<^verbatim>\<open>Relay.Run\<close> in a context of its own, StopFn cancels that context and waits for Run to
  return or for its own context to end. The steps are those of the two hooks and of the
  goroutine, in any interleaving; each round of Run is a step of \<open>relay_loop\<close>.
\<close>

section \<open>The module\<close>

datatype run_state = RunNotStarted | RunLooping | RunExited | RunCrashed string

datatype stop_state = StopNotCalled | StopWaiting | StopReturned "goerr option"

text \<open>
  \<open>rm_cancel\<close> says whether StartFn has set \<^verbatim>\<open>cancel\<close>, \<open>rm_logged\<close> collects the errors of Run that were
  logged, and \<open>rm_drains\<close> counts the drains made.
\<close>

record ('s, 'w) relay_module =
  rm_cancel :: bool
  rm_cancelled :: bool
  rm_run :: run_state
  rm_stop :: stop_state
  rm_world :: "'s \<times> 'w"
  rm_logged :: "goerr list"
  rm_drains :: nat

definition new_relay_module :: "'s \<times> 'w \<Rightarrow> ('s, 'w) relay_module" where
  "new_relay_module g = \<lparr>rm_cancel = False, rm_cancelled = False, rm_run = RunNotStarted, rm_stop = StopNotCalled,
     rm_world = g, rm_logged = [], rm_drains = 0\<rparr>"

text \<open>The tail of the goroutine: a Run error other than a cancellation is logged.\<close>

definition log_run_error :: "goerr \<Rightarrow> goerr list \<Rightarrow> goerr list" where
  "log_run_error err logged = (if \<not> errors_is err CtxCanceled then logged @ [err] else logged)"

inductive relay_module_step ::
  "('s, 'w, 'b) relay \<Rightarrow> gctx \<Rightarrow> ('s, 'w) relay_module \<Rightarrow> ('s, 'w) relay_module \<Rightarrow> bool"
  for r :: "('s, 'w, 'b) relay" and ctx :: gctx where
  rm_start: "\<lbrakk>\<not> rm_cancel m; rm_stop m = StopNotCalled; fst (relay_Run r ctx [] False (rm_world m)) = Waiting\<rbrakk> \<Longrightarrow>
     relay_module_step r ctx m (m\<lparr>rm_cancel := True, rm_run := RunLooping\<rparr>)"
| rm_start_crash: "\<lbrakk>\<not> rm_cancel m; rm_stop m = StopNotCalled; fst (relay_Run r ctx [] False (rm_world m)) = Panicked p\<rbrakk> \<Longrightarrow>
     relay_module_step r ctx m (m\<lparr>rm_cancel := True, rm_run := RunCrashed p\<rparr>)"
| rm_tick: "\<lbrakk>rm_run m = RunLooping; relay_loop r ctx [TickerFired] (rm_world m) = (Waiting, g')\<rbrakk> \<Longrightarrow>
     relay_module_step r ctx m (m\<lparr>rm_world := g', rm_drains := Suc (rm_drains m)\<rparr>)"
| rm_tick_crash: "\<lbrakk>rm_run m = RunLooping; relay_loop r ctx [TickerFired] (rm_world m) = (Panicked p, g')\<rbrakk> \<Longrightarrow>
     relay_module_step r ctx m (m\<lparr>rm_world := g', rm_run := RunCrashed p\<rparr>)"
| rm_return: "\<lbrakk>rm_run m = RunLooping; rm_cancelled m; relay_loop r ctx [CtxDone CtxCanceled] (rm_world m) = (Returned err, g')\<rbrakk> \<Longrightarrow>
     relay_module_step r ctx m (m\<lparr>rm_world := g', rm_run := RunExited, rm_logged := log_run_error err (rm_logged m)\<rparr>)"
| rm_stop_fresh: "\<lbrakk>rm_stop m = StopNotCalled; \<not> rm_cancel m\<rbrakk> \<Longrightarrow>
     relay_module_step r ctx m (m\<lparr>rm_stop := StopReturned None\<rparr>)"
| rm_stop_call: "\<lbrakk>rm_stop m = StopNotCalled; rm_cancel m; \<forall>p. rm_run m \<noteq> RunCrashed p\<rbrakk> \<Longrightarrow>
     relay_module_step r ctx m (m\<lparr>rm_stop := StopWaiting, rm_cancelled := True\<rparr>)"
| rm_stop_done: "\<lbrakk>rm_stop m = StopWaiting; rm_run m = RunExited\<rbrakk> \<Longrightarrow>
     relay_module_step r ctx m (m\<lparr>rm_stop := StopReturned None\<rparr>)"
| rm_stop_timeout: "\<lbrakk>rm_stop m = StopWaiting; \<forall>p. rm_run m \<noteq> RunCrashed p\<rbrakk> \<Longrightarrow>
     relay_module_step r ctx m (m\<lparr>rm_stop := StopReturned (Some (Errorf ''outbox relay drain'' [err]))\<rparr>)"

text \<open>\<open>n\<close> rounds of the loop, as \<^verbatim>\<open>Run\<close> makes them.\<close>

definition drained_n :: "('s, 'w, 'b) relay \<Rightarrow> gctx \<Rightarrow> nat \<Rightarrow> 's \<times> 'w \<Rightarrow> 's \<times> 'w" where
  "drained_n r ctx n g = snd (relay_loop r ctx (replicate n TickerFired) g)"

lemma relay_loop_append:
  "relay_loop r ctx evs g = (Waiting, g1) \<Longrightarrow> relay_loop r ctx (evs @ rest) g = relay_loop r ctx rest g1"
  by (induction r ctx evs g rule: relay_loop.induct) (auto split: outcome.splits option.splits prod.splits)

lemma relay_loop_waits:
  assumes "guarded r"
  shows "fst (relay_loop r ctx (replicate n TickerFired) g) = Waiting"
proof (induction n arbitrary: g)
  case (Suc n)
  obtain de s w where "drainOnce r ctx g = (Ret de, (s, w))"
    using drainOnce_returns [OF assms] by (metis surj_pair)
  then show ?case using Suc by (cases de) auto
qed simp

lemma drained_Suc:
  assumes "guarded r" "relay_loop r ctx [TickerFired] (drained_n r ctx n g) = (res, g')"
  shows "res = Waiting \<and> g' = drained_n r ctx (Suc n) g"
proof -
  have w: "relay_loop r ctx (replicate n TickerFired) g = (Waiting, drained_n r ctx n g)"
    using relay_loop_waits [OF assms(1), of ctx n g] by (simp add: drained_n_def prod_eq_iff)
  from relay_loop_append [OF this, of "[TickerFired]"] assms(2)
  have "relay_loop r ctx (replicate (Suc n) TickerFired) g = (res, g')" by (simp add: replicate_append_same)
  with relay_loop_waits [OF assms(1), of ctx "Suc n" g] show ?thesis by (simp add: drained_n_def)
qed

definition rm_ok :: "('s, 'w, 'b) relay \<Rightarrow> gctx \<Rightarrow> 's \<times> 'w \<Rightarrow> ('s, 'w) relay_module \<Rightarrow> bool" where
  "rm_ok r ctx g m \<longleftrightarrow>
     rm_world m = drained_n r ctx (rm_drains m) g \<and> rm_logged m = [] \<and> (\<forall>p. rm_run m \<noteq> RunCrashed p) \<and>
     (rm_cancel m \<longleftrightarrow> rm_run m \<noteq> RunNotStarted) \<and> (rm_run m = RunNotStarted \<longrightarrow> rm_drains m = 0) \<and>
     (rm_run m = RunExited \<longrightarrow> rm_cancelled m) \<and> (rm_stop m = StopWaiting \<longrightarrow> rm_cancelled m \<and> rm_cancel m) \<and>
     (rm_cancelled m \<longrightarrow> rm_stop m \<noteq> StopNotCalled) \<and>
     (rm_stop m = StopReturned None \<longrightarrow> rm_run m = RunExited \<or> rm_run m = RunNotStarted)"

lemma rm_step_ok:
  assumes "relay_module_step r ctx m m'" "rm_ok r ctx g m" "guarded r" "0 < rl_pollInterval r"
  shows "rm_ok r ctx g m'"
  using assms
proof (induction rule: relay_module_step.induct)
  case (rm_start_crash m p)
  then show ?case by (simp add: relay_Run_def)
next
  case (rm_tick m g')
  have "g' = drained_n r ctx (Suc (rm_drains m)) g"
    using drained_Suc [OF rm_tick(4), of ctx "rm_drains m" g] rm_tick(2,3) by (simp add: rm_ok_def)
  with rm_tick show ?case by (simp add: rm_ok_def)
next
  case (rm_tick_crash m p g')
  then show ?case using drained_Suc [OF rm_tick_crash(4), of ctx "rm_drains m" g "Panicked p" g'] by (simp add: rm_ok_def)
next
  case (rm_return m err g')
  then show ?case by (auto simp: rm_ok_def log_run_error_def)
qed (auto simp: rm_ok_def)

lemma rm_reachable_ok:
  assumes "(relay_module_step r ctx)\<^sup>*\<^sup>* (new_relay_module g) m" "guarded r" "0 < rl_pollInterval r"
  shows "rm_ok r ctx g m"
  using assms(1)
proof (induction rule: rtranclp_induct)
  case base
  then show ?case by (simp add: rm_ok_def new_relay_module_def drained_n_def)
qed (use rm_step_ok assms(2,3) in blast)

text \<open>
  C25: Stopping the relay is clean. For a relay from NewRelay with a positive poll interval, in
  every interleaving of the hooks with the goroutine: the process never crashes and Run's
  return is never logged as an error; the store has seen exactly the drains of so many ticks
  of Run; once Stop has returned nil, Run has returned (or was never started) and makes no
  further drain; and a waiting Stop can always be served, by Run returning and Stop
  returning nil, without another drain.
\<close>

theorem relay_module_clean_stop:
  assumes "NewRelay rnd now errtext cfg opts = Inr r" and "\<forall>opt \<in> set opts. relay_option_ok opt"
    and "\<forall>f. WithBackoff f \<in> set opts \<longrightarrow> backoff_returns f" and "0 < rl_pollInterval r"
    and "(relay_module_step r ctx)\<^sup>*\<^sup>* (new_relay_module g) m"
  shows "rm_logged m = [] \<and> (\<forall>p. rm_run m \<noteq> RunCrashed p) \<and>
    rm_world m = snd (relay_loop r ctx (replicate (rm_drains m) TickerFired) g) \<and>
    (rm_stop m = StopReturned None \<longrightarrow> rm_run m \<in> {RunExited, RunNotStarted} \<and>
       (\<forall>m'. relay_module_step r ctx m m' \<longrightarrow> rm_world m' = rm_world m)) \<and>
    (rm_stop m = StopWaiting \<longrightarrow>
       (\<exists>m'. (relay_module_step r ctx)\<^sup>*\<^sup>* m m' \<and> rm_stop m' = StopReturned None \<and> rm_world m' = rm_world m))"
proof -
  have guard: "guarded r" by (rule NewRelay_guarded [OF assms(1-3)])
  have ok: "rm_ok r ctx g m" by (rule rm_reachable_ok [OF assms(5) guard assms(4)])
  have quiet: "rm_world m' = rm_world m" if "rm_stop m = StopReturned None" "relay_module_step r ctx m m'" for m'
    using that(2) ok that(1) by (cases rule: relay_module_step.cases) (auto simp: rm_ok_def)
  have served: "\<exists>m'. (relay_module_step r ctx)\<^sup>*\<^sup>* m m' \<and> rm_stop m' = StopReturned None \<and> rm_world m' = rm_world m"
    if wait: "rm_stop m = StopWaiting"
  proof (cases "rm_run m")
    case RunLooping
    let ?m1 = "m\<lparr>rm_world := rm_world m, rm_run := RunExited, rm_logged := log_run_error CtxCanceled (rm_logged m)\<rparr>"
    have "relay_module_step r ctx m ?m1"
      by (rule rm_return [OF RunLooping]) (use ok wait in \<open>auto simp: rm_ok_def\<close>)
    moreover have "relay_module_step r ctx ?m1 (?m1\<lparr>rm_stop := StopReturned None\<rparr>)"
      by (rule rm_stop_done) (simp_all add: wait)
    ultimately show ?thesis by (intro exI [of _ "?m1\<lparr>rm_stop := StopReturned None\<rparr>"]) auto
  next
    case RunExited
    from rm_stop_done [OF wait this] show ?thesis by (intro exI [of _ "m\<lparr>rm_stop := StopReturned None\<rparr>"]) auto
  qed (use ok wait in \<open>auto simp: rm_ok_def\<close>)
  show ?thesis using ok quiet served by (auto simp: rm_ok_def drained_n_def)
qed

theorem relay_module_clean_stop_witness:
  "\<exists>m. (relay_module_step example_relay background)\<^sup>*\<^sup>* (new_relay_module (example_poisoned, [])) m \<and>
     rm_stop m = StopReturned None \<and> rm_run m = RunExited"
proof -
  let ?step = "relay_module_step example_relay background"
  let ?m0 = "new_relay_module (example_poisoned, []) :: (unit memory, example_world) relay_module"
  let ?m1 = "?m0\<lparr>rm_cancel := True, rm_run := RunLooping\<rparr>"
  let ?m2 = "?m1\<lparr>rm_stop := StopWaiting, rm_cancelled := True\<rparr>"
  have pos: "0 < rl_pollInterval example_relay" by (simp add: example_relay_def second_def)
  have "?step ?m0 ?m1" by (rule rm_start) (use pos in \<open>simp_all add: new_relay_module_def relay_Run_def\<close>)
  moreover have "?step ?m1 ?m2" by (rule rm_stop_call) (simp_all add: new_relay_module_def)
  ultimately have reach: "?step\<^sup>*\<^sup>* ?m0 ?m2" by (meson rtranclp.rtrancl_into_rtrancl rtranclp.rtrancl_refl)
  note clean = relay_module_clean_stop [OF example_relay_new example_relay_opts example_relay_no_backoff pos]
  obtain m where m: "?step\<^sup>*\<^sup>* ?m2 m" "rm_stop m = StopReturned None" using clean [OF reach] by auto
  with reach have r: "?step\<^sup>*\<^sup>* ?m0 m" by simp
  have "rm_cancel m" using m(1)
  proof (induction rule: rtranclp_induct)
    case (step y z)
    then show ?case by (auto elim: relay_module_step.cases)
  qed simp
  moreover have "rm_ok example_relay background (example_poisoned, []) m"
    by (rule rm_reachable_ok [OF r example_relay_guarded pos])
  ultimately have "rm_run m \<noteq> RunNotStarted" by (simp add: rm_ok_def)
  with clean [OF r] m(2) r show ?thesis by auto
qed

end
