(* ===== verification/Spec2Isabelle.thy ===== *)
theory Spec2Isabelle
  imports Prelude Memory_Outbox Outbox_Relay Pgx_Outbox_Props Tx_Manager Memory_Inbox Redis_Cache Rate_Limit
    Idempotency Kafka_Codec Kafka_Consumer Jwt Authmw Casbin Orders_Domain Orders_App Orders_Service Orders_Main
    Orders_Flow Relay_Step Relay_Fleet Relay_Delivery Store_Delivery Pgx_Schema Bootstrap Telemetry Jobs Health Http_Server Relay_Module
begin

text \<open>
  Verification of go-ddd-adapters, the adapters of a Go toolkit for domain-driven services: event
  bus, outbox and inbox, Kafka, Postgres transactions, Redis cache, rate limiter and idempotency
  store, JWT and Casbin, HTTP server, client and health endpoints, job queue, logging and tracing,
  and the example order service that is wired from them. File names are relative to \<^verbatim>\<open>src\<close>.

  \<^bold>\<open>How the parts work together.\<close> A command handler saves an aggregate and stages its events in one
  transaction (transaction manager, repository, Postgres outbox). A relay polls the outbox,
  publishes each record through the Kafka publisher and marks it sent, defers it, or puts it
  among the dead letters. Consumers decode messages from Kafka, run a handler per message and Ack
  or Nack it. Around this core stand the adapters for HTTP, authentication, caching, rate
  limiting, idempotency and background jobs.

  \<^bold>\<open>Theories and sources.\<close>
  \<^item> \<open>Prelude\<close>: the Go runtime as far as the adapters use it (strings and bytes, decimal formatting,
    durations, wrapped errors and \<^verbatim>\<open>errors.Is\<close>, panics as values of \<open>outcome\<close>, contexts).
  \<^item> \<open>Eventbus\<close>, \<open>Outbox_Store\<close>: events, messages, outbox records, and the contract of an outbox store
    as the locale \<open>outbox_store\<close>.
  \<^item> \<open>Memory_Outbox\<close>: \<^verbatim>\<open>eventbus/outbox/memory.go\<close>. The record \<open>memory\<close> is the struct; each method is one step.
  \<^item> \<open>Relay\<close>, \<open>Outbox_Relay\<close>, \<open>Relay_Module\<close>: \<^verbatim>\<open>eventbus/outbox/relay.go\<close> and \<^verbatim>\<open>module.go\<close>. The relay is written over
    the operations of any store; the locale \<open>relayed_store\<close> proves once what a cycle, a drain and a Run do
    to the rows, and is interpreted on the in-process store (\<open>mem_relay\<close>) and on Postgres (\<open>pgx_relay\<close>).
  \<^item> \<open>Relay_Step\<close>, \<open>Relay_Fleet\<close>: the same relay with one call on the store or the publisher per step (a lemma ties it
    to \<open>drainOnce\<close>; it is the machinery of the fleet, not a property of its own), and any number of such relays on one store. The locale \<open>fleet_store\<close>, over the
    contract \<open>outbox_store\<close>, proves once what a step of a worker, a crash and a commit keep; the relation \<open>fleet_step\<close> interleaves the steps of the workers, their
    crashes and the transactions of clients on the Postgres tables (interpretation \<open>pgx_fleet\<close>).
  \<^item> \<open>Relay_Delivery\<close>, \<open>Store_Delivery\<close>: what the relay achieves when nothing fails. The locale \<open>delivering_store\<close>
    asks of a store that a batch of its backlog can be fetched and marked sent; from it a drain and a Run publish the
    backlog in order and empty it. Both stores are interpretations (\<open>mem_delivery\<close>, \<open>pgx_delivery\<close>).
  \<^item> \<open>Tx_Manager\<close>: \<^verbatim>\<open>ports/database/pgx\<close>. A transaction works on its own copy of the contents until it commits.
  \<^item> \<open>Pgx_Outbox\<close>, \<open>Pgx_Outbox_Props\<close>: \<^verbatim>\<open>eventbus/outbox/pgx\<close> with the SQL of \<^verbatim>\<open>sql.go\<close> on the two tables; the
    environment \<open>pg_env\<close> decides UUIDs, clock readings, row locks, failing statements and failing row scans. \<open>Pgx_Schema\<close>: the
    well-formedness of the tables, kept by every operation.
  \<^item> \<open>Bootstrap\<close>: the shape of a module of the core's application life cycle (a name and its hooks), which
    the modules of the adapters and of the order service fill in.
  \<^item> \<open>Memory_Inbox\<close>: \<^verbatim>\<open>eventbus/inbox/memory.go\<close>, with its insertion sort and any map iteration order.
  \<^item> \<open>Backend\<close>, \<open>Redis_Cache\<close>, \<open>Rate_Limit\<close>, \<open>Idempotency\<close>, \<open>Jobs\<close>: \<^verbatim>\<open>cache/redis\<close>, \<^verbatim>\<open>ratelimit/redisrate\<close>,
    \<^verbatim>\<open>idempotency/redis\<close> with its three Lua scripts on an explicit keyspace, \<^verbatim>\<open>jobs/asynq\<close>. The locale
    \<open>key_codec\<close> is the contract of their length-prefixed keys.
  \<^item> \<open>Kafka_Codec\<close>, \<open>Kafka_Consumer\<close>: \<^verbatim>\<open>eventbus/kafka\<close>. The consuming goroutines and the start and stop hooks
    are step relations, so every interleaving is covered.
  \<^item> \<open>Auth_Core\<close>, \<open>Jwt\<close>, \<open>Authmw\<close>, \<open>Casbin\<close>: \<^verbatim>\<open>auth/jwt\<close>, \<^verbatim>\<open>transport/http/stdlib/authmw\<close>, \<^verbatim>\<open>auth/casbin\<close>. The
    locale \<open>token_verifier\<close> is the interface between the middleware and a verifier.
  \<^item> \<open>Health\<close>, \<open>Http_Server\<close>, \<open>Telemetry\<close>: \<^verbatim>\<open>transport/http/stdlib\<close>, \<^verbatim>\<open>httpclient/std\<close>, \<^verbatim>\<open>logger/slogger\<close> (locale
    \<open>slog_sink\<close> for a slog handler), \<^verbatim>\<open>observability/otel\<close>. The HTTP module's start and stop hooks and the
    goroutine that serves are the steps of \<open>http_app_step\<close>, with the lines they log.
  \<^item> \<open>Orders_Domain\<close>, \<open>Orders_App\<close>, \<open>Orders_Service\<close>, \<open>Orders_Main\<close>, \<open>Orders_Flow\<close>: \<^verbatim>\<open>examples/orders\<close>, from the
    aggregate and its read model over the repository and the command handlers to the routes and the
    wiring of the four binaries, with the lemmas on their interplay.
  \<^item> This theory: the properties that span the binaries.

  \<^bold>\<open>Conventions.\<close> A struct is a record, an error result is \<open>goerr + 'a\<close> or \<open>goerr option\<close>, a panic is \<open>Panic\<close>. An
  operation on state takes and returns it. Concurrency that a mutex or one SQL statement or one
  Lua script makes atomic is one step; goroutines that interleave are inductive step relations.
  64-bit sums that can wrap (order totals, the backoff shift) are machine words; counters that grow by
  one per operation (attempts, versions) are integers, and the INTEGER column of attempts is bounded in \<open>Pgx_Schema\<close>.

  \<^bold>\<open>What is shown.\<close>
  \<^item> No event is lost: in one drain and in whole runs of the relay on both stores, whatever fails or
    panics; for a fleet of relays whose steps interleave and that crash anywhere; end to end from the
    API's answer to the broker, for one relay binary and for many; a poison record is dead-lettered once
    its budget is used (up to the one failure on which comment and code of WithMaxAttempts differ), and none before.
  \<^item> Events arrive: on working tables, with a publisher that accepts them, a Run publishes every row
    once, in order, in as many ticks as batches are needed; so an order the API has accepted reaches the
    broker and, once the reader receives it, is what the reader answers with.
  \<^item> Atomicity: WithinTx is all or nothing, Stage is part of the caller's transaction, placing and
    shipping are atomic with their events, updates are not lost, and a redelivered event ships once.
  \<^item> Exclusive claims: a lease of the Postgres outbox or of the idempotency store is held by one
    worker, and a stale holder never writes; the outbox tables stay well formed. The idempotency store refines a state machine per key.
  \<^item> Consumers settle each message once, in order, and a clean stop is a drained stop, which can
    always be reached because the hooks cancel the context. The HTTP module serves its configured server
    once, shuts down that server, and reports its start and every failure of Serve but no orderly shutdown as an error.
  \<^item> Authentication: an identity comes only from a genuine token, which the options that New passes to the
    parser enforce one by one; the middleware answers a rejected request without its handler taking any part,
    and the verifier does not depend on the order of its options.
  \<^item> Round trips of the codec, of record ids, keys and propagation ids; bounds of the backoff; error
    codes and the contracts of limiter, queue, health registry, inbox, cache and authorizer; the inbox's
    in-place insertion sort is the library's stable sort and its eviction keeps the later half.

  \<^bold>\<open>Bounds and loops.\<close> The relay's Run takes the finite list of choices its select makes and is
  \<open>Waiting\<close> when they are used up; statements hold for every list, and that Run returns is proved for
  every number of ticks followed by the end of the context. \<open>worker_Run\<close> of the job queue is \<open>None\<close> for a
  Run that has not returned. All other functions are total, with no fuel.

  \<^bold>\<open>Parameters.\<close> Code outside \<^verbatim>\<open>src\<close> is a parameter with named hypotheses on what it documents:
  \<open>tx_laws\<close> (pgx transactions), \<open>redis_laws\<close> (go-redis commands), \<open>gcra_laws\<close> (redis_rate), \<open>jwt_lib_ok\<close> (golang-jwt),
  \<open>auth_lib_ok\<close>, \<open>identity_ctx_ok\<close>, \<open>render_ok\<close>, \<open>core_ok\<close>, \<open>lib_ok\<close> (the core library's sentinels, identity context,
  error rendering, versions, header names), \<open>items_ok\<close>, \<open>json_survives\<close>, \<open>headers_survive\<close> (JSON and JSONB), \<open>observes\<close>
  and \<open>keeps_broker\<close> (what the publisher accepted stays accepted). The properties on delivery are about
  working days: \<open>pg_ready\<close> (no statement and no scan of a row fails, no row is locked by another session, all rows are due and
  unclaimed) and \<open>accepts\<close> (the codec decodes a record and the publisher takes it). Each is shown satisfiable by a
  concrete instance in the witness of the property that uses it.

  \<^bold>\<open>Not modelled.\<close> The SQL migrations are embedded files; their tables are the records of the stores and
  their constraints the predicates of \<open>Pgx_Schema\<close>. The container helpers under \<^verbatim>\<open>internal\<close> start test databases.
  Interface and option-type declarations, compile-time interface checks, constructors that only fill a
  struct and package documentation have no behaviour of their own. Log lines are part of the results of the
  relay, the consumers, the modules and the order service, except for the stack of a
  recovered panic. The context that Marshal attaches to a message (\<^verbatim>\<open>msg.SetContext\<close>) never leaves the process
  and is not a field of the message. The core's bootstrap and buses and the broker, database and Redis clients
  are not in the repository.
\<close>

section \<open>From the request to the broker\<close>

text \<open>
  C2: An order the API has answered 201 for is never lost on its way to the broker. However long
  the relay binary runs afterwards, whatever statements of the database fail, and whatever
  the broker client does: the OrderPlaced of that order, under the event id drawn for it, is
  still a row of the outbox, or a dead letter, or the broker has a message on the topic
  orders.placed with that id that decodes to exactly this event: the order's id, its customer and
  the total of the answer. (JSON decodes what it encoded for this event, the headers survive the
  JSONB column, row ids are distinct.)
\<close>

theorem placed_order_reaches_broker:
  assumes "tx_laws (tm_pool m)" and "lib_ok CL" and "ps_codec s = json_codec CL eventcodec_New"
    and "headers_survive env (ps_codec s)"
    and api: "api_post_orders K errText (place_Handle K (pgx_deps K L env s m topicPlaced) newID) fresh rctx
            (Inr (oid, customerID, items)) w = (Created i tot, logs, w')"
    and json: "\<forall>v b. json_Marshal CL (NewOrderPlaced K newID i v customerID tot) = Inr b \<longrightarrow>
            json_Unmarshal CL b NewPlaced = Inr (NewOrderPlaced K newID i v customerID tot)"
    and inv: "pg_inv env (pgdb.truncate (pw_db w'))"
    and relay: "relay_wire CL wmp env rnd now txt log prov brokers = Inr [OTelM prov, PublisherM pub, RelayM r]"
    and broker: "keeps_broker B pub r"
    and run: "relay_Run r ctx evs False (pgdb.truncate (pw_db w'), v) = (res, running, (db', v'))"
  shows "\<exists>k. (\<exists>rec. pg_rows env db' k = Some rec \<and> rec_EventID rec = newID \<and> rec_Topic rec = topicPlaced) \<or>
    (\<exists>d. pg_letters env db' k = Some d \<and> rec_EventID (dl_Record d) = newID) \<or>
    (\<exists>msg ver. (topicPlaced, msg) \<in> B v' \<and> msg_UUID msg = newID \<and>
       (\<forall>c. codec_Unmarshal CL eventcodec_New c msg =
            Ret (Inr (NewOrderPlaced K newID i ver customerID tot, EventNamePlaced))))"
proof -
  have dist: "distinct (map pr_id (db_rows (pw_db w')))" using inv by (simp add: pg_inv_def pgdb.truncate_def)
  obtain ver k row msg c where row: "pg_find (pgdb.truncate (pw_db w')) k = Some row"
    and m: "codec_Marshal CL c (NewOrderPlaced K newID i ver customerID tot) = Inr msg"
    and rec: "rec_EventID (pg_view env row) = newID" "rec_Topic (pg_view env row) = topicPlaced"
      "rec_Payload (pg_view env row) = msg_Payload msg" "rec_Headers (pg_view env row) = msg_Metadata msg"
    by (rule created_row [OF assms(1,4,3) api dist])
  let ?ev = "NewOrderPlaced K newID i ver customerID tot"
  have name: "ev_EventName ?ev = EventNamePlaced" "ev_EventID ?ev = newID" by (simp_all add: NewOrderPlaced_def)
  obtain store :: "order_body pgx_store" where
    wd: "relay_wired r (pgx_Fetch env store) (pgx_MarkSent env) (pgx_MarkFailed env) (pgx_Terminate env)"
    and cd: "rl_codec r = json_codec CL eventcodec_New" and obs: "observes (on_broker CL B) r"
    by (rule relay_wire_wired [OF relay broker])
  have "pgx_relay.accounted_in env (on_broker CL B) r ctx (Some k) (pg_view env row) db' v'"
    by (rule pgx_relay.Run_accounts [OF inv wd obs run]) (simp add: pg_rows_def row)
  then consider (kept) rec' where "pg_rows env db' (Some k) = Some rec'" "same_event (pg_view env row) rec'"
    | (dead) d where "pg_letters env db' (Some k) = Some d" "same_event (pg_view env row) (dl_Record d)"
    | (sent) "delivered (on_broker CL B) r ctx (pg_view env row) v'"
    by (auto simp: pgx_relay.accounted_in_def)
  then show ?thesis
  proof cases
    case sent
    from delivered_message [OF assms(2) m name(1) _ rec(3,4) cd sent] json show ?thesis
      unfolding rec(2) name(2) by blast
  next
    case kept
    then show ?thesis using rec by (intro exI [of _ "Some k"]) (auto simp: same_event_def)
  next
    case dead
    then show ?thesis using rec by (intro exI [of _ "Some k"]) (auto simp: same_event_def)
  qed
qed

text \<open>The example shop with a JSON codec that knows its order, and a broker that is a list.\<close>

definition flow_event :: order_event where
  "flow_event = NewOrderPlaced example_core ''e1'' ''o1'' 1 ''c1'' 350"

definition flow_lib :: "(event_factory, order_body) codec_lib" where
  "flow_lib = example_order_lib\<lparr>
     json_Marshal := (\<lambda>ev. if ev = flow_event then Inr ''placed'' else Inl (ErrNew ''json'')),
     json_Unmarshal := (\<lambda>b f. if b = ''placed'' then Inr flow_event else Inl (ErrNew ''json''))\<rparr>"

definition flow_headers :: headers where
  "flow_headers = msg_Metadata (projr (codec_Marshal flow_lib (WithTx (WithCorrelationID background ''o1'') 0) flow_event))"

definition flow_env :: pg_env where
  "flow_env = example_env\<lparr>pe_jsonMarshal := (\<lambda>h. if h = flow_headers then Inr ''h'' else Inl (ErrNew ''json'')),
     pe_jsonUnmarshal := (\<lambda>b. Inr flow_headers)\<rparr>"

definition flow_store :: "order_body pgx_store" where
  "flow_store = \<lparr>ps_codec = json_codec flow_lib eventcodec_New, ps_claimLease = defaultClaimLease\<rparr>"

definition flow_broker where
  "flow_broker pk = Inr (\<lambda>t ms (w :: (string \<times> wm_msg) list). (None :: goerr option, w @ map (Pair t) ms),
     \<lambda>w :: (string \<times> wm_msg) list. (None :: goerr option, w))"

abbreviation flow_post where
  "flow_post \<equiv> api_post_orders example_core (\<lambda>e. ''error'') (place_Handle example_core (pgx_deps example_core example_items_lib flow_env
     flow_store (example_manager (\<lambda>d. False)) topicPlaced) ''e1'') ''x'' background (Inr (''o1'', ''c1'', example_items))
     example_shop"

abbreviation flow_relay ::
  "goerr + (unit, ((string \<times> wm_msg) list, order_body) kafka_publisher,
     (pgdb, (string \<times> wm_msg) list, order_body) relay, unit, unit, unit) app_module list" where
  "flow_relay \<equiv> relay_wire flow_lib flow_broker flow_env (\<lambda>w. (0, w)) (\<lambda>w. (0, w)) (\<lambda>e. ''error'') (\<lambda>m f w. w) () [''b:9092'']"

lemma flow_lib_ok: "lib_ok flow_lib"
  by (simp add: lib_ok_def header_names_def flow_lib_def example_order_lib_def)

lemma flow_headers_survive: "headers_survive flow_env (ps_codec flow_store)"
  by (auto simp: headers_survive_def json_survives_def flow_env_def example_env_def split: if_splits)

lemma flow_marshal:
  obtains msg where "codec_Marshal flow_lib (WithTx (WithCorrelationID background ''o1'') 0) flow_event = Inr msg"
    "msg_Metadata msg = flow_headers"
proof -
  have "\<exists>msg. codec_Marshal flow_lib (WithTx (WithCorrelationID background ''o1'') 0) flow_event = Inr msg"
    by (simp add: codec_Marshal_def flow_lib_def Let_def)
  then show ?thesis using that by (auto simp: flow_headers_def)
qed

lemma flow_placed:
  obtains w' row where "flow_post = (Created ''o1'' 350, [], w')" "pg_inv flow_env (pgdb.truncate (pw_db w'))"
    "db_rows (pw_db w') = [row]" "pr_topic row = topicPlaced" "pr_payload row = ''placed''" "pr_headers row = ''h''"
    "pr_available_at row \<le> int (db_ticks (pw_db w')) * second" "pr_claimed_until row = None"
proof -
  obtain msg where m: "codec_Marshal flow_lib (WithTx (WithCorrelationID background ''o1'') 0) flow_event = Inr msg"
    "msg_Metadata msg = flow_headers" by (rule flow_marshal)
  have ev: "or_events example_order = [flow_event]" by (simp add: example_order_more flow_event_def)
  have ctx: "ctx_err (WithCorrelationID background ''o1'') = None"
    "TxFromContext (WithTx (WithCorrelationID background ''o1'') 0) = Some 0"
    by (simp_all add: WithCorrelationID_def background_def)
  have st: "pgx_stage_one flow_env (json_codec flow_lib eventcodec_New) (WithTx (WithCorrelationID background ''o1'') 0) flow_event
      = Inr \<lparr>sg_eventID = ev_EventID flow_event, sg_eventName = ev_EventName flow_event,
              sg_aggregateID = ev_AggregateID flow_event, sg_aggregateType = ev_AggregateType flow_event,
              sg_payload = msg_Payload msg, sg_headers = ''h''\<rparr>"
    using m by (simp add: pgx_stage_one_def json_codec_def flow_env_def)
  obtain rep logs w' where r: "flow_post = (rep, logs, w')" by (metis prod_cases3)
  have payload: "msg_Payload msg = ''placed''" using m(1) by (auto simp: codec_Marshal_def flow_lib_def new_message_def Let_def)
  have "rep = Created ''o1'' 350 \<and> logs = [] \<and> (\<exists>row. db_rows (pw_db w') = [row] \<and> pr_id row = 1 \<and> pr_topic row = topicPlaced \<and>
      pr_payload row = ''placed'' \<and> pr_headers row = ''h'' \<and> pr_available_at row \<le> int (db_ticks (pw_db w')) * second \<and>
      pr_claimed_until row = None)"
    using r st ctx ev payload
    by (auto simp: api_post_orders_def place_Handle_def example_place pgx_deps_def WithinTx_def example_manager_def
        example_pool_def save_and_stage_def repo_Save_def exec_stmt_def Executor_def pg_run_def upsert_stmt_def
        example_items_lib_def flow_env_def example_env_def example_shop_def pgx_Stage_def flow_store_def
        example_order_fields example_order_more(1,2) pg_new_row_def order_ClearEvents_def second_def Let_def)
  then obtain row where row: "rep = Created ''o1'' 350" "logs = []" "db_rows (pw_db w') = [row]" "pr_id row = 1"
    "pr_topic row = topicPlaced" "pr_payload row = ''placed''" "pr_headers row = ''h''"
    "pr_available_at row \<le> int (db_ticks (pw_db w')) * second" "pr_claimed_until row = None" by blast
  have "pg_inv flow_env (pgdb.truncate (pw_db w'))"
    using row(3,4) by (simp add: pg_inv_def pgdb.truncate_def flow_env_def example_env_def example_uuids_canonical)
  from that [OF r [unfolded row(1,2)] this row(3,5-)] show ?thesis .
qed

lemma flow_relay_wired:
  obtains pub r where "flow_relay = Inr [OTelM (), PublisherM pub, RelayM r]" "keeps_broker set pub r"
proof -
  have "\<exists>pub r. flow_relay = Inr [OTelM (), PublisherM pub, RelayM r] \<and> keeps_broker set pub r"
    by (auto simp: relay_wire_def NewStore_def NewPublisher_def flow_broker_def NewRelay_def pgx_port_def
        WithHeaderRestorer_def keeps_broker_def Let_def)
  then show ?thesis using that by blast
qed

theorem placed_order_reaches_broker_witness:
  "\<exists>w' pub r res running db' v' k. flow_post = (Created ''o1'' 350, [], w') \<and>
     flow_relay = Inr [OTelM (), PublisherM pub, RelayM r] \<and>
     relay_Run r background [TickerFired] False (pgdb.truncate (pw_db w'), []) = (res, running, (db', v')) \<and>
     ((\<exists>rec. pg_rows flow_env db' k = Some rec \<and> rec_EventID rec = ''e1'' \<and> rec_Topic rec = topicPlaced) \<or>
      (\<exists>d. pg_letters flow_env db' k = Some d \<and> rec_EventID (dl_Record d) = ''e1'') \<or>
      (\<exists>msg. (topicPlaced, msg) \<in> set v' \<and> msg_UUID msg = ''e1''))"
proof -
  obtain w' where api: "flow_post = (Created ''o1'' 350, [], w')" and inv: "pg_inv flow_env (pgdb.truncate (pw_db w'))"
    by (rule flow_placed) blast
  obtain pub r where relay: "flow_relay = Inr [OTelM (), PublisherM pub, RelayM r]" and broker: "keeps_broker set pub r"
    by (rule flow_relay_wired)
  obtain res running db' v' where
    run: "relay_Run r background [TickerFired] False (pgdb.truncate (pw_db w'), []) = (res, running, (db', v'))"
    by (metis prod_cases4)
  have json: "\<forall>v b. json_Marshal flow_lib (NewOrderPlaced example_core ''e1'' ''o1'' v ''c1'' 350) = Inr b \<longrightarrow>
      json_Unmarshal flow_lib b NewPlaced = Inr (NewOrderPlaced example_core ''e1'' ''o1'' v ''c1'' 350)"
    by (auto simp: flow_lib_def split: if_splits)
  have codec: "ps_codec flow_store = json_codec flow_lib eventcodec_New" by (simp add: flow_store_def)
  obtain k where "(\<exists>rec. pg_rows flow_env db' k = Some rec \<and> rec_EventID rec = ''e1'' \<and> rec_Topic rec = topicPlaced) \<or>
      (\<exists>d. pg_letters flow_env db' k = Some d \<and> rec_EventID (dl_Record d) = ''e1'') \<or>
      (\<exists>msg. (topicPlaced, msg) \<in> set v' \<and> msg_UUID msg = ''e1'')"
    using placed_order_reaches_broker [OF example_manager_laws flow_lib_ok codec flow_headers_survive api json inv relay broker run]
    by blast
  then show ?thesis by (intro exI conjI) (rule api relay run | assumption)+
qed

section \<open>From the request to the reader\<close>

text \<open>
  C1: On a working day a placed order becomes visible. Let the API have answered 201, all rows of
  the outbox be due and unclaimed, the database work and the broker accept what the relay binary
  sends it. Then, in as many ticks as batches of 100 are needed, the relay binary empties the
  outbox and is still polling; the broker has the OrderPlaced of the order on its topic; and the
  reader's subscriber decodes that message, in any context, to an envelope after which, unless the
  reader already shows the order as shipped, GET /orders/{id} answers with the order: its id, its
  customer, the total of the API's answer and the status placed.
\<close>

theorem placed_order_becomes_visible:
  assumes "tx_laws (tm_pool m)" and "lib_ok CL" and "ps_codec s = json_codec CL eventcodec_New"
    and "headers_survive env (ps_codec s)"
    and api: "api_post_orders K errText (place_Handle K (pgx_deps K L env s m topicPlaced) newID) fresh rctx
            (Inr (oid, customerID, items)) w = (Created i tot, logs, w')"
    and json: "\<forall>v b. json_Marshal CL (NewOrderPlaced K newID i v customerID tot) = Inr b \<longrightarrow>
            json_Unmarshal CL b NewPlaced = Inr (NewOrderPlaced K newID i v customerID tot)"
    and relay: "relay_wire CL wmp env rnd now txt log prov brokers = Inr [OTelM prov, PublisherM pub, RelayM r]"
    and broker: "keeps_broker B pub r"
    and ready: "pg_ready env (db_dead (pw_db w')) (pgdb.truncate (pw_db w'))"
    and accept: "\<forall>row \<in> set (db_rows (pw_db w')). accepts r ctx (pg_view env row)"
    and ticks: "length (db_rows (pw_db w')) \<le> k * 100"
  shows "\<exists>db' v'. relay_Run r ctx (replicate k TickerFired) False (pgdb.truncate (pw_db w'), v) = (Waiting, True, (db', v')) \<and>
    db_rows db' = [] \<and>
    (\<exists>msg ver. (topicPlaced, msg) \<in> B v' \<and> msg_UUID msg = newID \<and>
       (\<forall>c cancelled t. sl_pump t = PumpReady \<longrightarrow>
          (\<exists>e. pump_step (json_codec CL eventcodec_New) c cancelled t
                 (t\<lparr>sl_received := sl_received t @ [msg], sl_pump := PumpHolding e\<rparr>) \<and>
               (\<forall>vs. (\<forall>old. vs i = Some old \<longrightarrow> vw_Status old \<noteq> StatusShipped) \<longrightarrow>
                  fst (reader_get_order K T i (snd (snd (reader_apply e vs)))) =
                  Shown \<lparr>vw_OrderID = i, vw_CustomerID = customerID, vw_Status = StatusPlaced, vw_TotalCents = tot,
                         vw_Carrier = [], vw_Version = ver\<rparr>))))"
proof -
  let ?db = "pgdb.truncate (pw_db w')"
  have tr: "db_rows ?db = db_rows (pw_db w')" "db_dead ?db = db_dead (pw_db w')" by (simp_all add: pgdb.truncate_def)
  have dist: "distinct (map pr_id (db_rows (pw_db w')))"
    using ready by (simp add: pg_ready_def pg_works_def pg_inv_def tr)
  obtain ver j row msg c where row: "pg_find ?db j = Some row"
    and m: "codec_Marshal CL c (NewOrderPlaced K newID i ver customerID tot) = Inr msg"
    and rec: "rec_EventID (pg_view env row) = newID" "rec_Topic (pg_view env row) = topicPlaced"
      "rec_Payload (pg_view env row) = msg_Payload msg" "rec_Headers (pg_view env row) = msg_Metadata msg"
    by (rule created_row [OF assms(1,4,3) api dist])
  let ?ev = "NewOrderPlaced K newID i ver customerID tot"
  have ev: "ev_EventName ?ev = EventNamePlaced" "ev_EventID ?ev = newID" by (simp_all add: NewOrderPlaced_def)
  obtain store :: "order_body pgx_store" where
    wd: "relay_wired r (pgx_Fetch env store) (pgx_MarkSent env) (pgx_MarkFailed env) (pgx_Terminate env)"
    and cd: "rl_codec r = json_codec CL eventcodec_New" and obs: "observes (on_broker CL B) r"
    and cfg: "rl_batchSize r = 100" "rl_pollInterval r = second"
    by (rule relay_wire_wired [OF relay broker])
  obtain db' v' where run: "relay_Run r ctx (replicate k TickerFired) False (?db, v) = (Waiting, True, (db', v'))"
    and db': "db_rows db' = []" and v': "v' = fold (publish_rec r ctx) (pg_backlog env ?db) v"
    using pgx_Run_delivers [OF ready [folded tr(2)] wd _ _ accept [folded tr(1)], of k v] cfg ticks by (auto simp: tr second_def)
  have "row \<in> set (db_rows ?db)" using pg_find_id [OF row] by simp
  then have "delivered (on_broker CL B) r ctx (pg_view env row) v'"
    using fold_publish_delivered [OF obs] accept by (auto simp: v' pg_backlog_def tr)
  from delivered_message [OF assms(2) m ev(1) _ rec(3,4) cd this] json
  obtain msg' where msg': "(topicPlaced, msg') \<in> B v'" "msg_UUID msg' = newID"
    "\<And>c. codec_Unmarshal CL eventcodec_New c msg' = Ret (Inr (?ev, EventNamePlaced))"
    unfolding rec(2) ev(2) by blast
  show ?thesis using run db' msg'(1,2) reader_sees [OF msg'(3)] by blast
qed

text \<open>The example shop on such a day: one row, one tick.\<close>

lemma flow_accepts:
  assumes "flow_relay = Inr [OTelM (), PublisherM pub, RelayM r]" and "pr_topic row = topicPlaced"
    and "pr_payload row = ''placed''" and "pr_headers row = ''h''"
  shows "accepts r background (pg_view flow_env row)"
proof -
  have r: "rl_codec r = json_codec flow_lib eventcodec_New" "rl_Publish r = publish_port pub"
    "rl_headerRestorer r = Some (\<lambda>c h. Ret (RestoreCoreHeaders flow_lib c h))"
    "kp_codec pub = json_codec flow_lib eventcodec_New" "kp_pub pub = (\<lambda>t ms w. (None, w @ map (Pair t) ms))"
    using assms(1) by (auto simp: relay_wire_def NewStore_def NewPublisher_def flow_broker_def NewRelay_def pgx_port_def
        WithHeaderRestorer_def Let_def)
  obtain msg where m: "codec_Marshal flow_lib (WithTx (WithCorrelationID background ''o1'') 0) flow_event = Inr msg"
    "msg_Metadata msg = flow_headers" by (rule flow_marshal)
  have p: "msg_Payload msg = ''placed''" using m(1) by (auto simp: codec_Marshal_def flow_lib_def new_message_def Let_def)
  have "codec_Unmarshal flow_lib eventcodec_New background (relay_message (pg_view flow_env row)) = Ret (Inr (flow_event, EventNamePlaced))"
    by (rule eventcodec_decodes [OF flow_lib_ok m(1)])
       (use m(2) p assms(3,4) in \<open>auto simp: flow_event_def NewOrderPlaced_def flow_lib_def relay_message_def new_message_def
          pg_view_def pg_record_def pg_headers_def flow_env_def split: if_splits\<close>)
  moreover have "fst (kafka_Publish pub c t [flow_event] w) = None" for c t w
    by (simp add: kafka_Publish_def kafka_encode_def r json_codec_def codec_Marshal_def flow_lib_def Let_def)
  ultimately show ?thesis
    by (auto simp: accepts_def pub_context_def r json_codec_def publish_port_def split: prod.split)
       (metis fst_conv)
qed

theorem placed_order_becomes_visible_witness:
  "\<exists>w' pub r db' v'. flow_post = (Created ''o1'' 350, [], w') \<and> flow_relay = Inr [OTelM (), PublisherM pub, RelayM r] \<and>
     relay_Run r background [TickerFired] False (pgdb.truncate (pw_db w'), []) = (Waiting, True, (db', v')) \<and>
     db_rows db' = [] \<and> (\<exists>msg. (topicPlaced, msg) \<in> set v' \<and> msg_UUID msg = ''e1'')"
proof -
  obtain w' row where api: "flow_post = (Created ''o1'' 350, [], w')" and inv: "pg_inv flow_env (pgdb.truncate (pw_db w'))"
    and rows: "db_rows (pw_db w') = [row]" and row: "pr_topic row = topicPlaced" "pr_payload row = ''placed''" "pr_headers row = ''h''"
    and due: "pr_available_at row \<le> int (db_ticks (pw_db w')) * second" "pr_claimed_until row = None"
    by (rule flow_placed)
  obtain pub r where relay: "flow_relay = Inr [OTelM (), PublisherM pub, RelayM r]" and broker: "keeps_broker set pub r"
    by (rule flow_relay_wired)
  have "pr_available_at row \<le> int k * second" if "db_ticks (pw_db w') \<le> k" for k
    using due(1) that by (smt (verit) mult_right_mono of_nat_mono second_def)
  then have ready: "pg_ready flow_env (db_dead (pw_db w')) (pgdb.truncate (pw_db w'))"
    using inv row due(2)
    by (auto simp: pg_ready_def pg_works_def pg_idle_def pgdb.truncate_def rows pg_headers_def flow_env_def example_env_def)
  have json: "\<forall>v b. json_Marshal flow_lib (NewOrderPlaced example_core ''e1'' ''o1'' v ''c1'' 350) = Inr b \<longrightarrow>
      json_Unmarshal flow_lib b NewPlaced = Inr (NewOrderPlaced example_core ''e1'' ''o1'' v ''c1'' 350)"
    by (auto simp: flow_lib_def split: if_splits)
  have codec: "ps_codec flow_store = json_codec flow_lib eventcodec_New" by (simp add: flow_store_def)
  have accept: "\<forall>q \<in> set (db_rows (pw_db w')). accepts r background (pg_view flow_env q)"
    using flow_accepts [OF relay row] by (simp add: rows)
  have "length (db_rows (pw_db w')) \<le> 1 * 100" by (simp add: rows)
  from placed_order_becomes_visible [OF example_manager_laws flow_lib_ok codec flow_headers_survive api json relay broker
      ready accept this, where v = "[]" and T = "\<lambda>e. []"] api relay show ?thesis by auto
qed

section \<open>A fleet of relay binaries\<close>

text \<open>
  C3: The same for any number of relay binaries on one database. However their statements and
  sends interleave with each other and with the transactions of the services, whichever
  statements fail and wherever relays crash and restart: an OrderPlaced whose row a
  transaction has committed is still in the outbox, or among the dead letters, or the broker has a
  message on its topic with the event's id that decodes to exactly this event. (JSON decodes
  what it encoded for this event, the headers survived the JSONB column, UUIDs are canonical.)
\<close>

theorem fleet_order_reaches_broker:
  assumes "lib_ok CL" and "\<forall>n. uuid_canonical (pe_uuid env n)"
    and relays: "\<forall>i. relay_wire CL (wmp i) env (rnd i) (now i) txt (log i) prov (brokers i) =
           Inr [OTelM prov, PublisherM (pub i), RelayM (R i)] \<and> keeps_broker B (pub i) (R i)"
    and reach: "(fleet_step env R C)\<^sup>*\<^sup>* (fleet_start w) st"
    and h: "h \<in> set (fl_committed st)" and row: "staged_as env (json_codec CL eventcodec_New) c topic [ev] [h]"
    and name: "ev_EventName ev = EventNamePlaced"
    and json: "\<forall>b. json_Marshal CL ev = Inr b \<longrightarrow> json_Unmarshal CL b NewPlaced = Inr ev"
  shows "(\<exists>r \<in> set (db_rows (fl_db st)). pr_id r = pr_id h \<and> pr_event_id r = ev_EventID ev \<and> pr_topic r = topic) \<or>
    (\<exists>d \<in> set (db_dead (fl_db st)). pr_id (pd_row d) = pr_id h \<and> pr_event_id (pd_row d) = ev_EventID ev) \<or>
    (\<exists>msg. (topic, msg) \<in> B (fl_world st) \<and> msg_UUID msg = ev_EventID ev \<and>
       (\<forall>c. codec_Unmarshal CL eventcodec_New c msg = Ret (Inr (ev, EventNamePlaced))))"
proof -
  have wire: "\<exists>S :: order_body pgx_store. observes (on_broker CL B) (R i) \<and> rl_codec (R i) = json_codec CL eventcodec_New \<and>
      relay_wired (R i) (pgx_Fetch env S) (pgx_MarkSent env) (pgx_MarkFailed env) (pgx_Terminate env)" for i
    by (rule relay_wire_wired [OF relays [rule_format, THEN conjunct1] relays [rule_format, THEN conjunct2], of i]) blast
  then obtain S :: "nat \<Rightarrow> order_body pgx_store" where wired: "fleet_wired env (on_broker CL B) R S"
    unfolding fleet_wired_def by metis
  have inv: "fleet_inv env (on_broker CL B) R C st"
    by (rule fleet_reachable_inv [OF reach wired]) (simp add: assms(2))
  obtain msg where m: "codec_Marshal CL c ev = Inr msg"
    and rec: "rec_EventID (pg_view env h) = ev_EventID ev" "rec_Topic (pg_view env h) = topic"
      "rec_Payload (pg_view env h) = msg_Payload msg" "rec_Headers (pg_view env h) = msg_Metadata msg"
    using row by (auto simp: staged_as_def json_codec_def dest: pg_scan_view)
  have view: "pr_event_id r = ev_EventID ev \<and> pr_topic r = topic" if "same_event (pg_view env h) (pg_view env r)" for r
    using that rec(1,2) by (auto simp: same_event_def pg_view_def pg_record_def)
  have sent: "\<exists>msg. (topic, msg) \<in> B (fl_world st) \<and> msg_UUID msg = ev_EventID ev \<and>
       (\<forall>c. codec_Unmarshal CL eventcodec_New c msg = Ret (Inr (ev, EventNamePlaced)))"
    if d: "delivered (on_broker CL B) (R i) (C i) (pg_view env h) (fl_world st)" for i
    using delivered_message [OF assms(1) m name json rec(3,4) _ d] wire [of i] rec(2) by blast
  show ?thesis using fleet_inv_committed [OF inv h] view sent by blast
qed

text \<open>A client commits the row of the example order; a fleet of the example relays serves it.\<close>

theorem fleet_order_reaches_broker_witness:
  "\<exists>pub r st h. flow_relay = Inr [OTelM (), PublisherM pub, RelayM r] \<and>
     (fleet_step flow_env (\<lambda>i. r) (\<lambda>i. background))\<^sup>*\<^sup>* (fleet_start []) st \<and> fl_committed st = [h] \<and>
     ((\<exists>q \<in> set (db_rows (fl_db st)). pr_id q = pr_id h \<and> pr_event_id q = ''e1'' \<and> pr_topic q = topicPlaced) \<or>
      (\<exists>d \<in> set (db_dead (fl_db st)). pr_event_id (pd_row d) = ''e1'') \<or>
      (\<exists>msg. (topicPlaced, msg) \<in> set (fl_world st) \<and> msg_UUID msg = ''e1''))"
proof -
  obtain pub r where relay: "flow_relay = Inr [OTelM (), PublisherM pub, RelayM r]" and broker: "keeps_broker set pub r"
    by (rule flow_relay_wired)
  let ?R = "\<lambda>i :: nat. r" and ?C = "\<lambda>i :: nat. background" and ?c = "WithTx (WithCorrelationID background ''o1'') 0"
  let ?cd = "json_codec flow_lib eventcodec_New"
  obtain msg where m: "codec_Marshal flow_lib ?c flow_event = Inr msg" "msg_Metadata msg = flow_headers"
    by (rule flow_marshal)
  then obtain p where p: "pgx_stage_one flow_env ?cd ?c flow_event = Inr p"
    by (auto simp: pgx_stage_one_def json_codec_def flow_env_def)
  let ?h = "pg_new_row flow_env topicPlaced 1 0 p"
  let ?s0 = "fleet_start [] :: (string \<times> wm_msg) list fleet"
  let ?s1 = "?s0\<lparr>fl_open := [[]]\<rparr>"
  let ?s2 = "?s1\<lparr>fl_db := (fl_db ?s1)\<lparr>db_seq := 2, db_ticks := 2\<rparr>, fl_open := [[?h]]\<rparr>"
  let ?s3 = "?s2\<lparr>fl_db := (fl_db ?s2)\<lparr>db_rows := [?h]\<rparr>, fl_open := [], fl_committed := [?h]\<rparr>"
  let ?step = "fleet_step flow_env ?R ?C"
  have 1: "?step ?s0 ?s1" using fleet_begin [of flow_env ?R ?C ?s0] by (simp add: fleet_start_def)
  have 2: "?step ?s1 ?s2"
    using fleet_insert [of ?s1 "[]" "[]" "[]" flow_env topicPlaced "[p]" _ ?R ?C]
    by (simp add: fleet_start_def numeral_2_eq_2)
  have 3: "?step ?s2 ?s3"
    using fleet_commit [of ?s2 "[]" "[?h]" "[]" flow_env ?R ?C] by (simp add: fleet_start_def)
  have run: "?step\<^sup>*\<^sup>* ?s0 ?s3"
    by (rule rtranclp.rtrancl_into_rtrancl [OF rtranclp.rtrancl_into_rtrancl [OF r_into_rtranclp]]) (rule 1 2 3)+
  have hs: "headers_survive flow_env ?cd" using flow_headers_survive by (simp add: flow_store_def)
  have uuids: "\<forall>n. uuid_canonical (pe_uuid flow_env n)" by (simp add: flow_env_def example_env_def example_uuids_canonical)
  have json: "\<forall>b. json_Marshal flow_lib flow_event = Inr b \<longrightarrow> json_Unmarshal flow_lib b NewPlaced = Inr flow_event"
    by (simp add: flow_lib_def)
  have ev: "ev_EventName flow_event = EventNamePlaced" "ev_EventID flow_event = ''e1''"
    by (simp_all add: flow_event_def NewOrderPlaced_def)
  have rel: "\<forall>i :: nat. flow_relay = Inr [OTelM (), PublisherM pub, RelayM r] \<and> keeps_broker set pub r"
    using relay broker by simp
  have com: "fl_committed ?s3 = [?h]" by simp
  then have h: "?h \<in> set (fl_committed ?s3)" by simp
  have res: "(\<exists>q \<in> set (db_rows (fl_db ?s3)). pr_id q = pr_id ?h \<and> pr_event_id q = ''e1'' \<and> pr_topic q = topicPlaced) \<or>
      (\<exists>d \<in> set (db_dead (fl_db ?s3)). pr_event_id (pd_row d) = ''e1'') \<or>
      (\<exists>msg. (topicPlaced, msg) \<in> set (fl_world ?s3) \<and> msg_UUID msg = ''e1'')"
    using fleet_order_reaches_broker [OF flow_lib_ok uuids rel run h staged_row [OF p hs] ev(1) json]
    unfolding ev(2) by blast
  show ?thesis by (intro exI conjI) (rule relay run com res)+
qed

section \<open>Repeated delivery\<close>

text \<open>
  C7: The worker may see the same OrderPlaced again. Once its handler has returned nil for it, the
  order is shipped in the database; and handling the event a second time, at any later time at
  which the order's row is still that one, in whatever state the rest of the database is by
  then, changes neither the orders nor the outbox: no second OrderShipped is ever staged.
\<close>

theorem redelivery_ships_once:
  assumes "tx_laws (tm_pool m)" and "headers_survive env (ps_codec s)" and "core_ok K"
    and "TxFromContext ctx = None" and "TxFromContext ctx' = None" and "ev_Body (env_Event e) = PlacedBody c t"
    and first: "worker_handle K L CL env rule s m newID ctx e w = (Ret None, lines, w1)"
    and row: "sd_orders (pw_db w2) (ev_AggregateID (env_Event e)) = sd_orders (pw_db w1) (ev_AggregateID (env_Event e))"
    and again: "worker_handle K L CL env rule s m newID' ctx' e w2 = (r, lines', w3)"
  shows "(\<exists>row. sd_orders (pw_db w1) (ev_AggregateID (env_Event e)) = Some row \<and> ow_status row = StatusShipped) \<and>
    unchanged (pw_db w2) (pw_db w3)"
proof -
  let ?i = "ev_AggregateID (env_Event e)"
  obtain ctx1 res where c1: "TxFromContext ctx1 = None"
    and s1: "ship_Handle K (pgx_deps K L env s m topicShipped) newID ctx1 ?i DefaultCarrier w = (res, w1)"
    and r1: "\<exists>i. res = Ret (Inr i)"
    using worker_handle_ship [OF first assms(6)] assms(4) by metis
  have shipped: "\<exists>row. sd_orders (pw_db w1) ?i = Some row \<and> ow_status row = StatusShipped"
    using ship_Handle_once [OF assms(1-3) c1 s1] r1 by (auto simp: unchanged_def dest: ships_shipped)
  obtain ctx2 res2 where c2: "TxFromContext ctx2 = None"
    and s2: "ship_Handle K (pgx_deps K L env s m topicShipped) newID' ctx2 ?i DefaultCarrier w2 = (res2, w3)"
    using worker_handle_ship [OF again assms(6)] assms(5) by metis
  have "\<not> ships K L env (ps_codec s) ctx2 topicShipped newID' ?i DefaultCarrier (pw_db w2) (pw_db w3)"
    using shipped row by (auto simp: status_defs dest!: ships_shipped)
  then have "unchanged (pw_db w2) (pw_db w3)"
    using ship_Handle_once [OF assms(1-3) c2 s2] by (auto split: outcome.splits sum.splits)
  with shipped show ?thesis by blast
qed

text \<open>The example shop with the order placed, and its OrderPlaced delivered twice.\<close>

definition flow_envelope :: "order_body envelope" where
  "flow_envelope = \<lparr>env_Event = flow_event, env_Name = EventNamePlaced, env_Raw = new_message ''e1'' ''placed''\<rparr>"

abbreviation flow_worker where
  "flow_worker \<equiv> worker_handle example_core example_items_lib example_order_lib example_env (\<lambda>c m. ErrNew m)
     \<lparr>ps_codec = example_order_codec, ps_claimLease = defaultClaimLease\<rparr> (example_manager (\<lambda>d. False))"

lemma flow_worker_ships: "fst (flow_worker ''e2'' background flow_envelope example_placed_shop) = Ret None"
proof -
  have ctx: "RestoreCoreHeaders example_order_lib background Map.empty = background"
    by (simp add: RestoreCoreHeaders_def map_get_def)
  have fields: "ev_Body flow_event = PlacedBody ''c1'' 350" "ev_AggregateID flow_event = ''o1''" "ev_EventID flow_event = ''e1''"
    by (simp_all add: flow_event_def NewOrderPlaced_def)
  have c: "TxFromContext (WithCausationID background ''e1'') = None" "ctx_err (WithCausationID background ''e1'') = None"
    by (simp_all add: TxFromContext_def background_def WithCausationID_def)
  have t: "TxFromContext (WithTx (WithCausationID background ''e1'') 0) = Some 0" by simp
  show ?thesis
    using c t
    by (simp add: worker_handle_def HandleOrderPlaced_def flow_envelope_def fields new_message_def ctx ship_dispatch_def
        ship_Handle_def pgx_deps_def repo_FindByID_def exec_stmt_def Executor_def pg_run_def find_stmt_def
        example_env_def example_placed_shop_def row_of_def example_items_lib_def order_Hydrate_def order_New_def
        order_Ship_def example_order_fields example_order_more status_defs example_core_def WithinTx_def
        example_manager_def example_pool_def save_and_stage_def repo_Save_def upsert_stmt_def pgx_Stage_def
        pgx_stage_one_def example_order_codec_def NewOrderShipped_def Let_def)
qed

theorem redelivery_ships_once_witness:
  "\<exists>lines w1. flow_worker ''e2'' background flow_envelope example_placed_shop = (Ret None, lines, w1) \<and>
     (\<exists>row. sd_orders (pw_db w1) ''o1'' = Some row \<and> ow_status row = StatusShipped) \<and>
     unchanged (pw_db w1) (pw_db (snd (snd (flow_worker ''e3'' background flow_envelope w1))))"
proof -
  obtain lines w1 where first: "flow_worker ''e2'' background flow_envelope example_placed_shop = (Ret None, lines, w1)"
    using flow_worker_ships by (metis prod.collapse)
  obtain r lines' w3 where again: "flow_worker ''e3'' background flow_envelope w1 = (r, lines', w3)" by (metis prod_cases3)
  have hs: "headers_survive example_env (ps_codec \<lparr>ps_codec = example_order_codec, ps_claimLease = defaultClaimLease\<rparr>)"
    by (simp add: example_headers)
  have notx: "TxFromContext background = None" by (simp add: TxFromContext_def background_def)
  have fields: "ev_Body (env_Event flow_envelope) = PlacedBody ''c1'' 350" "ev_AggregateID (env_Event flow_envelope) = ''o1''"
    by (simp_all add: flow_envelope_def flow_event_def NewOrderPlaced_def)
  from redelivery_ships_once [OF example_manager_laws hs example_core_ok notx notx fields(1) first refl again]
  show ?thesis using first again fields(2) by simp
qed

end
